(* ===== verification/Prelude.thy ===== *)
theory Prelude
  imports Main "HOL-Library.Word" "HOL-Library.Char_ord" "HOL-Library.List_Lexorder" "HOL-Library.Code_Target_Nat"
begin

text \<open>
  What every component of the development shares: Go's maps as association lists
  with distinct keys, Go's signed 64-bit arithmetic, the string functions the
  sources call, and the interfaces (locales) that several components implement.

  \<^item> \<open>gomap\<close>: Go's \<^verbatim>\<open>map[K]V\<close>. Iteration order is the list order; Go leaves it
    unspecified, so no lemma of the development depends on it.
  \<^item> \<open>i64\<close>: two's complement wrap-around to 64 bits, written around every
    addition of the sources that may leave the range of \<^verbatim>\<open>int64\<close>.
  \<^item> \<open>trim_space\<close>, \<open>to_lower\<close>: \<^verbatim>\<open>strings.TrimSpace\<close> and \<^verbatim>\<open>strings.ToLower\<close> on
    byte strings.
\<close>

named_theorems gomap_simps \<open>lookup after update, delete and restriction\<close>
named_theorems wf_intros \<open>operations that keep a component's invariant\<close>

lemma pred_option_eval [code]:
  "pred_option P None = True" "pred_option P (Some x) = P x"
  by simp_all

text \<open>A result triple named by its projections.\<close>

lemma triple_collapse: "x = (fst x, fst (snd x), snd (snd x))"
  by simp

text \<open>The value of an option, or a default.\<close>

fun the_default :: "'a \<Rightarrow> 'a option \<Rightarrow> 'a" where
  "the_default d None = d"
| "the_default d (Some x) = x"

subsection \<open>Go maps\<close>

type_synonym ('k, 'v) gomap = "('k \<times> 'v) list"

abbreviation gm_get :: "('k, 'v) gomap \<Rightarrow> 'k \<Rightarrow> 'v option" where
  "gm_get \<equiv> map_of"

fun gm_put :: "'k \<Rightarrow> 'v \<Rightarrow> ('k, 'v) gomap \<Rightarrow> ('k, 'v) gomap" where
  "gm_put k v [] = [(k, v)]"
| "gm_put k v ((k', v') # m) = (if k = k' then (k, v) # m else (k', v') # gm_put k v m)"

definition gm_del :: "'k \<Rightarrow> ('k, 'v) gomap \<Rightarrow> ('k, 'v) gomap" where
  "gm_del k m = filter (\<lambda>(k', _). k' \<noteq> k) m"

definition gm_keys :: "('k, 'v) gomap \<Rightarrow> 'k list" where
  "gm_keys m = map fst m"

definition gm_len :: "('k, 'v) gomap \<Rightarrow> nat" where
  "gm_len m = length m"

definition gm_wf :: "('k, 'v) gomap \<Rightarrow> bool" where
  "gm_wf m = distinct (map fst m)"

definition gm_upd :: "'k \<Rightarrow> ('v \<Rightarrow> 'v) \<Rightarrow> ('k, 'v) gomap \<Rightarrow> ('k, 'v) gomap" where
  "gm_upd k f m = (case gm_get m k of None \<Rightarrow> m | Some v \<Rightarrow> gm_put k (f v) m)"

lemma gm_get_put [simp, gomap_simps]:
  "gm_get (gm_put k v m) k' = (if k' = k then Some v else gm_get m k')"
  by (induction k v m rule: gm_put.induct) auto

lemma gm_get_del [simp, gomap_simps]:
  "gm_get (gm_del k m) k' = (if k' = k then None else gm_get m k')"
  by (induction m) (auto simp: gm_del_def)

lemma gm_del_Nil [simp]: "gm_del k [] = []"
  by (simp add: gm_del_def)

lemma gm_del_Cons [simp]:
  "gm_del k ((k', v) # m) = (if k' = k then gm_del k m else (k', v) # gm_del k m)"
  by (simp add: gm_del_def)

lemma gm_keys_put: "set (gm_keys (gm_put k v m)) = insert k (set (gm_keys m))"
  by (induction k v m rule: gm_put.induct) (auto simp: gm_keys_def)

lemma gm_keys_del: "set (gm_keys (gm_del k m)) = set (gm_keys m) - {k}"
  by (auto simp: gm_keys_def gm_del_def)

lemma gm_keys_get: "k \<in> set (gm_keys m) \<longleftrightarrow> gm_get m k \<noteq> None"
  by (simp add: gm_keys_def map_of_eq_None_iff)

lemma gm_wf_Nil [simp]: "gm_wf []"
  by (simp add: gm_wf_def)

lemma gm_wf_put [wf_intros]: "gm_wf m \<Longrightarrow> gm_wf (gm_put k v m)"
proof (induction k v m rule: gm_put.induct)
  case (2 k v k' v' m)
  have "fst ` set (gm_put k v m) = insert k (fst ` set m)"
    using gm_keys_put [of k v m] by (simp add: gm_keys_def)
  with 2 show ?case by (auto simp: gm_wf_def)
qed (simp add: gm_wf_def)

lemma gm_wf_filter [wf_intros]: "gm_wf m \<Longrightarrow> gm_wf (filter p m)"
  by (induction m) (auto simp: gm_wf_def)

lemma gm_wf_del [wf_intros]: "gm_wf m \<Longrightarrow> gm_wf (gm_del k m)"
  by (simp add: gm_del_def gm_wf_filter)

lemma set_gm_put: "set (gm_put k v m) \<subseteq> insert (k, v) (set m)"
  by (induction k v m rule: gm_put.induct) auto

lemma gm_len_put:
  "gm_len (gm_put k v m) = (if gm_get m k = None then Suc (gm_len m) else gm_len m)"
  by (induction k v m rule: gm_put.induct) (auto simp: gm_len_def)

lemma gm_len_filter: "gm_len (filter p m) \<le> gm_len m"
  by (simp add: gm_len_def)

lemma gm_len_del: "gm_len (gm_del k m) \<le> gm_len m"
  by (simp add: gm_len_def gm_del_def)

lemma gm_get_filter [gomap_simps]:
  "gm_wf m \<Longrightarrow> gm_get (filter p m) k =
     (case gm_get m k of None \<Rightarrow> None | Some v \<Rightarrow> if p (k, v) then Some v else None)"
  by (induction m) (auto simp: gm_wf_def map_of_eq_None_iff split: option.split)

lemma gm_get_filter_SomeD: "gm_wf m \<Longrightarrow> gm_get (filter p m) k = Some v \<Longrightarrow> gm_get m k = Some v"
  by (auto simp: gm_get_filter split: option.splits if_splits)

lemma gm_get_in_set: "gm_get m k = Some v \<Longrightarrow> (k, v) \<in> set m"
  by (rule map_of_SomeD)

lemma gm_in_set_get: "gm_wf m \<Longrightarrow> (k, v) \<in> set m \<Longrightarrow> gm_get m k = Some v"
  by (simp add: gm_wf_def)

text \<open>Rewriting the values of a map in place keeps its keys.\<close>

lemma gm_get_map_values:
  "gm_get (map (\<lambda>(k, v). (k, f k v)) m) k = map_option (f k) (gm_get m k)"
  by (induction m) auto

lemma gm_wf_map_values [wf_intros]: "gm_wf m \<Longrightarrow> gm_wf (map (\<lambda>(k, v). (k, f k v)) m)"
  by (simp add: gm_wf_def comp_def split_def)

subsection \<open>The map interface\<close>

text \<open>
  The laws a client of a Go map relies on. The client's lemmas about sequences of
  updates are proved once here and reach the components by the interpretation
  \<open>gm\<close> below.
\<close>

locale keyed_map =
  fixes get :: "'m \<Rightarrow> 'k \<Rightarrow> 'v option"
    and put :: "'k \<Rightarrow> 'v \<Rightarrow> 'm \<Rightarrow> 'm"
    and del :: "'k \<Rightarrow> 'm \<Rightarrow> 'm"
    and wf :: "'m \<Rightarrow> bool"
    and len :: "'m \<Rightarrow> nat"
  assumes get_put: "get (put k v m) k' = (if k' = k then Some v else get m k')"
    and get_del: "get (del k m) k' = (if k' = k then None else get m k')"
    and wf_put: "wf m \<Longrightarrow> wf (put k v m)"
    and wf_del: "wf m \<Longrightarrow> wf (del k m)"
    and len_put: "len (put k v m) = (if get m k = None then Suc (len m) else len m)"
    and len_del: "len (del k m) \<le> len m"
begin

definition put_all :: "('k \<times> 'v) list \<Rightarrow> 'm \<Rightarrow> 'm" where
  "put_all = fold (\<lambda>(k, v). put k v)"

definition del_all :: "'k list \<Rightarrow> 'm \<Rightarrow> 'm" where
  "del_all = fold del"

lemma get_put_all_other: "k \<notin> fst ` set kvs \<Longrightarrow> get (put_all kvs m) k = get m k"
  by (induction kvs arbitrary: m) (auto simp: put_all_def get_put)

lemma get_put_all_hit: "k \<in> fst ` set kvs \<Longrightarrow> get (put_all kvs m) k \<noteq> None"
proof (induction kvs arbitrary: m)
  case (Cons kv kvs)
  obtain k' v' where kv: "kv = (k', v')" by (cases kv)
  show ?case
  proof (cases "k \<in> fst ` set kvs")
    case True
    with Cons.IH [of "put k' v' m"] show ?thesis by (simp add: put_all_def kv)
  next
    case False
    with Cons.prems kv have "k = k'" by auto
    with get_put_all_other [OF False, of "put k' v' m"] show ?thesis
      by (simp add: put_all_def kv get_put)
  qed
qed (simp add: put_all_def)

lemma wf_put_all: "wf m \<Longrightarrow> wf (put_all kvs m)"
  by (induction kvs arbitrary: m) (auto simp: put_all_def wf_put)

lemma get_del_all: "get (del_all ks m) k = (if k \<in> set ks then None else get m k)"
  by (induction ks arbitrary: m) (auto simp: del_all_def get_del)

lemma wf_del_all: "wf m \<Longrightarrow> wf (del_all ks m)"
  by (induction ks arbitrary: m) (auto simp: del_all_def wf_del)

lemma len_del_all: "len (del_all ks m) \<le> len m"
proof (induction ks arbitrary: m)
  case (Cons k ks)
  have "len (del_all (k # ks) m) = len (del_all ks (del k m))" by (simp add: del_all_def)
  also have "\<dots> \<le> len (del k m)" by (rule Cons.IH)
  also have "\<dots> \<le> len m" by (rule len_del)
  finally show ?case .
qed (simp add: del_all_def)

lemma len_put_le: "len m \<le> n \<Longrightarrow> get m k \<noteq> None \<or> len m < n \<Longrightarrow> len (put k v m) \<le> n"
  by (auto simp: len_put)

end

interpretation gm: keyed_map gm_get gm_put gm_del gm_wf gm_len
  by unfold_locales (auto simp: gm_wf_put gm_wf_del gm_len_put gm_len_del)

subsection \<open>Signed 64-bit arithmetic\<close>

definition max_i64 :: int where
  "max_i64 = 9223372036854775807"

definition min_i64 :: int where
  "min_i64 = -9223372036854775808"

definition i64 :: "int \<Rightarrow> int" where
  "i64 x = (x + 9223372036854775808) mod 18446744073709551616 - 9223372036854775808"

definition in_i64 :: "int \<Rightarrow> bool" where
  "in_i64 x \<longleftrightarrow> min_i64 \<le> x \<and> x \<le> max_i64"

lemma i64_id: "in_i64 x \<Longrightarrow> i64 x = x"
  by (simp add: i64_def in_i64_def min_i64_def max_i64_def)

lemma in_i64_i64 [simp]: "in_i64 (i64 x)"
proof -
  have "0 \<le> (x + 9223372036854775808) mod 18446744073709551616" by simp
  moreover have "(x + 9223372036854775808) mod 18446744073709551616 < 18446744073709551616"
    by simp
  ultimately show ?thesis
    unfolding in_i64_def i64_def min_i64_def max_i64_def by linarith
qed

text \<open>Go's integer division truncates towards zero.\<close>

definition quo :: "int \<Rightarrow> int \<Rightarrow> int" where
  "quo a b = (if (0 \<le> a) = (0 \<le> b) then \<bar>a\<bar> div \<bar>b\<bar> else - (\<bar>a\<bar> div \<bar>b\<bar>))"

lemma quo_nonneg [simp]: "0 \<le> a \<Longrightarrow> 0 \<le> b \<Longrightarrow> quo a b = a div b"
  by (simp add: quo_def)

text \<open>
  The remainder that goes with \<open>quo\<close>: its sign is the dividend's, so a negative
  dividend can give a negative remainder.
\<close>

definition rem :: "int \<Rightarrow> int \<Rightarrow> int" where
  "rem a b = a - b * quo a b"

lemma rem_nonneg [simp]: "0 \<le> a \<Longrightarrow> 0 \<le> b \<Longrightarrow> rem a b = a mod b"
  by (simp add: rem_def minus_mult_div_eq_mod)

subsection \<open>Strings\<close>

text \<open>
  A Go string is a byte sequence. \<^verbatim>\<open>strings.TrimSpace\<close> drops leading and trailing
  Unicode white space; \<open>space_runes\<close> lists the UTF-8 encodings of the code points for
  which \<^verbatim>\<open>unicode.IsSpace\<close> holds.
\<close>

definition bytes :: "nat list \<Rightarrow> string" where
  "bytes = map char_of"

definition space_runes :: "string list" where
  "space_runes = map bytes
     ([[9], [10], [11], [12], [13], [32], [0xC2, 0x85], [0xC2, 0xA0], [0xE1, 0x9A, 0x80]]
      @ map (\<lambda>b. [0xE2, 0x80, b]) [0x80, 0x81, 0x82, 0x83, 0x84, 0x85, 0x86, 0x87, 0x88, 0x89, 0x8A]
      @ [[0xE2, 0x80, 0xA8], [0xE2, 0x80, 0xA9], [0xE2, 0x80, 0xAF], [0xE2, 0x81, 0x9F],
         [0xE3, 0x80, 0x80]])"

lemma space_runes_eval [code]:
  "space_runes = [[CHR 0x09], [CHR 0x0A], [CHR 0x0B], [CHR 0x0C], [CHR 0x0D], '' '', [CHR 0xC2, CHR 0x85],
     [CHR 0xC2, CHR 0xA0], [CHR 0xE1, CHR 0x9A, CHR 0x80],
     [CHR 0xE2, CHR 0x80, CHR 0x80], [CHR 0xE2, CHR 0x80, CHR 0x81], [CHR 0xE2, CHR 0x80, CHR 0x82],
     [CHR 0xE2, CHR 0x80, CHR 0x83], [CHR 0xE2, CHR 0x80, CHR 0x84], [CHR 0xE2, CHR 0x80, CHR 0x85],
     [CHR 0xE2, CHR 0x80, CHR 0x86], [CHR 0xE2, CHR 0x80, CHR 0x87], [CHR 0xE2, CHR 0x80, CHR 0x88],
     [CHR 0xE2, CHR 0x80, CHR 0x89], [CHR 0xE2, CHR 0x80, CHR 0x8A],
     [CHR 0xE2, CHR 0x80, CHR 0xA8], [CHR 0xE2, CHR 0x80, CHR 0xA9], [CHR 0xE2, CHR 0x80, CHR 0xAF],
     [CHR 0xE2, CHR 0x81, CHR 0x9F], [CHR 0xE3, CHR 0x80, CHR 0x80]]"
  by code_simp

definition has_prefix :: "string \<Rightarrow> string \<Rightarrow> bool" where
  "has_prefix p s \<longleftrightarrow> take (length p) s = p"

fun strip_first :: "string list \<Rightarrow> string \<Rightarrow> string option" where
  "strip_first [] s = None"
| "strip_first (p # ps) s =
     (if has_prefix p s then Some (drop (length p) s) else strip_first ps s)"

lemma strip_first_shorter:
  "strip_first ps s = Some t \<Longrightarrow> \<forall>p \<in> set ps. p \<noteq> [] \<Longrightarrow> length t < length s"
proof (induction ps)
  case (Cons p ps)
  show ?case
  proof (cases "has_prefix p s")
    case True
    from Cons.prems have "p \<noteq> []" by simp
    with True have "s \<noteq> []" by (auto simp: has_prefix_def)
    with True Cons.prems \<open>p \<noteq> []\<close> show ?thesis by auto
  next
    case False
    with Cons show ?thesis by simp
  qed
qed simp

text \<open>
  Stripping stops at the first position where none of the encodings matches. The first
  argument bounds the number of steps; a step removes at least one byte, so the length
  of the string is enough (\<open>trim_left_done\<close>).
\<close>

fun trim_left_n :: "nat \<Rightarrow> string list \<Rightarrow> string \<Rightarrow> string" where
  "trim_left_n 0 ps s = s"
| "trim_left_n (Suc n) ps s =
     (case strip_first ps s of None \<Rightarrow> s | Some t \<Rightarrow> trim_left_n n ps t)"

definition trim_left_of :: "string list \<Rightarrow> string \<Rightarrow> string" where
  "trim_left_of ps s = trim_left_n (length s) ps s"

definition trim_space :: "string \<Rightarrow> string" where
  "trim_space s = rev (trim_left_of (map rev space_runes) (rev (trim_left_of space_runes s)))"

lemma trim_left_done:
  assumes "\<forall>p \<in> set ps. p \<noteq> []"
  shows "length s \<le> n \<Longrightarrow> strip_first ps (trim_left_n n ps s) = None"
proof (induction n arbitrary: s)
  case 0
  then have "s = []" by simp
  moreover have "strip_first qs [] = None" if "\<forall>p \<in> set qs. p \<noteq> []" for qs
    using that by (induction qs) (auto simp: has_prefix_def)
  ultimately show ?case using assms by simp
next
  case (Suc n)
  show ?case
  proof (cases "strip_first ps s")
    case None
    then show ?thesis by simp
  next
    case (Some t)
    with assms have "length t < length s" by (blast intro: strip_first_shorter)
    with Suc.prems have "length t \<le> n" by simp
    with Suc.IH Some show ?thesis by simp
  qed
qed

lemma trim_space_Nil [simp]: "trim_space [] = []"
  by (simp add: trim_space_def trim_left_of_def)

text \<open>
  \<^verbatim>\<open>strings.ToLower\<close>. Besides the ASCII capitals, the Kelvin sign (E2 84 AA) and the
  dotted capital I (C4 B0) are the code points whose lower case is an ASCII letter. The
  sources only compare lowered strings with ASCII words, and no other code point lowers
  to an ASCII letter, so every other byte is left as it is.
\<close>

definition lower_byte :: "char \<Rightarrow> char" where
  "lower_byte c = (let n = of_char c :: nat in
     if 65 \<le> n \<and> n \<le> 90 then char_of (n + 32) else c)"

fun to_lower :: "string \<Rightarrow> string" where
  "to_lower [] = []"
| "to_lower (c # s) =
     (if has_prefix (bytes [0xC4, 0xB0]) (c # s) then CHR ''i'' # to_lower (drop 1 s)
      else if has_prefix (bytes [0xE2, 0x84, 0xAA]) (c # s) then CHR ''k'' # to_lower (drop 2 s)
      else lower_byte c # to_lower s)"

lemma to_lower_Nil_iff [simp]: "to_lower s = [] \<longleftrightarrow> s = []"
  by (cases s) auto

subsection \<open>Decimal numbers\<close>

definition digit_char :: "nat \<Rightarrow> char" where
  "digit_char n = char_of (48 + n)"

definition is_digit :: "char \<Rightarrow> bool" where
  "is_digit c \<longleftrightarrow> 48 \<le> (of_char c :: nat) \<and> (of_char c :: nat) \<le> 57"

definition digit_val :: "char \<Rightarrow> int" where
  "digit_val c = of_char c - 48"

text \<open>The low-order \<open>n\<close> decimal digits of a number, most significant first.\<close>

fun digits :: "nat \<Rightarrow> int \<Rightarrow> string" where
  "digits 0 x = []"
| "digits (Suc n) x = digits n (x div 10) @ [digit_char (nat (x mod 10))]"

text \<open>The value of a digit string; \<open>None\<close> when a byte is not a digit.\<close>

fun undigits :: "int \<Rightarrow> string \<Rightarrow> int option" where
  "undigits acc [] = Some acc"
| "undigits acc (c # s) = (if is_digit c then undigits (acc * 10 + digit_val c) s else None)"

lemma of_char_digit_char: "n < 10 \<Longrightarrow> (of_char (digit_char n) :: nat) = 48 + n"
  by (simp add: digit_char_def)

lemma is_digit_digit_char [simp]: "n < 10 \<Longrightarrow> is_digit (digit_char n)"
  by (simp add: is_digit_def of_char_digit_char)

lemma digit_val_digit_char [simp]: "n < 10 \<Longrightarrow> digit_val (digit_char n) = int n"
proof -
  assume "n < 10"
  then have "(of_char (digit_char n) :: nat) = 48 + n" by (rule of_char_digit_char)
  then have "(of_char (digit_char n) :: int) = 48 + int n"
    by (metis of_nat_add of_nat_numeral of_nat_of_char)
  then show ?thesis by (simp add: digit_val_def)
qed

text \<open>Digits by table lookup, for evaluation.\<close>

definition decimal_chars :: string where
  "decimal_chars = ''0123456789''"

lemma decimal_chars_nth: "n < 10 \<Longrightarrow> decimal_chars ! n = char_of (48 + n)"
proof -
  assume "n < 10"
  then have "n \<in> set [0..<10]" by simp
  moreover have "list_all (\<lambda>n. decimal_chars ! n = char_of (48 + n)) [0..<10]" by code_simp
  ultimately show ?thesis by (simp add: list_all_iff)
qed

lemma decimal_chars_len: "length decimal_chars = 10"
  by (simp add: decimal_chars_def)

lemma is_digit_eval [code]: "is_digit c \<longleftrightarrow> c \<in> set decimal_chars"
proof -
  have "is_digit c \<longleftrightarrow> (\<exists>n<10. c = char_of (48 + n :: nat))"
  proof
    assume "is_digit c"
    then have "of_char c - 48 < (10 :: nat)" "c = char_of (48 + (of_char c - 48 :: nat))" by (auto simp: is_digit_def)
    then show "\<exists>n<10. c = char_of (48 + n :: nat)" by blast
  next
    assume "\<exists>n<10. c = char_of (48 + n :: nat)"
    then show "is_digit c" by (auto simp: is_digit_def)
  qed
  also have "\<dots> \<longleftrightarrow> (\<exists>n<length decimal_chars. decimal_chars ! n = c)"
    by (metis decimal_chars_nth decimal_chars_len)
  also have "\<dots> \<longleftrightarrow> c \<in> set decimal_chars" by (auto simp: in_set_conv_nth)
  finally show ?thesis .
qed

fun index_of :: "char \<Rightarrow> int \<Rightarrow> string \<Rightarrow> int option" where
  "index_of c n [] = None"
| "index_of c n (x # xs) = (if x = c then Some n else index_of c (n + 1) xs)"

fun or_byte :: "char \<Rightarrow> int option \<Rightarrow> int" where
  "or_byte c (Some n) = n"
| "or_byte c None = of_char c - 48"

lemma index_of_some: "index_of c n xs = Some k \<Longrightarrow> \<exists>i<length xs. xs ! i = c \<and> k = n + int i"
proof (induction xs arbitrary: n)
  case (Cons x xs)
  show ?case
  proof (cases "x = c")
    case True
    then show ?thesis using Cons by (intro exI [of _ 0]) auto
  next
    case False
    with Cons obtain i where "i < length xs" "xs ! i = c" "k = n + 1 + int i" by force
    then show ?thesis by (intro exI [of _ "Suc i"]) auto
  qed
qed simp

lemma digit_val_eval [code]: "digit_val c = or_byte c (index_of c 0 decimal_chars)"
proof (cases "index_of c 0 decimal_chars")
  case (Some k)
  then obtain i where i: "i < length decimal_chars" "decimal_chars ! i = c" "k = int i"
    using index_of_some by fastforce
  then have "c = digit_char i" "i < 10" using decimal_chars_nth [of i] by (auto simp: decimal_chars_def digit_char_def)
  then show ?thesis using Some i by simp
qed (simp add: digit_val_def)

lemma digit_char_eval [code]: "digit_char n = (if n < 10 then decimal_chars ! n else char_of (48 + n))"
  by (simp add: digit_char_def decimal_chars_nth)

lemma length_digits [simp]: "length (digits n x) = n"
  by (induction n arbitrary: x) auto

lemma all_digits: "c \<in> set (digits n x) \<Longrightarrow> is_digit c"
proof (induction n arbitrary: x)
  case (Suc n)
  have "nat (x mod 10) < 10" by linarith
  then have "is_digit (digit_char (nat (x mod 10)))" by simp
  with Suc show ?case by auto
qed simp

lemma undigits_append:
  "undigits acc (s @ t) = (case undigits acc s of None \<Rightarrow> None | Some a \<Rightarrow> undigits a t)"
  by (induction s arbitrary: acc) auto

lemma undigits_digits:
  "0 \<le> x \<Longrightarrow> x < 10 ^ n \<Longrightarrow> undigits acc (digits n x) = Some (acc * 10 ^ n + x)"
proof (induction n arbitrary: x acc)
  case (Suc n)
  have "x div 10 < 10 ^ n" using Suc.prems by auto
  then have IH: "undigits acc (digits n (x div 10)) = Some (acc * 10 ^ n + x div 10)"
    using Suc by simp
  have "nat (x mod 10) < 10" by linarith
  then show ?case using IH by (simp add: undigits_append algebra_simps)
qed simp

end
