(* ===== verification/GoTime.thy ===== *)
theory GoTime
  imports Prelude "HOL-Library.Monad_Syntax"
begin

text \<open>
  Go's \<^verbatim>\<open>time\<close> package, as far as the sources use it: instants as nanoseconds since
  the Unix epoch, the proleptic Gregorian calendar behind \<^verbatim>\<open>Time.Date\<close> and
  \<^verbatim>\<open>time.Date\<close>, locations, \<^verbatim>\<open>AddDate\<close>, and the \<^verbatim>\<open>RFC3339Nano\<close> layout in both
  directions. \<^verbatim>\<open>time.Parse\<close> is modelled on the general layout parser, which accepts
  what the fast path accepts and a little more (a one-digit hour, a comma before the
  fraction, an offset of 24 hours or 60 minutes).

  The lemmas show that the calendar functions are inverse to each other and that
  parsing a formatted instant gives it back.
\<close>

type_synonym instant = int
type_synonym duration = int

abbreviation secs :: "int \<Rightarrow> duration" where
  "secs n \<equiv> n * 1000000000"

abbreviation millis :: "int \<Rightarrow> duration" where
  "millis n \<equiv> n * 1000000"

text \<open>\<^verbatim>\<open>time.Time{}\<close>: midnight of January 1 of the year 1, UTC.\<close>

definition zero_time :: instant where
  "zero_time = -62135596800000000000"

subsection \<open>The calendar\<close>

definition leap :: "int \<Rightarrow> bool" where
  "leap y \<longleftrightarrow> y mod 4 = 0 \<and> (y mod 100 \<noteq> 0 \<or> y mod 400 = 0)"

text \<open>Days from 0001-01-01 to January 1 of the year.\<close>

definition days_before_year :: "int \<Rightarrow> int" where
  "days_before_year y = 365 * (y - 1) + (y - 1) div 4 - (y - 1) div 100 + (y - 1) div 400"

definition leap_day :: "int \<Rightarrow> int" where
  "leap_day y = (if leap y then 1 else 0)"

definition days_before_month :: "int \<Rightarrow> int \<Rightarrow> int" where
  "days_before_month y m =
     (if m \<le> 1 then 0 else if m = 2 then 31 else leap_day y +
      (if m = 3 then 59 else if m = 4 then 90 else if m = 5 then 120 else if m = 6 then 151
       else if m = 7 then 181 else if m = 8 then 212 else if m = 9 then 243
       else if m = 10 then 273 else if m = 11 then 304 else if m = 12 then 334 else 365))"

definition days_in :: "int \<Rightarrow> int \<Rightarrow> int" where
  "days_in y m = (if m = 2 then 28 + leap_day y
     else if m = 4 \<or> m = 6 \<or> m = 9 \<or> m = 11 then 30 else 31)"

definition valid_date :: "int \<Rightarrow> int \<Rightarrow> int \<Rightarrow> bool" where
  "valid_date y m d \<longleftrightarrow> 1 \<le> m \<and> m \<le> 12 \<and> 1 \<le> d \<and> d \<le> days_in y m"

text \<open>Days from the Unix epoch; the day of the month may lie outside the month.\<close>

definition day_number :: "int \<Rightarrow> int \<Rightarrow> int \<Rightarrow> int" where
  "day_number y m d = days_before_year y + days_before_month y m + d - 1 - 719162"

definition year_of_day :: "int \<Rightarrow> int" where
  "year_of_day n =
     (let a = n div 146097; r = n mod 146097;
          b0 = r div 36524; b = b0 - b0 div 4; r1 = r - 36524 * b;
          c = r1 div 1461; r2 = r1 mod 1461;
          e0 = r2 div 365; e = e0 - e0 div 4
      in 400 * a + 100 * b + 4 * c + e + 1)"

definition month_of_yday :: "int \<Rightarrow> int \<Rightarrow> int" where
  "month_of_yday y k = (let l = leap_day y in
     if k < 31 then 1 else if k < 59 + l then 2 else if k < 90 + l then 3
     else if k < 120 + l then 4 else if k < 151 + l then 5 else if k < 181 + l then 6
     else if k < 212 + l then 7 else if k < 243 + l then 8 else if k < 273 + l then 9
     else if k < 304 + l then 10 else if k < 334 + l then 11 else 12)"

definition civil :: "int \<Rightarrow> int \<times> int \<times> int" where
  "civil n = (let k = n + 719162; y = year_of_day k; yd = k - days_before_year y;
                  m = month_of_yday y yd
              in (y, m, yd - days_before_month y m + 1))"

lemma leap_day_cases: "leap_day y = 0 \<or> leap_day y = 1"
  by (simp add: leap_day_def)

lemma days_before_year_split:
  assumes "0 \<le> b" "b \<le> 3" "0 \<le> c" "c \<le> 24" "0 \<le> e" "e \<le> 3"
  shows "days_before_year (400 * a + 100 * b + 4 * c + e + 1) =
           146097 * a + 36524 * b + 1461 * c + 365 * e"
proof -
  let ?x = "400 * a + 100 * b + 4 * c + e"
  have "?x div 4 = 100 * a + 25 * b + c" using assms by (intro int_div_pos_eq [of _ _ _ e]) auto
  moreover have "?x div 100 = 4 * a + b"
    using assms by (intro int_div_pos_eq [of _ _ _ "4 * c + e"]) auto
  moreover have "?x div 400 = a"
    using assms by (intro int_div_pos_eq [of _ _ _ "100 * b + 4 * c + e"]) auto
  ultimately show ?thesis by (simp add: days_before_year_def)
qed

lemma div_pred:
  assumes "0 < k"
  shows "(y::int) div k = (y - 1) div k + (if y mod k = 0 then 1 else 0)"
proof -
  define q r where "q = y div k" and "r = y mod k"
  have y: "k * q + r = y" and r: "0 \<le> r" "r < k" using assms by (simp_all add: q_def r_def)
  have "(y - 1) div k = (if r = 0 then q - 1 else q)"
  proof (cases "r = 0")
    case True
    have "k * (q - 1) + (k - 1) = y - 1" using y True by (simp add: right_diff_distrib)
    then show ?thesis using True assms int_div_pos_eq [of "y - 1" k "q - 1" "k - 1"] by simp
  next
    case False
    have "k * q + (r - 1) = y - 1" using y by simp
    then show ?thesis using False r int_div_pos_eq [of "y - 1" k q "r - 1"] by simp
  qed
  then show ?thesis by (simp add: q_def r_def)
qed

lemma days_before_year_Suc: "days_before_year (y + 1) = days_before_year y + 365 + leap_day y"
proof -
  define A B C where "A = (y - 1) div 4" and "B = (y - 1) div 100" and "C = (y - 1) div 400"
  define p q r where "p \<longleftrightarrow> y mod 4 = 0" and "q \<longleftrightarrow> y mod 100 = 0" and "r \<longleftrightarrow> y mod 400 = 0"
  have imp: "q \<Longrightarrow> p" "r \<Longrightarrow> q"
    using dvd_trans [of 4 100 y] dvd_trans [of 100 400 y]
    by (simp_all add: p_def q_def r_def mod_eq_0_iff_dvd)
  have d: "y div 4 = A + (if p then 1 else 0)" "y div 100 = B + (if q then 1 else 0)"
    "y div 400 = C + (if r then 1 else 0)"
    unfolding A_def B_def C_def p_def q_def r_def by (rule div_pred, simp)+
  have "days_before_year (y + 1) = 365 * y + y div 4 - y div 100 + y div 400"
    unfolding days_before_year_def by simp
  moreover have "days_before_year y = 365 * (y - 1) + A - B + C"
    unfolding days_before_year_def A_def B_def C_def by (rule refl)
  moreover have "leap_day y = (if p \<and> (\<not> q \<or> r) then 1 else 0)"
    unfolding leap_day_def leap_def p_def q_def r_def by (rule refl)
  ultimately show ?thesis unfolding d using imp by (cases p; cases q; cases r) simp_all
qed

lemma days_before_year_mono: "x \<le> y \<Longrightarrow> days_before_year x \<le> days_before_year y"
proof (induction "nat (y - x)" arbitrary: y)
  case 0
  then show ?case by simp
next
  case (Suc n)
  then have "days_before_year x \<le> days_before_year (y - 1)" by (intro Suc.hyps(1)) auto
  with days_before_year_Suc [of "y - 1"] leap_day_cases [of "y - 1"] show ?case by auto
qed

lemma int_div_bounds: "0 < k \<Longrightarrow> k * (x div k) \<le> x \<and> x < k * (x div k) + (k::int)"
  using mult_div_mod_eq [of k x] pos_mod_bound [of k x] pos_mod_sign [of k x] by linarith

text \<open>
  The digits of a quotient that may reach 4 in the last cycle: \<open>x - x div 4\<close> cuts 4
  back to 3.
\<close>

lemma cut_four:
  assumes "0 \<le> x" "x \<le> (4::int)"
  shows "x - x div 4 = (if x = 4 then 3 else x)"
proof (cases "x = 4")
  case False
  with assms have "x div 4 = 0" by simp
  with False show ?thesis by simp
qed simp

lemma cut_digit:
  assumes k: "0 < k" and r: "0 \<le> r" "r \<le> 4 * k"
  shows "\<exists>b. r div k - r div k div 4 = b \<and> 0 \<le> b \<and> b \<le> 3 \<and> k * b \<le> r \<and>
           (r < k * b + k \<or> b = 3 \<and> r = (4::int) * k)"
proof -
  define x where "x = r div k"
  have x: "k * x \<le> r" "r < k * x + k"
    using int_div_bounds [OF k, of r] by (simp_all add: x_def)
  have "0 \<le> x" using k r by (simp add: x_def pos_imp_zdiv_nonneg_iff)
  moreover have "x \<le> 4"
  proof (rule ccontr)
    assume "\<not> x \<le> 4"
    then have "k * 5 \<le> k * x" using k by (intro mult_left_mono) auto
    with x r k show False by linarith
  qed
  ultimately have "x - x div 4 = (if x = 4 then 3 else x)" by (rule cut_four)
  with x r k \<open>0 \<le> x\<close> \<open>x \<le> 4\<close> show ?thesis
    by (intro exI [of _ "if x = 4 then 3 else x"]) (auto simp: x_def)
qed

lemma leap_split:
  assumes "0 \<le> c" "c \<le> 24" "c = 24 \<Longrightarrow> b = 3"
  shows "leap (400 * a + 100 * b + 4 * c + 4)"
proof -
  let ?y = "400 * a + 100 * b + 4 * c + 4"
  have "?y = 4 * (100 * a + 25 * b + c + 1)" by simp
  then have "?y mod 4 = 0" by (metis mod_mult_self1_is_0)
  moreover have "?y mod 100 \<noteq> 0 \<or> ?y mod 400 = 0"
  proof (cases "c = 24")
    case True
    with assms have "?y = 400 * (a + 1)" by simp
    then have "?y mod 400 = 0" by (metis mod_mult_self1_is_0)
    then show ?thesis ..
  next
    case False
    have "?y = (4 * c + 4) + 100 * (4 * a + b)" by simp
    then have "?y mod 100 = (4 * c + 4) mod 100" by (metis mod_mult_self2)
    with False assms show ?thesis by simp
  qed
  ultimately show ?thesis by (simp add: leap_def)
qed

lemma year_of_day_bounds:
  "days_before_year (year_of_day n) \<le> n \<and> n < days_before_year (year_of_day n + 1)"
proof -
  define a r where "a = n div 146097" and "r = n mod 146097"
  have n: "146097 * a + r = n" "0 \<le> r" "r < 146097"
    unfolding a_def r_def by (rule mult_div_mod_eq, simp_all)
  obtain b where b: "r div 36524 - r div 36524 div 4 = b" "0 \<le> b" "b \<le> 3" "36524 * b \<le> r"
    "r < 36524 * b + 36524 \<or> b = 3 \<and> r = 4 * 36524"
    using cut_digit [of 36524 r] n by auto
  define r1 c r2 where "r1 = r - 36524 * b" and "c = r1 div 1461" and "r2 = r1 mod 1461"
  have r1: "0 \<le> r1" "r1 < 36524 \<or> b = 3 \<and> r1 = 36524" using b by (auto simp: r1_def)
  have r2: "1461 * c + r2 = r1" "0 \<le> r2" "r2 < 1461"
    unfolding c_def r2_def by (rule mult_div_mod_eq, simp_all)
  have c: "0 \<le> c" "c \<le> 24" using r1 r2 by linarith+
  obtain e where e: "r2 div 365 - r2 div 365 div 4 = e" "0 \<le> e" "e \<le> 3" "365 * e \<le> r2"
    "r2 < 365 * e + 365 \<or> e = 3 \<and> r2 = 4 * 365"
    using cut_digit [of 365 r2] r2 by auto
  have y: "year_of_day n = 400 * a + 100 * b + 4 * c + e + 1"
    unfolding year_of_day_def Let_def
    unfolding a_def [symmetric] r_def [symmetric] b(1) r1_def [symmetric]
      c_def [symmetric] r2_def [symmetric] e(1) ..
  have D: "days_before_year (year_of_day n) = 146097 * a + 36524 * b + 1461 * c + 365 * e"
    unfolding y using b c e by (intro days_before_year_split)
  have N: "n = 146097 * a + 36524 * b + 1461 * c + r2" using n r1_def r2(1) by linarith
  have up: "r2 < 365 * e + 365 + leap_day (year_of_day n)"
    using e(5)
  proof
    assume "r2 < 365 * e + 365"
    with leap_day_cases [of "year_of_day n"] show ?thesis by linarith
  next
    assume e3: "e = 3 \<and> r2 = 4 * 365"
    have "c = 24 \<Longrightarrow> b = 3" using r1 r2(1) e3 by linarith
    then have "leap (400 * a + 100 * b + 4 * c + 4)" by (rule leap_split [OF c])
    moreover have "year_of_day n = 400 * a + 100 * b + 4 * c + 4" using y e3 by linarith
    ultimately have "leap (year_of_day n)" by simp
    with e3 show ?thesis by (simp add: leap_day_def)
  qed
  show ?thesis using D e(4) up N days_before_year_Suc [of "year_of_day n"] by linarith
qed

lemma year_of_day_unique:
  assumes "days_before_year y \<le> n" "n < days_before_year (y + 1)"
  shows "year_of_day n = y"
proof (rule antisym)
  have B: "days_before_year (year_of_day n) \<le> n" "n < days_before_year (year_of_day n + 1)"
    using year_of_day_bounds [of n] by auto
  show "year_of_day n \<le> y"
    using B assms days_before_year_mono [of "y + 1" "year_of_day n"] by linarith
  show "y \<le> year_of_day n"
    using B assms days_before_year_mono [of "year_of_day n + 1" y] by linarith
qed

lemma month_cases:
  "1 \<le> (m::int) \<Longrightarrow> m \<le> 12 \<Longrightarrow>
     m = 1 \<or> m = 2 \<or> m = 3 \<or> m = 4 \<or> m = 5 \<or> m = 6 \<or> m = 7 \<or> m = 8 \<or> m = 9 \<or> m = 10 \<or> m = 11 \<or> m = 12"
  by presburger

lemma days_before_month_Suc:
  "1 \<le> m \<Longrightarrow> m \<le> 12 \<Longrightarrow> days_before_month y (m + 1) = days_before_month y m + days_in y m"
  using month_cases [of m] by (auto simp: days_before_month_def days_in_def)

lemma days_before_month_nonneg: "0 \<le> days_before_month y m"
  by (simp add: days_before_month_def leap_day_def)

lemma days_before_month_upper: "days_before_month y m \<le> 365 + leap_day y"
  by (simp add: days_before_month_def leap_day_def)

lemma month_of_yday_range: "1 \<le> month_of_yday y k \<and> month_of_yday y k \<le> 12"
  by (simp add: month_of_yday_def Let_def)

lemma month_of_yday_bounds:
  assumes "0 \<le> k" "k < 365 + leap_day y"
  shows "days_before_month y (month_of_yday y k) \<le> k \<and>
         k < days_before_month y (month_of_yday y k + 1)"
proof -
  let ?l = "leap_day y"
  have l: "0 \<le> ?l" "?l \<le> 1" by (simp_all add: leap_day_def)
  consider "k < 31" | "31 \<le> k" "k < 59 + ?l" | "59 + ?l \<le> k" "k < 90 + ?l"
    | "90 + ?l \<le> k" "k < 120 + ?l" | "120 + ?l \<le> k" "k < 151 + ?l"
    | "151 + ?l \<le> k" "k < 181 + ?l" | "181 + ?l \<le> k" "k < 212 + ?l"
    | "212 + ?l \<le> k" "k < 243 + ?l" | "243 + ?l \<le> k" "k < 273 + ?l"
    | "273 + ?l \<le> k" "k < 304 + ?l" | "304 + ?l \<le> k" "k < 334 + ?l" | "334 + ?l \<le> k"
    by linarith
  then show ?thesis
    using assms l by cases (simp_all add: month_of_yday_def days_before_month_def)
qed

lemma month_of_yday_unique:
  assumes "1 \<le> m" "m \<le> 12" "days_before_month y m \<le> k" "k < days_before_month y (m + 1)"
  shows "month_of_yday y k = m"
  using month_cases [OF assms(1,2)] assms(3,4) leap_day_cases [of y]
  by (elim disjE) (simp_all add: month_of_yday_def days_before_month_def)

lemma civil_valid:
  assumes "civil n = (y, m, d)"
  shows "valid_date y m d \<and> day_number y m d = n"
proof -
  define k where "k = n + 719162"
  define yd where "yd = k - days_before_year (year_of_day k)"
  have y: "y = year_of_day k" and m: "m = month_of_yday y yd"
    and d: "d = yd - days_before_month y m + 1"
    using assms by (auto simp: civil_def Let_def k_def yd_def)
  have yd: "0 \<le> yd" "yd < 365 + leap_day y"
    using year_of_day_bounds [of k] days_before_year_Suc [of y] by (auto simp: yd_def y)
  have M: "1 \<le> m" "m \<le> 12" "days_before_month y m \<le> yd" "yd < days_before_month y (m + 1)"
    using month_of_yday_bounds [OF yd] month_of_yday_range [of y yd] by (simp_all add: m)
  with days_before_month_Suc [of m y] have "d \<le> days_in y m" by (simp add: d)
  with M have "valid_date y m d" by (simp add: valid_date_def d)
  moreover have "day_number y m d = n"
    by (simp add: day_number_def d yd_def k_def y)
  ultimately show ?thesis by simp
qed

lemma civil_day_number:
  assumes "valid_date y m d"
  shows "civil (day_number y m d) = (y, m, d)"
proof -
  let ?k = "days_before_year y + days_before_month y m + d - 1"
  from assms have m: "1 \<le> m" "m \<le> 12" and d: "1 \<le> d" "d \<le> days_in y m"
    by (auto simp: valid_date_def)
  have lo: "0 \<le> days_before_month y m" by (rule days_before_month_nonneg)
  have hi: "days_before_month y m + d - 1 < 365 + leap_day y"
    using days_before_month_upper [of y "m + 1"] d days_before_month_Suc [OF m, of y] by simp
  have Y: "year_of_day ?k = y"
    using lo hi d days_before_year_Suc [of y] by (intro year_of_day_unique) auto
  have M: "month_of_yday y (days_before_month y m + d - 1) = m"
    using m d days_before_month_Suc [OF m, of y] by (intro month_of_yday_unique) auto
  have K: "day_number y m d + 719162 = ?k" by (simp add: day_number_def)
  have yd: "?k - days_before_year y = days_before_month y m + d - 1" by simp
  show ?thesis unfolding civil_def Let_def K Y yd M by simp
qed

subsection \<open>Locations and time.Date\<close>

text \<open>
  A location answers, for a Unix time in seconds, the offset in force and the interval
  in which it holds (\<^verbatim>\<open>Location.lookup\<close>). The time zone database is not part of the
  sources, so a location is an argument of the definitions that use one.
\<close>

type_synonym location = "int \<Rightarrow> int \<times> int \<times> int"

definition fixed_zone :: "int \<Rightarrow> location" where
  "fixed_zone off = (\<lambda>_. (off, min_i64, max_i64))"

abbreviation utc :: location where
  "utc \<equiv> fixed_zone 0"

definition unix_of :: "instant \<Rightarrow> int" where
  "unix_of t = t div 1000000000"

definition nsec_of :: "instant \<Rightarrow> int" where
  "nsec_of t = t mod 1000000000"

definition local_secs :: "location \<Rightarrow> instant \<Rightarrow> int" where
  "local_secs loc t = unix_of t + fst (loc (unix_of t))"

definition date_in :: "location \<Rightarrow> instant \<Rightarrow> int \<times> int \<times> int" where
  "date_in loc t = civil (local_secs loc t div 86400)"

definition clock_in :: "location \<Rightarrow> instant \<Rightarrow> int" where
  "clock_in loc t = local_secs loc t mod 86400"

text \<open>
  \<^verbatim>\<open>time.Date\<close> normalises a month outside 1..12 into the year and lets the day and the
  clock carry. The offset is looked up at the local reading first, and again at the
  resulting instant when that one lies outside the interval found.
\<close>

definition go_date :: "int \<Rightarrow> int \<Rightarrow> int \<Rightarrow> int \<Rightarrow> int \<Rightarrow> location \<Rightarrow> instant" where
  "go_date y mo d sec ns loc =
     (let y' = y + (mo - 1) div 12; m' = (mo - 1) mod 12 + 1;
          u = day_number y' m' d * 86400 + sec;
          (off, st, en) = loc u;
          unix = (if off = 0 then u
                  else let v = u - off in
                       if v < st \<or> en \<le> v then u - fst (loc v) else v)
      in unix * 1000000000 + ns)"

definition add_date :: "location \<Rightarrow> instant \<Rightarrow> int \<Rightarrow> int \<Rightarrow> int \<Rightarrow> instant" where
  "add_date loc t years months days =
     (case date_in loc t of (y, m, d) \<Rightarrow>
        go_date (y + years) (m + months) (d + days) (clock_in loc t) (nsec_of t) loc)"

lemma local_secs_fixed [simp]: "local_secs (fixed_zone off) t = unix_of t + off"
  by (simp add: local_secs_def fixed_zone_def)

lemma go_date_fixed:
  assumes "min_i64 \<le> day_number (y + (mo - 1) div 12) ((mo - 1) mod 12 + 1) d * 86400 + sec - off"
    and "day_number (y + (mo - 1) div 12) ((mo - 1) mod 12 + 1) d * 86400 + sec - off < max_i64"
  shows "go_date y mo d sec ns (fixed_zone off) =
    (day_number (y + (mo - 1) div 12) ((mo - 1) mod 12 + 1) d * 86400 + sec - off) * 1000000000 + ns"
  using assms by (simp add: go_date_def fixed_zone_def Let_def)

lemma nsec_of_bounds: "0 \<le> nsec_of t" "nsec_of t < 1000000000"
  by (simp_all add: nsec_of_def)

lemma unix_nsec: "unix_of t * 1000000000 + nsec_of t = t"
  by (simp add: unix_of_def nsec_of_def)

subsection \<open>RFC3339\<close>

fun ndigits :: "nat \<Rightarrow> nat" where
  "ndigits n = (if n < 10 then 1 else Suc (ndigits (n div 10)))"

declare ndigits.simps [simp del]

text \<open>Go's \<^verbatim>\<open>appendInt\<close>: at least \<open>w\<close> digits, a sign in front of a negative number.\<close>

definition append_int :: "int \<Rightarrow> nat \<Rightarrow> string" where
  "append_int x w =
     (if x < 0 then CHR ''-'' # digits (max w (ndigits (nat (- x)))) (- x)
      else digits (max w (ndigits (nat x))) x)"

definition format_int :: "int \<Rightarrow> string" where
  "format_int x = append_int x 1"

definition format_frac :: "int \<Rightarrow> string" where
  "format_frac ns = (if ns = 0 then []
     else CHR ''.'' # rev (dropWhile (\<lambda>c. c = CHR ''0'') (rev (digits 9 ns))))"

definition format_date :: "int \<times> int \<times> int \<Rightarrow> string" where
  "format_date ymd = (case ymd of (y, m, d) \<Rightarrow>
     append_int y 4 @ CHR ''-'' # digits 2 m @ CHR ''-'' # digits 2 d)"

definition format_clock :: "int \<Rightarrow> string" where
  "format_clock c = digits 2 (c div 3600) @ CHR '':'' # digits 2 (c div 60 mod 60)
     @ CHR '':'' # digits 2 (c mod 60)"

text \<open>\<^verbatim>\<open>t.UTC().Format(time.RFC3339Nano)\<close>\<close>

definition format_rfc3339 :: "instant \<Rightarrow> string" where
  "format_rfc3339 t = format_date (date_in utc t) @ CHR ''T'' # format_clock (clock_in utc t)
     @ format_frac (nsec_of t) @ ''Z''"

fun getnum :: "bool \<Rightarrow> string \<Rightarrow> (int \<times> string) option" where
  "getnum fixed [] = None"
| "getnum fixed [a] = (if is_digit a \<and> \<not> fixed then Some (digit_val a, []) else None)"
| "getnum fixed (a # b # s) =
     (if \<not> is_digit a then None
      else if is_digit b then Some (digit_val a * 10 + digit_val b, s)
      else if fixed then None else Some (digit_val a, b # s))"

fun skip_char :: "char \<Rightarrow> string \<Rightarrow> string option" where
  "skip_char c [] = None"
| "skip_char c (x # s) = (if x = c then Some s else None)"

definition guard_opt :: "bool \<Rightarrow> unit option" where
  "guard_opt b = (if b then Some () else None)"

definition parse_year :: "string \<Rightarrow> (int \<times> string) option" where
  "parse_year s = (if length s < 4 then None
     else do { y \<leftarrow> undigits 0 (take 4 s); Some (y, drop 4 s) })"

definition parse_frac :: "string \<Rightarrow> int \<times> string" where
  "parse_frac s =
     (case s of
        c # d # _ \<Rightarrow>
          if (c = CHR ''.'' \<or> c = CHR '','') \<and> is_digit d
          then let ds = takeWhile is_digit (tl s); n = min 9 (length ds) in
            (case undigits 0 (take 9 ds) of
               Some v \<Rightarrow> (v * 10 ^ (9 - n), drop (Suc (length ds)) s)
             | None \<Rightarrow> (0, s))
          else (0, s)
      | _ \<Rightarrow> (0, s))"

definition parse_zone :: "string \<Rightarrow> (int \<times> string) option" where
  "parse_zone s =
     (case s of [] \<Rightarrow> None
      | c # s' \<Rightarrow>
          if c = CHR ''Z'' then Some (0, s')
          else if length s < 6 \<or> s ! 3 \<noteq> CHR '':'' then None
          else do {
            (hr, _) \<leftarrow> getnum True (take 2 (drop 1 s));
            (mm, _) \<leftarrow> getnum True (take 2 (drop 4 s));
            guard_opt (hr \<le> 24 \<and> mm \<le> 60);
            (if c = CHR ''+'' then Some ((hr * 60 + mm) * 60, drop 6 s)
             else if c = CHR ''-'' then Some (- ((hr * 60 + mm) * 60), drop 6 s)
             else None)
          })"

text \<open>\<^verbatim>\<open>time.Parse(time.RFC3339Nano, s)\<close>; \<open>None\<close> is the error.\<close>

definition parse_rfc3339 :: "string \<Rightarrow> instant option" where
  "parse_rfc3339 s = do {
     (y, s) \<leftarrow> parse_year s;
     s \<leftarrow> skip_char CHR ''-'' s;
     (m, s) \<leftarrow> getnum True s;
     guard_opt (1 \<le> m \<and> m \<le> 12);
     s \<leftarrow> skip_char CHR ''-'' s;
     (d, s) \<leftarrow> getnum True s;
     s \<leftarrow> skip_char CHR ''T'' s;
     (h, s) \<leftarrow> getnum False s;
     guard_opt (h < 24);
     s \<leftarrow> skip_char CHR '':'' s;
     (mi, s) \<leftarrow> getnum True s;
     guard_opt (mi < 60);
     s \<leftarrow> skip_char CHR '':'' s;
     (sec, s) \<leftarrow> getnum True s;
     guard_opt (sec < 60);
     let (ns, s) = parse_frac s;
     (off, s) \<leftarrow> parse_zone s;
     guard_opt (s = []);
     guard_opt (1 \<le> d \<and> d \<le> days_in y m);
     Some ((day_number y m d * 86400 + h * 3600 + mi * 60 + sec - off) * 1000000000 + ns)
   }"

lemma digits_2: "digits 2 x = [digit_char (nat (x div 10 mod 10)), digit_char (nat (x mod 10))]"
  by (simp add: numeral_2_eq_2)

lemma getnum_digits [simp]:
  assumes "0 \<le> x" "x < 100"
  shows "getnum fixed (digits 2 x @ s) = Some (x, s)"
proof -
  have "nat (x div 10 mod 10) < 10" "nat (x mod 10) < 10" by linarith+
  moreover have "x div 10 mod 10 = x div 10" "0 \<le> x div 10" using assms by simp_all
  ultimately show ?thesis by (simp add: digits_2)
qed

lemma guard_opt_True [simp]: "guard_opt True = Some ()"
  by (simp add: guard_opt_def)

lemma parse_year_append:
  assumes "0 \<le> y" "y < 10000"
  shows "parse_year (append_int y 4 @ s) = Some (y, s)"
proof -
  have "ndigits (nat y) \<le> 4"
    using assms by (simp add: ndigits.simps [of "nat y"] ndigits.simps [of "nat y div 10"]
      ndigits.simps [of "nat y div 10 div 10"] ndigits.simps [of "nat y div 10 div 10 div 10"])
  then have "append_int y 4 = digits 4 y" using assms by (simp add: append_int_def max_def)
  then show ?thesis using undigits_digits [of y 4 0] assms by (simp add: parse_year_def)
qed

text \<open>The fraction: trailing zeros are dropped when it is printed and restored when it is read.\<close>

lemma undigits_zeros: "undigits acc (replicate k CHR ''0'') = Some (acc * 10 ^ k)"
  by (induction k arbitrary: acc) (auto simp: is_digit_def digit_val_def algebra_simps)

lemma strip_zeros:
  obtains k where "s = rev (dropWhile (\<lambda>c. c = z) (rev s)) @ replicate k z"
proof -
  have "rev s = takeWhile (\<lambda>c. c = z) (rev s) @ dropWhile (\<lambda>c. c = z) (rev s)" by simp
  moreover have "takeWhile (\<lambda>c. c = z) (rev s) = replicate (length (takeWhile (\<lambda>c. c = z) (rev s))) z"
    by (rule replicate_eqI [THEN sym, symmetric]) (auto dest: set_takeWhileD)
  ultimately have "s = rev (dropWhile (\<lambda>c. c = z) (rev s)) @
      rev (replicate (length (takeWhile (\<lambda>c. c = z) (rev s))) z)"
    by (metis rev_append rev_rev_ident)
  then show ?thesis using that by (simp add: rev_replicate)
qed

lemma parse_frac_format:
  assumes "0 \<le> ns" "ns < 1000000000"
  shows "parse_frac (format_frac ns @ ''Z'') = (ns, ''Z'')"
proof (cases "ns = 0")
  case True
  then show ?thesis by (simp add: format_frac_def parse_frac_def)
next
  case False
  define st where "st = rev (dropWhile (\<lambda>c. c = CHR ''0'') (rev (digits 9 ns)))"
  obtain k where k: "digits 9 ns = st @ replicate k CHR ''0''"
    using strip_zeros [of "digits 9 ns" "CHR ''0''"] st_def by metis
  have len: "length st + k = 9" using arg_cong [OF k, of length] by simp
  have st_digits: "\<forall>c \<in> set st. is_digit c" using all_digits [of _ 9 ns] k by auto
  have "undigits 0 (digits 9 ns) = Some ns" using assms undigits_digits [of ns 9 0] by simp
  then obtain a where a: "undigits 0 st = Some a" "a * 10 ^ k = ns"
    unfolding k by (auto simp: undigits_append undigits_zeros split: option.splits)
  have "st \<noteq> []" using a False by auto
  then obtain d ds where st: "st = d # ds" by (cases st) auto
  have tw: "takeWhile is_digit (st @ ''Z'') = st"
    using st_digits by (simp add: takeWhile_append2 is_digit_def)
  have "parse_frac (CHR ''.'' # st @ ''Z'') = (a * 10 ^ (9 - length st), ''Z'')"
    using tw a st_digits len by (simp add: parse_frac_def st Let_def)
  moreover have "9 - length st = k" using len by simp
  ultimately show ?thesis using a False by (simp add: format_frac_def st_def)
qed

lemma clock_split:
  assumes "0 \<le> c" "c < (86400::int)"
  shows "0 \<le> c div 3600 \<and> c div 3600 < 24 \<and> 0 \<le> c div 60 mod 60 \<and> c div 60 mod 60 < 60 \<and>
    0 \<le> c mod 60 \<and> c mod 60 < 60 \<and> c div 3600 * 3600 + c div 60 mod 60 * 60 + c mod 60 = c"
proof -
  define p q r where "p = c div 60" and "q = p mod 60" and "r = c mod 60"
  have h: "c div 3600 = p div 60" by (simp add: p_def zdiv_zmult2_eq [symmetric])
  have "p div 60 * 60 + q = p" "p * 60 + r = c"
    unfolding q_def r_def p_def by (rule div_mult_mod_eq)+
  then have "p div 60 * 3600 + q * 60 + r = c" by linarith
  moreover have "c div 3600 < 24" "0 \<le> c div 3600" using assms by simp_all
  moreover have "0 \<le> q" "q < 60" "0 \<le> r" "r < 60" by (simp_all add: q_def r_def)
  ultimately show ?thesis unfolding h [symmetric] p_def [symmetric] q_def [symmetric] r_def [symmetric]
    by simp
qed

theorem parse_format_rfc3339:
  assumes "date_in utc t = (y, m, d)" "0 \<le> y" "y < 10000"
  shows "parse_rfc3339 (format_rfc3339 t) = Some t"
proof -
  define c where "c = clock_in utc t"
  have c: "0 \<le> c" "c < 86400" by (simp_all add: c_def clock_in_def)
  have valid: "valid_date y m d" and day: "day_number y m d = unix_of t div 86400"
    using civil_valid assms(1) by (auto simp: date_in_def)
  have m: "1 \<le> m" "m \<le> 12" and d: "1 \<le> d" "d \<le> days_in y m" "d < 100"
    using valid by (auto simp: valid_date_def days_in_def leap_day_def split: if_splits)
  have u: "unix_of t div 86400 * 86400 + c = unix_of t" by (simp add: c_def clock_in_def)
  note C = clock_split [OF c]
  have frac: "parse_frac (format_frac (nsec_of t) @ ''Z'') = (nsec_of t, ''Z'')"
    using nsec_of_bounds by (rule parse_frac_format)
  have zone: "parse_zone ''Z'' = Some (0, [])" by (simp add: parse_zone_def)
  have "parse_rfc3339 (format_rfc3339 t) =
      Some ((day_number y m d * 86400 + c div 3600 * 3600 + c div 60 mod 60 * 60 + c mod 60) * 1000000000
        + nsec_of t)"
    unfolding parse_rfc3339_def format_rfc3339_def assms(1) format_date_def format_clock_def
      c_def [symmetric]
    using m d C frac zone assms(2,3) by (simp add: parse_year_append)
  also have "\<dots> = Some t" using C u day unix_nsec [of t] by (simp add: algebra_simps)
  finally show ?thesis .
qed

end
