(* ===== verification/Lease.thy ===== *)
theory Lease
  imports GoTime
begin

text \<open>
  The authorization lease and its store, \<^verbatim>\<open>internal/authorization/lease.go\<close> (the
  kernel carries the same file): a lease grants credentials until an expiry of at most
  five minutes, and the store orders snapshots, keeps the deny watermark, persists both
  and refuses everything once its files cannot be trusted.

  The mutex of the store makes every method atomic, so a method is one function on the
  store. The clock is an argument. The file system is part of the store record: a file
  is missing, unreadable, undecodable or holds the value that was written, and each
  write takes its outcome as an argument (\<open>WOk\<close>; \<open>WFailOld\<close>, an error before the
  rename; \<open>WFailNew\<close>, an error of the directory sync after it). Encryption at rest
  (\<^verbatim>\<open>stealth.Encrypt\<close>) does not change what a read gives back, so the key is left out.
\<close>

subsection \<open>The lease\<close>

definition max_lifetime :: duration where
  "max_lifetime = secs 300"

definition max_denied_keys :: nat where
  "max_denied_keys = 65536"

record lease =
  lRevision :: int
  lSequence :: int
  lDigest :: string
  lIssuedAt :: string
  lExpiresAt :: string
  lGrants :: "(string, string) gomap"
  lDenied :: "string list"

datatype auth_error = InvalidSnapshot | InvalidGrant | InvalidDenial

definition window :: "lease \<Rightarrow> (instant \<times> instant) option" where
  "window l = (case parse_rfc3339 (lIssuedAt l) of
       None \<Rightarrow> None
     | Some issued \<Rightarrow>
         let expires = issued + max_lifetime in
         if lExpiresAt l = [] then Some (issued, expires)
         else (case parse_rfc3339 (lExpiresAt l) of
             None \<Rightarrow> None
           | Some parsed \<Rightarrow>
               if parsed < issued \<or> expires < parsed then None else Some (issued, parsed)))"

definition bad_key :: "string \<Rightarrow> bool" where
  "bad_key k \<longleftrightarrow> k = [] \<or> 256 < length k"

definition bad_grant :: "instant \<Rightarrow> string \<times> string \<Rightarrow> bool" where
  "bad_grant expires g = (case g of (k, raw) \<Rightarrow>
     bad_key k \<or> (case parse_rfc3339 raw of None \<Rightarrow> True | Some end \<Rightarrow> expires < end))"

text \<open>\<^verbatim>\<open>Lease.Validate\<close>: \<open>None\<close> is success.\<close>

definition validate :: "lease \<Rightarrow> auth_error option" where
  "validate l = (case window l of
       None \<Rightarrow> Some InvalidSnapshot
     | Some (issued, expires) \<Rightarrow>
         if lRevision l \<le> 0 \<or> lSequence l < 0 \<or> 65536 < gm_len (lGrants l)
            \<or> max_denied_keys < length (lDenied l) \<or> 128 < length (lDigest l)
         then Some InvalidSnapshot
         else if list_ex (bad_grant expires) (lGrants l) then Some InvalidGrant
         else if list_ex bad_key (lDenied l) then Some InvalidDenial
         else None)"

text \<open>\<^verbatim>\<open>Lease.Allows\<close>; a missing key reads as the empty string, which does not parse.\<close>

definition lease_allows :: "lease option \<Rightarrow> string \<Rightarrow> instant \<Rightarrow> bool" where
  "lease_allows lo key now = (case lo of None \<Rightarrow> False | Some l \<Rightarrow>
     if key = [] then False
     else (case window l of
         None \<Rightarrow> False
       | Some (issued, expires) \<Rightarrow>
           if now < issued \<or> \<not> now < expires then False
           else (case gm_get (lGrants l) key of
               None \<Rightarrow> False
             | Some raw \<Rightarrow> (case parse_rfc3339 raw of
                   None \<Rightarrow> False
                 | Some end \<Rightarrow> \<not> expires < end \<and> now < end))))"

text \<open>\<^verbatim>\<open>Lease.NextExpiry\<close>; the zero time stands for "nothing scheduled".\<close>

definition earlier_end :: "instant \<Rightarrow> string \<times> string \<Rightarrow> instant \<Rightarrow> instant" where
  "earlier_end now g nxt = (case parse_rfc3339 (snd g) of
       None \<Rightarrow> nxt
     | Some end \<Rightarrow> if now < end \<and> end < nxt then end else nxt)"

definition next_expiry :: "lease option \<Rightarrow> instant \<Rightarrow> instant" where
  "next_expiry lo now = (case lo of None \<Rightarrow> zero_time | Some l \<Rightarrow>
     (case window l of
        None \<Rightarrow> zero_time
      | Some (_, expires) \<Rightarrow>
          let nxt = fold (earlier_end now) (lGrants l) expires
          in if now < nxt then nxt else zero_time))"

lemma window_bounds:
  "window l = Some (issued, expires) \<Longrightarrow> issued \<le> expires \<and> expires \<le> issued + max_lifetime"
  by (auto simp: window_def max_lifetime_def Let_def split: option.splits if_splits)

lemma window_cong:
  "lIssuedAt l = lIssuedAt l' \<Longrightarrow> lExpiresAt l = lExpiresAt l' \<Longrightarrow> window l = window l'"
  unfolding window_def by (simp cong: option.case_cong if_cong)

lemma lease_allows_iff:
  "lease_allows (Some l) key now \<longleftrightarrow> key \<noteq> [] \<and>
     (\<exists>issued expires raw end. window l = Some (issued, expires) \<and> issued \<le> now \<and> now < expires \<and>
        gm_get (lGrants l) key = Some raw \<and> parse_rfc3339 raw = Some end \<and> end \<le> expires \<and> now < end)"
  by (auto simp: lease_allows_def split: option.splits if_splits)

lemma lease_allows_None [simp]: "\<not> lease_allows None key now"
  by (simp add: lease_allows_def)

lemma lease_allows_Nil [simp]: "\<not> lease_allows lo [] now"
  by (cases lo) (simp_all add: lease_allows_def)

text \<open>Dropping grants keeps a lease valid.\<close>

lemma validate_subset:
  assumes "validate l = None" "set (lGrants l') \<subseteq> set (lGrants l)"
    "gm_len (lGrants l') \<le> gm_len (lGrants l)" "lRevision l' = lRevision l"
    "lSequence l' = lSequence l" "lDigest l' = lDigest l" "lIssuedAt l' = lIssuedAt l"
    "lExpiresAt l' = lExpiresAt l" "lDenied l' = lDenied l"
  shows "validate l' = None"
proof -
  have w: "window l' = window l" using assms by (intro window_cong) auto
  show ?thesis using assms
    by (auto simp: validate_def w list_ex_iff split: option.splits if_splits)
qed

lemma fold_earlier_end:
  "fold (earlier_end now) gs nxt \<le> nxt"
  "g \<in> set gs \<Longrightarrow> parse_rfc3339 (snd g) = Some end \<Longrightarrow> now < end \<Longrightarrow>
     fold (earlier_end now) gs nxt \<le> end"
proof -
  have step: "earlier_end now g nxt \<le> nxt" for g nxt
    by (simp add: earlier_end_def split: option.split)
  have mono: "fold (earlier_end now) gs nxt \<le> nxt" for gs nxt
  proof (induction gs arbitrary: nxt)
    case (Cons h gs)
    show ?case using Cons.IH [of "earlier_end now h nxt"] step [of h nxt] by simp
  qed simp
  show "fold (earlier_end now) gs nxt \<le> nxt" by (rule mono)
  show "g \<in> set gs \<Longrightarrow> parse_rfc3339 (snd g) = Some end \<Longrightarrow> now < end \<Longrightarrow>
      fold (earlier_end now) gs nxt \<le> end"
  proof (induction gs arbitrary: nxt)
    case (Cons h gs)
    show ?case
    proof (cases "g \<in> set gs")
      case True
      with Cons show ?thesis by simp
    next
      case False
      with Cons.prems have "earlier_end now h nxt \<le> end" by (auto simp: earlier_end_def)
      with mono [of gs "earlier_end now h nxt"] show ?thesis by simp
    qed
  qed simp
qed

subsection \<open>The store\<close>

record denied_entry =
  eRevision :: int
  eAt :: string

datatype 'a disk_file = Missing | Unreadable | Garbled | Holds 'a

datatype write_outcome = WOk | WFailOld | WFailNew

datatype store_error =
  ReadFailed | DecodeFailed | LeaseInvalid auth_error | WatermarkTooLarge | WriteFailed

record store =
  sPath :: string
  sBootID :: string
  sLoaded :: bool
  sErr :: "store_error option"
  sLease :: "lease option"
  sDenied :: "(string, denied_entry) gomap"
  sLeaseFile :: "lease disk_file"
  sDeniedFile :: "(string, denied_entry) gomap disk_file"

text \<open>\<^verbatim>\<open>NewStore\<close>, on the files found at the path; the random boot identity is an argument.\<close>

definition new_store :: "string \<Rightarrow> string \<Rightarrow> lease disk_file \<Rightarrow> (string, denied_entry) gomap disk_file \<Rightarrow> store" where
  "new_store path boot lf df = \<lparr>sPath = path, sBootID = boot, sLoaded = False, sErr = None, sLease = None,
     sDenied = [], sLeaseFile = lf, sDeniedFile = df\<rparr>"

definition load_denied :: "store \<Rightarrow> store" where
  "load_denied s = (case sDeniedFile s of
       Missing \<Rightarrow> s
     | Unreadable \<Rightarrow> s\<lparr>sErr := Some ReadFailed\<rparr>
     | Garbled \<Rightarrow> s\<lparr>sErr := Some DecodeFailed\<rparr>
     | Holds d \<Rightarrow> if max_denied_keys < gm_len d then s\<lparr>sErr := Some WatermarkTooLarge\<rparr>
                  else s\<lparr>sDenied := d\<rparr>)"

definition load :: "store \<Rightarrow> store" where
  "load s =
     (if sLoaded s then s
      else let s = s\<lparr>sLoaded := True\<rparr> in
        if sPath s = [] then s
        else (case sLeaseFile s of
            Missing \<Rightarrow> load_denied s
          | Unreadable \<Rightarrow> s\<lparr>sErr := Some ReadFailed\<rparr>
          | Garbled \<Rightarrow> s\<lparr>sErr := Some DecodeFailed\<rparr>
          | Holds l \<Rightarrow> (case validate l of
                Some e \<Rightarrow> s\<lparr>sErr := Some (LeaseInvalid e)\<rparr>
              | None \<Rightarrow> load_denied (s\<lparr>sLease := Some l\<rparr>))))"

text \<open>\<^verbatim>\<open>Store.Allows\<close>: the answer after loading; the watermark is consulted first.\<close>

definition store_allows :: "store \<Rightarrow> string \<Rightarrow> instant \<Rightarrow> bool" where
  "store_allows s0 key now =
     (if key = [] then False
      else let s = load s0 in
        if sErr s \<noteq> None then False
        else if gm_get (sDenied s) key \<noteq> None then False
        else lease_allows (sLease s) key now)"

definition store_denied :: "store \<Rightarrow> string \<Rightarrow> bool" where
  "store_denied s key \<longleftrightarrow> gm_get (sDenied (load s)) key \<noteq> None"

definition denied_keys :: "store \<Rightarrow> string list" where
  "denied_keys s = sort (gm_keys (sDenied (load s)))"

definition snapshot :: "store \<Rightarrow> lease option \<times> store_error option" where
  "snapshot s = (sLease (load s), sErr (load s))"

record status =
  tRevision :: int
  tSequence :: int
  tDigest :: string
  tIssuedAt :: string
  tExpiresAt :: string
  tBootID :: string
  tDeniedCount :: nat
  tGrantCount :: nat

definition store_status :: "store \<Rightarrow> status" where
  "store_status s0 = (let s = load s0; n = gm_len (sDenied s) in
     case sLease s of
       None \<Rightarrow> \<lparr>tRevision = 0, tSequence = 0, tDigest = [], tIssuedAt = [], tExpiresAt = [],
                tBootID = sBootID s, tDeniedCount = n, tGrantCount = 0\<rparr>
     | Some l \<Rightarrow> \<lparr>tRevision = lRevision l, tSequence = lSequence l, tDigest = lDigest l,
                tIssuedAt = lIssuedAt l, tExpiresAt = lExpiresAt l,
                tBootID = sBootID s, tDeniedCount = n, tGrantCount = gm_len (lGrants l)\<rparr>)"

subsection \<open>Ordering of snapshots\<close>

datatype lease_order = OrderNewer | OrderOlder | OrderEqual | OrderConflict

definition window_or_zero :: "lease \<Rightarrow> instant \<times> instant" where
  "window_or_zero l = (case window l of None \<Rightarrow> (zero_time, zero_time) | Some w \<Rightarrow> w)"

definition compare_lease :: "lease \<Rightarrow> lease \<Rightarrow> lease_order" where
  "compare_lease current candidate =
     (let (curIssued, curExpires) = window_or_zero current;
          candIssued = fst (window_or_zero candidate) in
      if lRevision current < lRevision candidate then OrderNewer
      else if lRevision candidate < lRevision current then
        (if \<not> candIssued < curExpires then OrderNewer else OrderOlder)
      else if lDigest candidate \<noteq> [] \<and> lDigest current \<noteq> [] \<and> lDigest candidate \<noteq> lDigest current then
        (if \<not> candIssued < curExpires then OrderNewer else OrderConflict)
      else if 0 < lSequence candidate \<and> 0 < lSequence current then
        (if lSequence current < lSequence candidate then OrderNewer
         else if lSequence candidate < lSequence current then OrderOlder
         else if candIssued = curIssued then OrderEqual
         else OrderConflict)
      else if curIssued < candIssued then OrderNewer
      else if candIssued < curIssued then OrderOlder
      else OrderEqual)"

subsection \<open>Update and Deny\<close>

text \<open>\<^verbatim>\<open>reflect.DeepEqual\<close> on maps: same keys with the same values.\<close>

definition gm_eq :: "('k, 'v) gomap \<Rightarrow> ('k, 'v) gomap \<Rightarrow> bool" where
  "gm_eq m n \<longleftrightarrow> list_all (\<lambda>(k, v). gm_get n k = gm_get m k) m
                \<and> list_all (\<lambda>(k, v). gm_get m k = gm_get n k) n"

datatype update_error =
  StateUnreadable store_error | BadLease auth_error | Conflict | PersistFailed

record update_result =
  rInstalled :: bool
  rSuperseded :: bool
  rUnchanged :: bool
  rRevoked :: "string list"

definition no_result :: update_result where
  "no_result = \<lparr>rInstalled = False, rSuperseded = False, rUnchanged = False, rRevoked = []\<rparr>"

text \<open>Keys the installed lease grants and the candidate does not.\<close>

definition dropped_keys :: "lease option \<Rightarrow> lease \<Rightarrow> string list" where
  "dropped_keys cur cand = (case cur of None \<Rightarrow> []
     | Some l \<Rightarrow> filter (\<lambda>k. gm_get (lGrants cand) k = None) (gm_keys (lGrants l)))"

text \<open>The loop over \<^verbatim>\<open>candidate.Denied\<close>: deny wins over grant, and the watermark is bounded.\<close>

fun apply_denials :: "int \<Rightarrow> string \<Rightarrow> string list \<Rightarrow> (string, string) gomap \<Rightarrow>
    (string, denied_entry) gomap \<Rightarrow> (string, string) gomap \<times> (string, denied_entry) gomap" where
  "apply_denials rv at [] grants denied = (grants, denied)"
| "apply_denials rv at (key # keys) grants denied =
     apply_denials rv at keys
       (if gm_get grants key \<noteq> None then gm_del key grants else grants)
       (if gm_len denied < max_denied_keys
        then gm_put key \<lparr>eRevision = rv, eAt = at\<rparr> denied else denied)"

definition redundant_denial :: "int \<Rightarrow> instant \<Rightarrow> denied_entry \<Rightarrow> bool" where
  "redundant_denial rv now e = (case parse_rfc3339 (eAt e) of
       None \<Rightarrow> False
     | Some at \<Rightarrow> eRevision e < rv \<and> max_lifetime < now - at)"

definition prune_denied :: "lease \<Rightarrow> instant \<Rightarrow> (string, denied_entry) gomap \<Rightarrow>
    (string, denied_entry) gomap" where
  "prune_denied cand now denied =
     filter (\<lambda>(k, e). gm_get (lGrants cand) k \<noteq> None
                      \<or> \<not> redundant_denial (lRevision cand) now e) denied"

text \<open>The two synced writes; a failure is recorded in \<open>sErr\<close>.\<close>

definition write_lease :: "write_outcome \<Rightarrow> lease \<Rightarrow> store \<Rightarrow> store" where
  "write_lease w l s = (case w of
       WOk \<Rightarrow> s\<lparr>sLeaseFile := Holds l\<rparr>
     | WFailOld \<Rightarrow> s\<lparr>sErr := Some WriteFailed\<rparr>
     | WFailNew \<Rightarrow> s\<lparr>sLeaseFile := Holds l, sErr := Some WriteFailed\<rparr>)"

definition write_denied :: "write_outcome \<Rightarrow> store \<Rightarrow> store" where
  "write_denied w s = (case w of
       WOk \<Rightarrow> s\<lparr>sDeniedFile := Holds (sDenied s)\<rparr>
     | WFailOld \<Rightarrow> s\<lparr>sErr := Some WriteFailed\<rparr>
     | WFailNew \<Rightarrow> s\<lparr>sDeniedFile := Holds (sDenied s), sErr := Some WriteFailed\<rparr>)"

text \<open>
  The tail of \<^verbatim>\<open>updateLocked\<close>, from \<^verbatim>\<open>now := s.now()\<close> on: apply the denials, prune the
  watermark, persist, install. The boolean says whether the change hook runs.
\<close>

definition install :: "instant \<Rightarrow> write_outcome \<Rightarrow> write_outcome \<Rightarrow> lease \<Rightarrow> store \<Rightarrow>
    (update_error + update_result) \<times> bool \<times> store" where
  "install now w1 w2 cand s =
     (let dropped = dropped_keys (sLease s) cand;
          (grants, denied) = apply_denials (lRevision cand) (format_rfc3339 now)
                               (lDenied cand) (lGrants cand) (sDenied s);
          cand' = cand\<lparr>lGrants := grants\<rparr>;
          s1 = s\<lparr>sDenied := prune_denied cand' now denied\<rparr>;
          revoked = sort (remdups (dropped @ lDenied cand));
          done = (\<lambda>s. (Inr (no_result\<lparr>rInstalled := True, rRevoked := revoked\<rparr>), True,
                       s\<lparr>sLease := Some cand'\<rparr>)) in
      if sPath s = [] then done s1
      else if w1 \<noteq> WOk then (Inl PersistFailed, False, write_lease w1 cand' s1)
      else let s2 = write_lease WOk cand' s1 in
        if w2 \<noteq> WOk then (Inl PersistFailed, False, write_denied w2 s2)
        else done (write_denied WOk s2))"

definition update_locked :: "instant \<Rightarrow> write_outcome \<Rightarrow> write_outcome \<Rightarrow> lease option \<Rightarrow> store \<Rightarrow>
    (update_error + update_result) \<times> bool \<times> store" where
  "update_locked now w1 w2 incoming s0 =
     (let s = load s0 in
      case sErr s of
        Some e \<Rightarrow> (Inl (StateUnreadable e), False, s)
      | None \<Rightarrow> (case incoming of
            None \<Rightarrow> (Inr (no_result\<lparr>rUnchanged := True\<rparr>), False, s)
          | Some cand \<Rightarrow> (case validate cand of
                Some e \<Rightarrow> (Inl (BadLease e), False, s)
              | None \<Rightarrow> (case sLease s of
                    None \<Rightarrow> install now w1 w2 cand s
                  | Some cur \<Rightarrow> (case compare_lease cur cand of
                        OrderOlder \<Rightarrow> (Inr (no_result\<lparr>rSuperseded := True\<rparr>), False, s)
                      | OrderEqual \<Rightarrow>
                          if \<not> gm_eq (lGrants cand) (lGrants cur) \<or> lDigest cand \<noteq> lDigest cur
                          then (Inl Conflict, False, s)
                          else if lDenied cand = []
                          then (Inr (no_result\<lparr>rUnchanged := True\<rparr>), False, s)
                          else install now w1 w2 cand s
                      | OrderConflict \<Rightarrow> (Inl Conflict, False, s)
                      | OrderNewer \<Rightarrow> install now w1 w2 cand s)))))"

text \<open>The loop of \<^verbatim>\<open>Store.Deny\<close>; it stops at the first key that finds the watermark full.\<close>

fun deny_keys :: "int \<Rightarrow> string \<Rightarrow> string list \<Rightarrow> (string, denied_entry) gomap \<Rightarrow> bool \<Rightarrow>
    (string, denied_entry) gomap \<times> bool" where
  "deny_keys rv at [] denied changed = (denied, changed)"
| "deny_keys rv at (key # keys) denied changed =
     (if bad_key key then deny_keys rv at keys denied changed
      else if (case gm_get denied key of None \<Rightarrow> False | Some e \<Rightarrow> rv \<le> eRevision e)
      then deny_keys rv at keys denied changed
      else if max_denied_keys \<le> gm_len denied then (denied, changed)
      else deny_keys rv at keys (gm_put key \<lparr>eRevision = rv, eAt = at\<rparr> denied) True)"

definition deny :: "instant \<Rightarrow> write_outcome \<Rightarrow> string list \<Rightarrow> int \<Rightarrow> store \<Rightarrow>
    update_error option \<times> bool \<times> store" where
  "deny now w keys rv s0 =
     (let s = load s0 in
      case sErr s of
        Some e \<Rightarrow> (Some (StateUnreadable e), False, s)
      | None \<Rightarrow>
          let (denied, changed) = deny_keys rv (format_rfc3339 now) keys (sDenied s) False;
              s1 = s\<lparr>sDenied := denied\<rparr> in
          if \<not> changed then (None, False, s1)
          else if sPath s = [] then (None, True, s1)
          else if w \<noteq> WOk then (Some PersistFailed, False, write_denied w s1)
          else (None, True, write_denied WOk s1))"


text \<open>A history of the store: the two state-changing methods in any order.\<close>

datatype store_op =
  OpUpdate instant write_outcome write_outcome "lease option"
| OpDeny instant write_outcome "string list" int

fun store_step :: "store_op \<Rightarrow> store \<Rightarrow> store" where
  "store_step (OpUpdate now w1 w2 incoming) s = snd (snd (update_locked now w1 w2 incoming s))"
| "store_step (OpDeny now w keys rv) s = snd (snd (deny now w keys rv s))"

definition store_run :: "store_op list \<Rightarrow> store \<Rightarrow> store" where
  "store_run ops s = fold store_step ops s"

fun op_time :: "store_op \<Rightarrow> instant" where
  "op_time (OpUpdate now _ _ _) = now"
| "op_time (OpDeny now _ _ _) = now"

lemma store_run_simps [simp]:
  "store_run [] s = s"
  "store_run (op # ops) s = store_run ops (store_step op s)"
  by (simp_all add: store_run_def)

lemma store_run_append: "store_run (xs @ ys) s = store_run ys (store_run xs s)"
  by (simp add: store_run_def)

subsection \<open>Loading\<close>

lemma load_loaded [simp]: "sLoaded (load s)"
  by (auto simp: load_def load_denied_def Let_def split: disk_file.split option.split)

lemma load_idem [simp]: "load (load s) = load s"
  by (subst load_def) simp

lemma load_id: "sLoaded s \<Longrightarrow> load s = s"
  by (simp add: load_def)

lemma load_path [simp]: "sPath (load s) = sPath s"
  by (auto simp: load_def load_denied_def Let_def split: disk_file.split option.split)

lemma load_files [simp]:
  "sLeaseFile (load s) = sLeaseFile s" "sDeniedFile (load s) = sDeniedFile s"
  by (auto simp: load_def load_denied_def Let_def split: disk_file.split option.split)

lemma store_allows_load [simp]: "store_allows (load s) = store_allows s"
  by (intro ext) (simp add: store_allows_def)

lemma store_allows_iff:
  "store_allows s key now \<longleftrightarrow>
     sErr (load s) = None \<and> gm_get (sDenied (load s)) key = None \<and> lease_allows (sLease (load s)) key now"
  by (auto simp: store_allows_def Let_def)

subsection \<open>The denial loops\<close>

lemma apply_denials_keeps:
  "gm_get denied k \<noteq> None \<Longrightarrow> gm_get (snd (apply_denials rv at keys grants denied)) k \<noteq> None"
  by (induction keys arbitrary: grants denied) simp_all

lemma apply_denials_entry:
  "gm_get (snd (apply_denials rv at keys grants denied)) k = Some e \<Longrightarrow>
   gm_get denied k = Some e \<or> e = \<lparr>eRevision = rv, eAt = at\<rparr>"
proof (induction keys arbitrary: grants denied)
  case (Cons key keys)
  define g where "g = (if gm_get grants key \<noteq> None then gm_del key grants else grants)"
  define d where "d = (if gm_len denied < max_denied_keys
        then gm_put key \<lparr>eRevision = rv, eAt = at\<rparr> denied else denied)"
  have "gm_get d k = Some e \<or> e = \<lparr>eRevision = rv, eAt = at\<rparr>"
    using Cons.prems by (intro Cons.IH [of g d]) (simp add: g_def d_def)
  then show ?case by (auto simp: d_def split: if_splits)
qed simp

lemma apply_denials_grants:
  "gm_get (fst (apply_denials rv at keys grants denied)) k =
     (if k \<in> set keys then None else gm_get grants k)"
  by (induction keys arbitrary: grants denied) auto

lemma apply_denials_subset:
  "set (fst (apply_denials rv at keys grants denied)) \<subseteq> set grants"
  "gm_len (fst (apply_denials rv at keys grants denied)) \<le> gm_len grants"
proof -
  have "set (fst (apply_denials rv at keys grants denied)) \<subseteq> set grants \<and>
        gm_len (fst (apply_denials rv at keys grants denied)) \<le> gm_len grants"
  proof (induction keys arbitrary: grants denied)
    case (Cons k ks)
    have "set (gm_del k grants) \<subseteq> set grants" "gm_len (gm_del k grants) \<le> gm_len grants"
      by (auto simp: gm_del_def gm_len_def)
    with Cons show ?case by (auto intro: order_trans)
  qed simp
  then show "set (fst (apply_denials rv at keys grants denied)) \<subseteq> set grants"
    and "gm_len (fst (apply_denials rv at keys grants denied)) \<le> gm_len grants" by auto
qed

lemma apply_denials_wf:
  "gm_wf grants \<Longrightarrow> gm_wf (fst (apply_denials rv at keys grants denied))"
  "gm_wf denied \<Longrightarrow> gm_wf (snd (apply_denials rv at keys grants denied))"
  by (induction keys arbitrary: grants denied) (auto simp: gm_wf_put gm_wf_del)

lemma gm_len_put_bounded:
  "gm_len m < n \<Longrightarrow> gm_len (gm_put k v m) \<le> n"
  using gm_len_put [of k v m] by (simp split: if_splits)

lemma apply_denials_len:
  "gm_len denied \<le> max_denied_keys \<Longrightarrow>
   gm_len (snd (apply_denials rv at keys grants denied)) \<le> max_denied_keys"
  by (induction keys arbitrary: grants denied) (auto simp: gm_len_put_bounded)

lemma deny_keys_keeps:
  "gm_get denied k \<noteq> None \<Longrightarrow> gm_get (fst (deny_keys rv at keys denied c)) k \<noteq> None"
  by (induction rv at keys denied c rule: deny_keys.induct)
    (simp_all del: not_None_eq split: option.splits)

lemma deny_keys_entry:
  "gm_get (fst (deny_keys rv at keys denied c)) k = Some e \<Longrightarrow>
     gm_get denied k = Some e \<or> e = \<lparr>eRevision = rv, eAt = at\<rparr>"
  by (induction rv at keys denied c rule: deny_keys.induct)
    (simp, simp split: if_splits option.splits, auto)

lemma deny_keys_wf: "gm_wf denied \<Longrightarrow> gm_wf (fst (deny_keys rv at keys denied c))"
  by (induction rv at keys denied c rule: deny_keys.induct) (auto simp: gm_wf_put)

lemma deny_keys_len:
  "gm_len denied \<le> max_denied_keys \<Longrightarrow>
   gm_len (fst (deny_keys rv at keys denied c)) \<le> max_denied_keys"
  by (induction rv at keys denied c rule: deny_keys.induct) (auto simp: gm_len_put_bounded)

lemma deny_keys_covers:
  "gm_len denied + length keys \<le> max_denied_keys \<Longrightarrow> k \<in> set keys \<Longrightarrow> \<not> bad_key k \<Longrightarrow>
     gm_get (fst (deny_keys rv at keys denied c)) k \<noteq> None"
proof (induction rv at keys denied c rule: deny_keys.induct)
  case (2 rv at key keys denied c)
  have len: "gm_len (gm_put key v denied) + length keys \<le> max_denied_keys" for v
    using 2(4) gm_len_put [of key v denied] by (simp split: if_splits)
  have put: "gm_get (fst (deny_keys rv at keys (gm_put key v denied) b)) key \<noteq> None" for v b
    by (rule deny_keys_keeps) simp
  have old: "gm_get (fst (deny_keys rv at keys denied b)) key \<noteq> None" if "gm_get denied key \<noteq> None" for b
    using that by (rule deny_keys_keeps)
  consider (here) "k = key" | (later) "k \<in> set keys" using 2(5) by auto
  then show ?case
  proof cases
    case here
    with 2(4,6) put old show ?thesis by (cases "gm_get denied key") simp_all
  next
    case later
    with 2(1-4,6) len show ?thesis
      by (cases "bad_key key"; cases "gm_get denied key") simp_all
  qed
qed simp

lemma deny_keys_True: "snd (deny_keys rv at keys denied True)"
  by (induction rv at keys denied True rule: deny_keys.induct) simp_all

lemma deny_keys_unchanged:
  "\<not> snd (deny_keys rv at keys denied c) \<Longrightarrow> fst (deny_keys rv at keys denied c) = denied"
  by (induction rv at keys denied c rule: deny_keys.induct) (simp_all add: deny_keys_True split: if_splits)

lemma prune_denied_get:
  "gm_wf denied \<Longrightarrow> gm_get (prune_denied cand now denied) k =
     (case gm_get denied k of None \<Rightarrow> None
      | Some e \<Rightarrow> if gm_get (lGrants cand) k \<noteq> None \<or> \<not> redundant_denial (lRevision cand) now e
                  then Some e else None)"
  by (auto simp: prune_denied_def gm_get_filter split: option.split)

lemma prune_denied_len: "gm_len (prune_denied cand now denied) \<le> gm_len denied"
  by (simp add: prune_denied_def gm_len_def)

subsection \<open>Shape of the operations\<close>

definition kept_grants :: "instant \<Rightarrow> lease \<Rightarrow> store \<Rightarrow> (string, string) gomap" where
  "kept_grants now cand s = fst (apply_denials (lRevision cand) (format_rfc3339 now)
     (lDenied cand) (lGrants cand) (sDenied s))"

definition kept_lease :: "instant \<Rightarrow> lease \<Rightarrow> store \<Rightarrow> lease" where
  "kept_lease now cand s = cand\<lparr>lGrants := kept_grants now cand s\<rparr>"

definition kept_denied :: "instant \<Rightarrow> lease \<Rightarrow> store \<Rightarrow> (string, denied_entry) gomap" where
  "kept_denied now cand s = prune_denied (kept_lease now cand s) now
     (snd (apply_denials (lRevision cand) (format_rfc3339 now)
        (lDenied cand) (lGrants cand) (sDenied s)))"

lemma install_eq:
  "install now w1 w2 cand s =
     (let l = kept_lease now cand s;
          s1 = s\<lparr>sDenied := kept_denied now cand s\<rparr>;
          res = Inr (no_result\<lparr>rInstalled := True,
                  rRevoked := sort (remdups (dropped_keys (sLease s) cand @ lDenied cand))\<rparr>) in
      if sPath s = [] then (res, True, s1\<lparr>sLease := Some l\<rparr>)
      else if w1 \<noteq> WOk then (Inl PersistFailed, False, write_lease w1 l s1)
      else if w2 \<noteq> WOk then (Inl PersistFailed, False, write_denied w2 (write_lease WOk l s1))
      else (res, True, (write_denied WOk (write_lease WOk l s1))\<lparr>sLease := Some l\<rparr>))"
  by (simp add: install_def kept_denied_def kept_lease_def kept_grants_def Let_def split_beta)

lemma write_simps [simp]:
  "sDenied (write_lease w l s) = sDenied s" "sDenied (write_denied w s) = sDenied s"
  "sLease (write_lease w l s) = sLease s" "sLease (write_denied w s) = sLease s"
  "sPath (write_lease w l s) = sPath s" "sPath (write_denied w s) = sPath s"
  "sLoaded (write_lease w l s) = sLoaded s" "sLoaded (write_denied w s) = sLoaded s"
  "sErr (write_lease w l s) = (if w = WOk then sErr s else Some WriteFailed)"
  "sErr (write_denied w s) = (if w = WOk then sErr s else Some WriteFailed)"
  "sDeniedFile (write_lease w l s) = sDeniedFile s"
  "sLeaseFile (write_denied w s) = sLeaseFile s"
  "sLeaseFile (write_lease w l s) = (if w = WFailOld then sLeaseFile s else Holds l)"
  "sDeniedFile (write_denied w s) = (if w = WFailOld then sDeniedFile s else Holds (sDenied s))"
  by (cases w; simp add: write_lease_def write_denied_def)+

text \<open>What an installation leaves, whatever the writes do.\<close>

lemma install_state:
  assumes "install now w1 w2 cand s = (r, h, s')"
  shows "sDenied s' = kept_denied now cand s" "sPath s' = sPath s" "sLoaded s' = sLoaded s"
    "r = Inl PersistFailed \<and> sErr s' = Some WriteFailed \<and> sLease s' = sLease s \<and> \<not> h \<or>
     r = Inr (no_result\<lparr>rInstalled := True,
            rRevoked := sort (remdups (dropped_keys (sLease s) cand @ lDenied cand))\<rparr>) \<and>
       sErr s' = sErr s \<and> sLease s' = Some (kept_lease now cand s) \<and> h"
    "sPath s \<noteq> [] \<Longrightarrow> r \<noteq> Inl PersistFailed \<Longrightarrow>
       sLeaseFile s' = Holds (kept_lease now cand s) \<and> sDeniedFile s' = Holds (kept_denied now cand s)"
  using assms by (auto simp: install_eq Let_def split: if_splits)

lemma update_cases:
  assumes "update_locked now w1 w2 incoming s0 = (r, h, s')"
  obtains (same) "s' = load s0" "\<not> h" "r = Inr (no_result\<lparr>rUnchanged := True\<rparr>) \<or>
      r = Inr (no_result\<lparr>rSuperseded := True\<rparr>) \<or> (\<exists>e. r = Inl e \<and> e \<noteq> PersistFailed)"
  | (installed) cand where "incoming = Some cand" "validate cand = None" "sErr (load s0) = None"
      "case sLease (load s0) of None \<Rightarrow> True
       | Some cur \<Rightarrow> compare_lease cur cand = OrderNewer \<or> compare_lease cur cand = OrderEqual \<and>
           gm_eq (lGrants cand) (lGrants cur) \<and> lDigest cand = lDigest cur \<and> lDenied cand \<noteq> []"
      "install now w1 w2 cand (load s0) = (r, h, s')"
proof -
  have "s' = load s0 \<and> \<not> h \<and> (r = Inr (no_result\<lparr>rUnchanged := True\<rparr>) \<or>
      r = Inr (no_result\<lparr>rSuperseded := True\<rparr>) \<or> (\<exists>e. r = Inl e \<and> e \<noteq> PersistFailed)) \<or>
    (\<exists>cand. incoming = Some cand \<and> validate cand = None \<and> sErr (load s0) = None \<and>
      (case sLease (load s0) of None \<Rightarrow> True
       | Some cur \<Rightarrow> compare_lease cur cand = OrderNewer \<or> compare_lease cur cand = OrderEqual \<and>
           gm_eq (lGrants cand) (lGrants cur) \<and> lDigest cand = lDigest cur \<and> lDenied cand \<noteq> []) \<and>
      install now w1 w2 cand (load s0) = (r, h, s'))"
    using assms by (simp_all add: update_locked_def Let_def split: option.splits lease_order.splits if_splits) auto
  then show ?thesis using same installed by blast
qed

lemma deny_state:
  assumes "deny now w keys rv s0 = (r, h, s')"
  shows "sLoaded s'" "sPath s' = sPath s0" "sLease s' = sLease (load s0)"
    "sErr (load s0) \<noteq> None \<Longrightarrow> s' = load s0 \<and> r \<noteq> None"
    "sErr (load s0) = None \<Longrightarrow>
       sDenied s' = fst (deny_keys rv (format_rfc3339 now) keys (sDenied (load s0)) False)"
    "sErr (load s0) = None \<Longrightarrow> sErr s' = (if r = None then None else Some WriteFailed)"
  using assms by (auto simp: deny_def Let_def split_beta split: option.splits if_splits)

subsection \<open>The invariant\<close>

definition lease_ok :: "lease \<Rightarrow> bool" where
  "lease_ok l \<longleftrightarrow> validate l = None \<and> gm_wf (lGrants l)"

definition store_ok :: "store \<Rightarrow> bool" where
  "store_ok s \<longleftrightarrow> gm_wf (sDenied s) \<and> gm_len (sDenied s) \<le> max_denied_keys
     \<and> pred_option lease_ok (sLease s)"

text \<open>Files hold Go maps, with distinct keys.\<close>

definition files_ok :: "store \<Rightarrow> bool" where
  "files_ok s \<longleftrightarrow> (case sLeaseFile s of Holds l \<Rightarrow> gm_wf (lGrants l) | _ \<Rightarrow> True)
     \<and> (case sDeniedFile s of Holds d \<Rightarrow> gm_wf d | _ \<Rightarrow> True)"

fun op_ok :: "store_op \<Rightarrow> bool" where
  "op_ok (OpUpdate _ _ _ incoming) = pred_option (\<lambda>l. gm_wf (lGrants l)) incoming"
| "op_ok (OpDeny _ _ _ _) = True"

text \<open>Memory and disk agree on every store that has not failed.\<close>

definition in_sync :: "store \<Rightarrow> bool" where
  "in_sync s \<longleftrightarrow> sErr s = None \<and> sPath s \<noteq> [] \<longrightarrow>
     sLeaseFile s = (case sLease s of None \<Rightarrow> Missing | Some l \<Rightarrow> Holds l) \<and>
     (sDeniedFile s = Holds (sDenied s) \<or> sDeniedFile s = Missing \<and> sDenied s = [])"

lemma new_store_ok [simp]: "store_ok (new_store path boot lf df)"
  by (simp add: new_store_def store_ok_def gm_len_def)

lemma load_ok: "store_ok s \<Longrightarrow> files_ok s \<Longrightarrow> store_ok (load s)"
  by (auto simp: store_ok_def files_ok_def load_def load_denied_def lease_ok_def Let_def
      split: disk_file.splits option.splits)

lemma load_new_in_sync: "in_sync (load (new_store path boot lf df))"
  by (auto simp: in_sync_def new_store_def load_def load_denied_def Let_def
      split: disk_file.splits option.splits)

lemma kept_lease_ok:
  assumes "validate cand = None" "gm_wf (lGrants cand)"
  shows "lease_ok (kept_lease now cand s)"
proof -
  have "validate (kept_lease now cand s) = None"
    using assms(1) by (rule validate_subset)
      (simp_all add: kept_lease_def kept_grants_def apply_denials_subset)
  then show ?thesis
    using assms(2) by (simp add: lease_ok_def kept_lease_def kept_grants_def apply_denials_wf)
qed

lemma kept_denied_ok:
  assumes "store_ok s"
  shows "gm_wf (kept_denied now cand s)" "gm_len (kept_denied now cand s) \<le> max_denied_keys"
proof -
  show "gm_wf (kept_denied now cand s)"
    using assms by (simp add: kept_denied_def prune_denied_def store_ok_def gm_wf_filter apply_denials_wf)
  show "gm_len (kept_denied now cand s) \<le> max_denied_keys"
    unfolding kept_denied_def using assms
    by (intro order_trans [OF prune_denied_len apply_denials_len]) (simp add: store_ok_def)
qed

lemma install_ok:
  assumes "install now w1 w2 cand s = (r, h, s')" "store_ok s" "validate cand = None"
    "gm_wf (lGrants cand)"
  shows "store_ok s'"
  using install_state(1,4) [OF assms(1)] kept_denied_ok [OF assms(2)] kept_lease_ok [OF assms(3,4)] assms(2)
  by (auto simp: store_ok_def)

text \<open>One step of a history is a no-op, an installation or a denial.\<close>

lemma store_step_cases:
  obtains (same) "store_step op s = load s"
  | (install) now w1 w2 cand r h where "op = OpUpdate now w1 w2 (Some cand)" "validate cand = None"
      "sErr (load s) = None" "install now w1 w2 cand (load s) = (r, h, store_step op s)"
  | (deny) now w keys rv r h where "op = OpDeny now w keys rv" "sErr (load s) = None"
      "deny now w keys rv s = (r, h, store_step op s)"
proof (cases op)
  case (OpUpdate now w1 w2 incoming)
  obtain r h s' where u: "update_locked now w1 w2 incoming s = (r, h, s')" by (metis prod_cases3)
  have step: "store_step op s = s'" by (simp add: OpUpdate u)
  from u show ?thesis
  proof (cases rule: update_cases)
    case same
    with step that(1) show ?thesis by simp
  next
    case (installed cand)
    with step that(2) OpUpdate show ?thesis by blast
  qed
next
  case (OpDeny now w keys rv)
  obtain r h s' where d: "deny now w keys rv s = (r, h, s')" by (metis prod_cases3)
  have step: "store_step op s = s'" by (simp add: OpDeny d)
  show ?thesis
  proof (cases "sErr (load s)")
    case None
    with d step that(3) OpDeny show ?thesis by blast
  next
    case (Some e)
    with deny_state(4) [OF d] step that(1) show ?thesis by simp
  qed
qed

lemma store_step_loaded [simp]: "sLoaded (store_step op s)"
  by (cases op s rule: store_step_cases) (auto dest: install_state(3) deny_state(1))

lemma store_step_path [simp]: "sPath (store_step op s) = sPath s"
  by (cases op s rule: store_step_cases) (auto dest: install_state(2) deny_state(2))

lemma store_step_ok:
  assumes "store_ok (load s)" "op_ok op"
  shows "store_ok (store_step op s)"
proof (cases op s rule: store_step_cases)
  case (deny now w keys rv r h)
  show ?thesis
    using deny_state(3,5) [OF deny(3)] deny(2) assms(1)
    by (auto simp: store_ok_def deny_keys_wf deny_keys_len)
qed (use assms in \<open>auto intro: install_ok\<close>)

lemma load_step [simp]: "load (store_step op s) = store_step op s"
  by (simp add: load_id)

lemma store_run_ok:
  "store_ok (load s) \<Longrightarrow> list_all op_ok ops \<Longrightarrow> store_ok (load (store_run ops s))"
  by (induction ops arbitrary: s) (auto simp: store_step_ok)

subsection \<open>Denials\<close>

definition four_digit_year :: "instant \<Rightarrow> bool" where
  "four_digit_year t = (case date_in utc t of (y, _, _) \<Rightarrow> 0 \<le> y \<and> y < 10000)"

lemma parse_format_now: "four_digit_year t \<Longrightarrow> parse_rfc3339 (format_rfc3339 t) = Some t"
  by (cases "date_in utc t") (auto simp: four_digit_year_def intro: parse_format_rfc3339)

text \<open>The key is on the watermark with an entry recorded at or after \<open>t\<close>.\<close>

definition denied_since :: "instant \<Rightarrow> store \<Rightarrow> string \<Rightarrow> bool" where
  "denied_since t s k = (case gm_get (sDenied s) k of None \<Rightarrow> False
     | Some e \<Rightarrow> (case parse_rfc3339 (eAt e) of None \<Rightarrow> True | Some a \<Rightarrow> t \<le> a))"

lemma denied_since_get: "denied_since t s k \<Longrightarrow> gm_get (sDenied s) k \<noteq> None"
  by (auto simp: denied_since_def split: option.splits)

lemma denied_refused: "gm_get (sDenied s) k \<noteq> None \<Longrightarrow> sLoaded s \<Longrightarrow> \<not> store_allows s k now"
  by (simp add: store_allows_iff load_id)

lemma kept_denied_get:
  assumes "store_ok s"
  shows "gm_get (kept_denied now cand s) k = (case gm_get (snd (apply_denials (lRevision cand)
        (format_rfc3339 now) (lDenied cand) (lGrants cand) (sDenied s))) k of None \<Rightarrow> None
      | Some e \<Rightarrow> if gm_get (kept_grants now cand s) k \<noteq> None \<or> \<not> redundant_denial (lRevision cand) now e
                  then Some e else None)"
  using assms unfolding kept_denied_def
  by (subst prune_denied_get) (simp_all add: store_ok_def apply_denials_wf kept_lease_def split: option.split)

lemma install_denied_since:
  assumes "install now w1 w2 cand s = (r, h, s')" "store_ok s" "denied_since t s k"
    "t \<le> now" "now \<le> t + max_lifetime" "four_digit_year now"
  shows "denied_since t s' k"
proof -
  define d where "d = snd (apply_denials (lRevision cand) (format_rfc3339 now)
    (lDenied cand) (lGrants cand) (sDenied s))"
  obtain e where e: "gm_get d k = Some e"
    using apply_denials_keeps denied_since_get [OF assms(3)] unfolding d_def by fastforce
  have young: "case parse_rfc3339 (eAt e) of None \<Rightarrow> True | Some a \<Rightarrow> t \<le> a"
    using apply_denials_entry [of "lRevision cand" _ _ _ _ k, OF e [unfolded d_def]]
  proof
    assume "gm_get (sDenied s) k = Some e"
    then show ?thesis using assms(3) by (simp add: denied_since_def)
  next
    assume "e = \<lparr>eRevision = lRevision cand, eAt = format_rfc3339 now\<rparr>"
    then show ?thesis using assms(4) parse_format_now [OF assms(6)] by simp
  qed
  then have "\<not> redundant_denial (lRevision cand) now e"
    using assms(5) by (auto simp: redundant_denial_def split: option.splits)
  then have "gm_get (sDenied s') k = Some e"
    using e by (simp add: install_state(1) [OF assms(1)] kept_denied_get [OF assms(2)] d_def)
  with young show ?thesis by (simp add: denied_since_def)
qed

lemma deny_denied_since:
  assumes "deny now w keys rv s = (r, h, s')" "sErr (load s) = None" "denied_since t (load s) k"
    "t \<le> now" "four_digit_year now"
  shows "denied_since t s' k"
proof -
  have s': "sDenied s' = fst (deny_keys rv (format_rfc3339 now) keys (sDenied (load s)) False)"
    using deny_state(5) [OF assms(1,2)] .
  then obtain e where e: "gm_get (sDenied s') k = Some e"
    using deny_keys_keeps denied_since_get [OF assms(3)] by fastforce
  from deny_keys_entry [OF e [unfolded s']] show ?thesis
  proof
    assume "gm_get (sDenied (load s)) k = Some e"
    then show ?thesis using assms(3) e by (simp add: denied_since_def)
  next
    assume "e = \<lparr>eRevision = rv, eAt = format_rfc3339 now\<rparr>"
    then show ?thesis using assms(4) parse_format_now [OF assms(5)] e by (simp add: denied_since_def)
  qed
qed

definition op_within :: "instant \<Rightarrow> store_op \<Rightarrow> bool" where
  "op_within t op \<longleftrightarrow> op_ok op \<and> t \<le> op_time op \<and> op_time op \<le> t + max_lifetime
     \<and> four_digit_year (op_time op)"

lemma store_run_denied_since:
  "store_ok (load s) \<Longrightarrow> denied_since t (load s) k \<Longrightarrow> list_all (op_within t) ops \<Longrightarrow>
     denied_since t (load (store_run ops s)) k"
proof (induction ops arbitrary: s)
  case (Cons op ops)
  have within: "op_ok op" "t \<le> op_time op" "op_time op \<le> t + max_lifetime" "four_digit_year (op_time op)"
    using Cons.prems(3) by (auto simp: op_within_def)
  have "denied_since t (store_step op s) k"
    by (cases op s rule: store_step_cases)
      (use Cons.prems within in \<open>auto intro: install_denied_since deny_denied_since\<close>)
  then show ?case
    using Cons within by (simp add: store_step_ok)
qed simp

lemma deny_covers:
  assumes "deny t w keys rv s = (None, h, s1)" "k \<in> set keys" "\<not> bad_key k"
    "gm_len (sDenied (load s)) + length keys \<le> max_denied_keys"
  shows "gm_get (sDenied s1) k \<noteq> None"
proof -
  have "sErr (load s) = None" using deny_state(4) [OF assms(1)] by blast
  then show ?thesis using deny_state(5) [OF assms(1)] deny_keys_covers [OF assms(4,2,3)] by simp
qed

lemma deny_keys_fresh:
  "gm_get (fst (deny_keys rv at keys denied c)) k = Some e \<Longrightarrow> k \<in> set keys \<Longrightarrow> \<not> bad_key k \<Longrightarrow>
   gm_len denied + length keys \<le> max_denied_keys \<Longrightarrow>
   (case gm_get denied k of None \<Rightarrow> True | Some e' \<Rightarrow> eRevision e' < rv) \<Longrightarrow> eAt e = at"
proof (induction rv at keys denied c rule: deny_keys.induct)
  case (2 rv at key keys denied c)
  have len: "gm_len (gm_put key v denied) + length keys \<le> max_denied_keys" for v
    using 2(7) gm_len_put [of key v denied] by (simp split: if_splits)
  consider (here) "k = key" | (later) "k \<noteq> key" "k \<in> set keys" using 2(5) by auto
  then show ?case
  proof cases
    case here
    with 2(4,6,7,8) deny_keys_entry [of rv at keys "gm_put key \<lparr>eRevision = rv, eAt = at\<rparr> denied" True k e]
    show ?thesis by (cases "gm_get denied key") auto
  next
    case later
    with 2(1-4,6,7,8) len show ?thesis
      by (cases "bad_key key"; cases "gm_get denied key") (simp_all split: if_splits)
  qed
qed simp

subsection \<open>Properties of the store\<close>

lemma update_order_facts:
  "compare_lease cur cand = OrderNewer \<or> compare_lease cur cand = OrderEqual \<Longrightarrow>
     lRevision cur < lRevision cand
   \<or> snd (window_or_zero cur) \<le> fst (window_or_zero cand)
   \<or> lRevision cand = lRevision cur \<and>
       (lSequence cur < lSequence cand \<or> fst (window_or_zero cur) \<le> fst (window_or_zero cand))"
  by (auto simp: compare_lease_def Let_def split_beta split: if_splits)

lemma kept_lease_fields [simp]:
  "lRevision (kept_lease now cand s) = lRevision cand" "lSequence (kept_lease now cand s) = lSequence cand"
  "lDigest (kept_lease now cand s) = lDigest cand" "lDenied (kept_lease now cand s) = lDenied cand"
  "window (kept_lease now cand s) = window cand" "lGrants (kept_lease now cand s) = kept_grants now cand s"
  by (simp_all add: kept_lease_def cong: window_cong)

lemma kept_grants_get:
  "gm_get (kept_grants now cand s) k = (if k \<in> set (lDenied cand) then None else gm_get (lGrants cand) k)"
  by (simp add: kept_grants_def apply_denials_grants)

text \<open>C2: Emergency denial. A key that \<open>deny\<close> accepted at time \<open>t\<close> is refused by the store
  after every later history of updates and denials made within the maximum lease lifetime of
  \<open>t\<close>, whatever the snapshots grant and whether or not their writes succeed.\<close>

theorem deny_refuses_for_a_lifetime:
  assumes ok: "store_ok (load s)" and d: "deny t w keys rv s = (None, h, s1)"
    and k: "k \<in> set keys" "\<not> bad_key k"
    and room: "gm_len (sDenied (load s)) + length keys \<le> max_denied_keys"
    and new: "case gm_get (sDenied (load s)) k of None \<Rightarrow> True | Some e \<Rightarrow> eRevision e < rv"
    and t: "four_digit_year t" and ops: "list_all (op_within t) ops"
  shows "\<not> store_allows (store_run ops s1) k now"
proof -
  have err: "sErr (load s) = None" using deny_state(4) [OF d] by blast
  have s1: "load s1 = s1" using deny_state(1) [OF d] by (rule load_id)
  have "store_ok s1"
    using store_step_ok [OF ok, of "OpDeny t w keys rv"] d by simp
  moreover have "denied_since t s1 k"
  proof -
    obtain e where e: "gm_get (sDenied s1) k = Some e" using deny_covers [OF d k room] by blast
    have "eAt e = format_rfc3339 t"
      using deny_keys_fresh [OF e [unfolded deny_state(5) [OF d err]] k room new] .
    then show ?thesis using e parse_format_now [OF t] by (simp add: denied_since_def)
  qed
  ultimately have "denied_since t (load (store_run ops s1)) k"
    using store_run_denied_since ops s1 by simp
  then show ?thesis
    using denied_refused [OF denied_since_get load_loaded] by simp
qed

text \<open>C11: No re-admission. A snapshot that arrives while a key is on the deny watermark never
  makes the store admit that key, even when the same update prunes the key's entry.\<close>

theorem update_never_readmits:
  assumes "store_ok (load s)" "gm_get (sDenied (load s)) k \<noteq> None"
    "update_locked now w1 w2 incoming s = (r, h, s')"
  shows "\<not> store_allows s' k t"
  using assms(3)
proof (cases rule: update_cases)
  case same
  with assms(2) show ?thesis by (simp add: store_allows_iff)
next
  case (installed cand)
  note st = install_state [OF installed(5)]
  have ld: "load s' = s'" using st(3) by (intro load_id) simp
  obtain e where e: "gm_get (snd (apply_denials (lRevision cand) (format_rfc3339 now)
      (lDenied cand) (lGrants cand) (sDenied (load s)))) k = Some e"
    using apply_denials_keeps [OF assms(2)] by blast
  show ?thesis
  proof (cases "gm_get (kept_grants now cand (load s)) k")
    case None
    with st(4) show ?thesis by (auto simp: store_allows_iff ld lease_allows_iff)
  next
    case (Some g)
    then have "gm_get (sDenied s') k = Some e" using e by (simp add: st(1) kept_denied_get [OF assms(1)])
    then show ?thesis by (simp add: store_allows_iff ld)
  qed
qed


text \<open>Replay. Delivering the installed lease again (a configuration replay) is reported as
  unchanged and leaves the store as it is.\<close>

theorem replay_is_unchanged:
  assumes "sErr (load s) = None" "sLease (load s) = Some l" "validate l = None" "lDenied l = []"
  shows "update_locked now w1 w2 (Some l) s = (Inr (no_result\<lparr>rUnchanged := True\<rparr>), False, load s)"
proof -
  have "compare_lease l l = OrderEqual" by (simp add: compare_lease_def Let_def split_beta)
  moreover have "gm_eq (lGrants l) (lGrants l)" by (simp add: gm_eq_def list_all_iff split_beta)
  ultimately show ?thesis using assms by (simp add: update_locked_def)
qed

lemma failed_stays: "sErr s \<noteq> None \<Longrightarrow> sLoaded s \<Longrightarrow> store_run ops s = s"
proof (induction ops)
  case (Cons op ops)
  then have "load s = s" by (simp add: load_id)
  with Cons have "store_step op s = s"
    by (cases op s rule: store_step_cases) auto
  with Cons show ?case by simp
qed simp


subsection \<open>Restart\<close>

text \<open>A restart reads the files the process left behind.\<close>

definition restart :: "string \<Rightarrow> store \<Rightarrow> store" where
  "restart boot s = new_store (sPath s) boot (sLeaseFile s) (sDeniedFile s)"

lemma restart_refuses_denied:
  assumes "sPath s \<noteq> []" "sDeniedFile s = Holds d" "gm_get d k \<noteq> None"
  shows "\<not> store_allows (restart boot s) k t"
proof
  assume allowed: "store_allows (restart boot s) k t"
  let ?n = "load (restart boot s)"
  from allowed have "sErr ?n = None" "gm_get (sDenied ?n) k = None"
    by (auto simp: store_allows_iff)
  then show False
    using assms
    by (auto simp: load_def restart_def new_store_def load_denied_def Let_def
        split: disk_file.splits option.splits if_splits)
qed

lemma restart_refuses_ungranted:
  assumes "sPath s \<noteq> []" "sLeaseFile s = Holds l" "gm_get (lGrants l) k = None"
  shows "\<not> store_allows (restart boot s) k t"
proof
  assume allowed: "store_allows (restart boot s) k t"
  then have "lease_allows (sLease (load (restart boot s))) k t" by (simp add: store_allows_iff)
  moreover have "sLease (load (restart boot s)) \<in> {None, Some l}"
    using assms(1,2)
    by (auto simp: load_def restart_def new_store_def load_denied_def Let_def
        split: disk_file.splits option.splits)
  ultimately show False using assms(3) by (auto simp: lease_allows_iff)
qed

lemma restart_in_sync:
  assumes "in_sync s" "store_ok s" "sErr s = None" "sPath s \<noteq> []"
  shows "sErr (load (restart boot s)) = None" "sLease (load (restart boot s)) = sLease s"
    "sDenied (load (restart boot s)) = sDenied s"
  using assms
  by (auto simp: load_def in_sync_def store_ok_def lease_ok_def restart_def new_store_def
      load_denied_def Let_def split: option.splits if_splits)

lemma install_in_sync:
  assumes "install now w1 w2 cand s = (r, h, s')"
  shows "in_sync s'"
  using install_state [OF assms] by (auto simp: in_sync_def)

lemma deny_in_sync:
  assumes "deny now w keys rv s = (r, h, s')" "in_sync (load s)"
  shows "in_sync s'"
  using assms deny_keys_unchanged [of rv "format_rfc3339 now" keys "sDenied (load s)" False]
  by (auto simp: deny_def in_sync_def Let_def split_beta split: option.splits if_splits)

lemma store_run_in_sync: "in_sync (load s) \<Longrightarrow> in_sync (load (store_run ops s))"
proof (induction ops arbitrary: s)
  case (Cons op ops)
  have "in_sync (store_step op s)"
    by (cases op s rule: store_step_cases) (use Cons.prems in \<open>auto intro: install_in_sync deny_in_sync\<close>)
  then show ?case using Cons.IH [of "store_step op s"] by simp
qed simp

lemma store_run_path [simp]: "sPath (store_run ops s) = sPath s"
  by (induction ops arbitrary: s) simp_all

text \<open>C20: Durability. After any history of updates and denials that met no failed write, a
  restarted process decides every request as the running one does: its lease and its deny
  watermark are the ones in memory.\<close>

theorem restart_decides_the_same:
  assumes "path \<noteq> []" "files_ok (new_store path boot lf df)" "list_all op_ok ops"
    "s = load (store_run ops (new_store path boot lf df))" "sErr s = None"
  shows "store_allows (restart boot' s) k t = store_allows s k t
    \<and> sLease (load (restart boot' s)) = sLease s \<and> sDenied (load (restart boot' s)) = sDenied s"
proof -
  have "store_ok s" "in_sync s"
    using assms store_run_ok load_ok store_run_in_sync load_new_in_sync by simp_all
  moreover have "sPath s \<noteq> []" using assms(1,4) by (simp add: new_store_def)
  ultimately show ?thesis
    using restart_in_sync assms(4,5) by (simp_all add: store_allows_iff)
qed

text \<open>C9: Crash safety. When an update is cut short by a failing write, at either file and
  before or after its rename, a restart still refuses every key that was on the deny
  watermark when the update began.\<close>

theorem crashed_update_keeps_denials:
  assumes ok: "store_ok (load s)" and sync: "in_sync (load s)"
    and path: "sPath s \<noteq> []" and k: "gm_get (sDenied (load s)) k \<noteq> None"
    and u: "update_locked now w1 w2 incoming s = (r, h, s')" and clean: "sErr (load s) = None"
  shows "\<not> store_allows (restart boot s') k t"
proof -
  have old: "sDeniedFile (load s) = Holds (sDenied (load s))"
    using sync path clean k by (auto simp: in_sync_def)
  show ?thesis using u
  proof (cases rule: update_cases)
    case same
    with old path k show ?thesis by (intro restart_refuses_denied) simp_all
  next
    case (installed cand)
    let ?d = "kept_denied now cand (load s)" and ?g = "kept_grants now cand (load s)"
    have pruned: "gm_get ?d k = None \<Longrightarrow> gm_get ?g k = None"
      using apply_denials_keeps [OF k, of "lRevision cand" "format_rfc3339 now" "lDenied cand" "lGrants cand"]
      by (auto simp: kept_denied_get [OF ok] split: if_splits)
    have disk: "sDeniedFile s' = Holds (sDenied (load s)) \<or>
      sDeniedFile s' = Holds ?d \<and> sLeaseFile s' = Holds (kept_lease now cand (load s))"
      using installed(5) path old by (auto simp: install_eq Let_def split: if_splits)
    have path': "sPath s' \<noteq> []" using install_state(2) [OF installed(5)] path by simp
    from disk show ?thesis
    proof
      assume "sDeniedFile s' = Holds (sDenied (load s))"
      then show ?thesis using restart_refuses_denied path' k by blast
    next
      assume f: "sDeniedFile s' = Holds ?d \<and> sLeaseFile s' = Holds (kept_lease now cand (load s))"
      show ?thesis
      proof (cases "gm_get ?d k")
        case None
        with f pruned show ?thesis
          by (intro restart_refuses_ungranted [OF path', of "kept_lease now cand (load s)"]) simp_all
      next
        case (Some e)
        with f show ?thesis by (intro restart_refuses_denied [OF path', of ?d]) simp_all
      qed
    qed
  qed
qed

text \<open>C28: Revocation report. A successful installation reports exactly the keys it denies and
  the keys that were granted before and are not granted now, sorted and without duplicates.\<close>

theorem revoked_exact:
  assumes "update_locked now w1 w2 incoming s = (Inr res, h, s')" "rInstalled res"
  shows "\<exists>cand l. incoming = Some cand \<and> sLease s' = Some l \<and>
    sorted (rRevoked res) \<and> distinct (rRevoked res) \<and>
    set (rRevoked res) = set (lDenied cand) \<union>
      {k. (\<exists>cur. sLease (load s) = Some cur \<and> gm_get (lGrants cur) k \<noteq> None) \<and> gm_get (lGrants l) k = None}"
  using assms(1)
proof (cases rule: update_cases)
  case same
  then show ?thesis using assms(2) by (auto simp: no_result_def)
next
  case (installed cand)
  from install_state(4) [OF installed(5)] have
    l: "sLease s' = Some (kept_lease now cand (load s))" and
    r: "rRevoked res = sort (remdups (dropped_keys (sLease (load s)) cand @ lDenied cand))"
    by auto
  show ?thesis
    using installed(1) l
    by (cases "sLease (load s)") (auto simp: r dropped_keys_def kept_grants_get gm_keys_get)
qed

lemma fold_earlier_end_gt: "now < nxt \<Longrightarrow> now < fold (earlier_end now) gs nxt"
  by (induction gs arbitrary: nxt) (simp_all add: earlier_end_def split: option.split)

lemma next_expiry_eq:
  assumes "window l = Some (issued, expires)"
  shows "next_expiry (Some l) now =
    (let nxt = fold (earlier_end now) (lGrants l) expires in if now < nxt then nxt else zero_time)"
  using assms by (simp add: next_expiry_def)

text \<open>C27: Expiry scheduling. For a lease already in force at \<open>now\<close>: strictly before the instant
  \<open>next_expiry\<close> reports, every key gets the answer it gets at \<open>now\<close>, so nothing has to be
  reaped earlier; when the zero time is reported, the lease admits nobody from \<open>now\<close> on.\<close>

theorem next_expiry_stable:
  assumes w: "window l = Some (issued, expires)" "issued \<le> now" and t: "zero_time \<le> now" "now \<le> t"
  shows "if next_expiry (Some l) now = zero_time then \<not> lease_allows (Some l) k t
    else t < next_expiry (Some l) now \<longrightarrow> lease_allows (Some l) k t = lease_allows (Some l) k now"
proof -
  define nxt where "nxt = fold (earlier_end now) (lGrants l) expires"
  have ne: "next_expiry (Some l) now = (if now < nxt then nxt else zero_time)"
    by (simp add: next_expiry_eq [OF w(1)] nxt_def)
  have le: "nxt \<le> expires" by (simp add: nxt_def fold_earlier_end)
  have end_le: "nxt \<le> e" if "gm_get (lGrants l) k = Some raw" "parse_rfc3339 raw = Some e" "now < e" for raw e
    unfolding nxt_def using gm_get_in_set [OF that(1)] that(2,3) by (intro fold_earlier_end(2)) auto
  show ?thesis
  proof (cases "now < nxt")
    case True
    have "lease_allows (Some l) k t = lease_allows (Some l) k now" if "t < nxt"
      using w t le True that end_le unfolding lease_allows_iff by fastforce
    then show ?thesis using ne True t by auto
  next
    case False
    then have "expires \<le> now" using fold_earlier_end_gt [of now expires "lGrants l"] unfolding nxt_def by linarith
    then show ?thesis using ne False w t by (auto simp: lease_allows_iff)
  qed
qed

text \<open>Capacity. When the watermark is full, \<open>deny\<close> of a key that is not on it reports
  success and changes nothing, so a key the lease grants stays admitted.\<close>

theorem deny_full_is_silent:
  assumes "sErr (load s) = None" "max_denied_keys \<le> gm_len (sDenied (load s))"
    "gm_get (sDenied (load s)) k = None"
  shows "deny now w [k] rv s = (None, False, load s)"
  using assms by (simp add: deny_def Let_def)

subsection \<open>Concrete runs\<close>

definition ex_t :: instant where
  "ex_t = secs 1767225630"

definition ex_lease :: lease where
  "ex_lease = \<lparr>lRevision = 7, lSequence = 1, lDigest = ''d7'', lIssuedAt = ''2026-01-01T00:00:00Z'',
     lExpiresAt = ''2026-01-01T00:05:00Z'',
     lGrants = [(''alice'', ''2026-01-01T00:04:00Z''), (''bob'', ''2026-01-01T00:05:00Z'')], lDenied = []\<rparr>"

definition ex_next :: lease where
  "ex_next = ex_lease\<lparr>lRevision := 8, lDigest := ''d8'', lDenied := [''bob'']\<rparr>"

definition ex_store :: store where
  "ex_store = store_run [OpUpdate ex_t WOk WOk (Some ex_lease)] (new_store ''state'' ''boot'' Missing Missing)"

definition ex_denied :: store where
  "ex_denied = store_run [OpDeny ex_t WOk [''alice''] 7] ex_store"

theorem deny_refuses_for_a_lifetime_witness:
  "store_allows ex_store ''alice'' ex_t
   \<and> \<not> store_allows (store_run [OpUpdate (ex_t + secs 60) WOk WOk (Some ex_next)] ex_denied) ''alice'' (ex_t + secs 61)"
proof
  show "store_allows ex_store ''alice'' ex_t" by code_simp
  show "\<not> store_allows (store_run [OpUpdate (ex_t + secs 60) WOk WOk (Some ex_next)] ex_denied) ''alice'' (ex_t + secs 61)"
    by (rule deny_refuses_for_a_lifetime [of ex_store ex_t WOk "[''alice'']" 7 True]; code_simp)
qed

theorem update_never_readmits_witness:
  "\<not> store_allows (snd (snd (update_locked (ex_t + secs 60) WOk WOk (Some ex_next) ex_denied))) ''alice'' (ex_t + secs 61)"
  by (rule update_never_readmits [OF _ _ triple_collapse]; code_simp)


theorem replay_is_unchanged_witness:
  "update_locked ex_t WOk WOk (Some ex_lease) ex_store =
     (Inr (no_result\<lparr>rUnchanged := True\<rparr>), False, load ex_store)"
  by (rule replay_is_unchanged; code_simp)


theorem restart_decides_the_same_witness:
  "store_allows (restart ''boot2'' (load ex_denied)) ''bob'' ex_t = store_allows (load ex_denied) ''bob'' ex_t
    \<and> sLease (load (restart ''boot2'' (load ex_denied))) = sLease (load ex_denied)
    \<and> sDenied (load (restart ''boot2'' (load ex_denied))) = sDenied (load ex_denied)"
  by (rule restart_decides_the_same [of "''state''" "''boot''" Missing Missing
        "[OpUpdate ex_t WOk WOk (Some ex_lease), OpDeny ex_t WOk [''alice''] 7]"]; code_simp)

theorem crashed_update_keeps_denials_witness:
  "\<not> store_allows (restart ''boot2'' (snd (snd (update_locked ex_t WOk WFailOld (Some ex_next) ex_denied))))
      ''alice'' ex_t"
  by (rule crashed_update_keeps_denials [OF _ _ _ _ triple_collapse]; code_simp)

theorem revoked_exact_witness:
  "\<exists>cand l. Some ex_next = Some cand \<and>
      sLease (snd (snd (update_locked ex_t WOk WOk (Some ex_next) ex_store))) = Some l \<and>
    sorted [''bob''] \<and> distinct [''bob''] \<and>
    set [''bob''] = set (lDenied cand) \<union>
      {k. (\<exists>cur. sLease (load ex_store) = Some cur \<and> gm_get (lGrants cur) k \<noteq> None) \<and> gm_get (lGrants l) k = None}"
proof -
  define res where "res = no_result\<lparr>rInstalled := True, rRevoked := [''bob'']\<rparr>"
  have "update_locked ex_t WOk WOk (Some ex_next) ex_store =
      (Inr res, True, snd (snd (update_locked ex_t WOk WOk (Some ex_next) ex_store)))"
    unfolding res_def by code_simp
  from revoked_exact [OF this] show ?thesis by (simp add: res_def)
qed

theorem next_expiry_stable_witness:
  "if next_expiry (Some ex_lease) ex_t = zero_time then \<not> lease_allows (Some ex_lease) ''alice'' (ex_t + secs 100)
    else ex_t + secs 100 < next_expiry (Some ex_lease) ex_t \<longrightarrow>
      lease_allows (Some ex_lease) ''alice'' (ex_t + secs 100) = lease_allows (Some ex_lease) ''alice'' ex_t"
  by (rule next_expiry_stable [of ex_lease "secs 1767225600" "secs 1767225900"]; code_simp)

text \<open>A watermark filled with five-digit keys.\<close>

definition full_store :: store where
  "full_store = \<lparr>sPath = [], sBootID = [], sLoaded = True, sErr = None, sLease = Some ex_lease,
     sDenied = map (\<lambda>i. (digits 5 (int i), \<lparr>eRevision = 1, eAt = []\<rparr>)) [0..<65536],
     sLeaseFile = Missing, sDeniedFile = Missing\<rparr>"

theorem deny_full_is_silent_witness:
  "deny ex_t WOk [''bob''] 9 full_store = (None, False, load full_store)
   \<and> lease_allows (sLease full_store) ''bob'' ex_t"
proof
  have "gm_get (sDenied full_store) ''bob'' = None"
    by (auto simp: full_store_def map_of_eq_None_iff dest: arg_cong [where f = length])
  then show "deny ex_t WOk [''bob''] 9 full_store = (None, False, load full_store)"
    by (intro deny_full_is_silent) (simp_all add: load_def full_store_def max_denied_keys_def gm_len_def)
  show "lease_allows (sLease full_store) ''bob'' ex_t"
    by (simp add: full_store_def) code_simp
qed

end
