(* ===== verification/Netip.thy ===== *)
theory Netip
  imports Prelude
begin

text \<open>
  The part of Go's \<^verbatim>\<open>net/netip\<close> the program uses: addresses, their classes, prefixes
  and their textual form.
\<close>

unbundle bit_operations_syntax

text \<open>\<open>NoAddr\<close> is the zero \<^verbatim>\<open>netip.Addr\<close>; an IPv6 address carries its zone.\<close>

datatype addr = NoAddr | V4 "32 word" | V6 "128 word" string

text \<open>A prefix is an address without zone and a length; the zero \<^verbatim>\<open>netip.Prefix\<close> is \<open>None\<close>.\<close>

type_synonym prefix = "(addr \<times> nat) option"

fun addr_valid :: "addr \<Rightarrow> bool" where
  "addr_valid NoAddr = False"
| "addr_valid _ = True"

fun is4 :: "addr \<Rightarrow> bool" where
  "is4 (V4 _) = True"
| "is4 _ = False"

fun unmap :: "addr \<Rightarrow> addr" where
  "unmap (V6 w z) = (if drop_bit 32 w = 0xFFFF then V4 (ucast w) else V6 w z)"
| "unmap a = a"

definition v4_octet :: "nat \<Rightarrow> 32 word \<Rightarrow> nat" where
  "v4_octet i w = unat (drop_bit (8 * (3 - i)) w AND 0xFF)"

definition v6_group :: "nat \<Rightarrow> 128 word \<Rightarrow> nat" where
  "v6_group i w = unat (drop_bit (16 * (7 - i)) w AND 0xFFFF)"

text \<open>The class predicates look through an IPv4-mapped address.\<close>

definition is_private :: "addr \<Rightarrow> bool" where
  "is_private a = (case unmap a of
       NoAddr \<Rightarrow> False
     | V4 w \<Rightarrow> v4_octet 0 w = 10 \<or> v4_octet 0 w = 172 \<and> v4_octet 1 w div 16 = 1
               \<or> v4_octet 0 w = 192 \<and> v4_octet 1 w = 168
     | V6 w _ \<Rightarrow> v6_group 0 w div 512 = 0x7E)"

definition is_loopback :: "addr \<Rightarrow> bool" where
  "is_loopback a = (case unmap a of NoAddr \<Rightarrow> False | V4 w \<Rightarrow> v4_octet 0 w = 127 | V6 w _ \<Rightarrow> w = 1)"

definition is_unspecified :: "addr \<Rightarrow> bool" where
  "is_unspecified a \<longleftrightarrow> a = V4 0 \<or> a = V6 0 []"

definition is_multicast :: "addr \<Rightarrow> bool" where
  "is_multicast a = (case unmap a of NoAddr \<Rightarrow> False
     | V4 w \<Rightarrow> v4_octet 0 w div 16 = 0xE | V6 w _ \<Rightarrow> v6_group 0 w div 256 = 0xFF)"

definition is_link_local_unicast :: "addr \<Rightarrow> bool" where
  "is_link_local_unicast a = (case unmap a of NoAddr \<Rightarrow> False
     | V4 w \<Rightarrow> v4_octet 0 w = 169 \<and> v4_octet 1 w = 254
     | V6 w _ \<Rightarrow> v6_group 0 w div 64 = 0x3FA)"

text \<open>\<^verbatim>\<open>netip.PrefixFrom(a, bits).Masked()\<close> for a length within the address.\<close>

fun masked_prefix :: "addr \<Rightarrow> nat \<Rightarrow> prefix" where
  "masked_prefix NoAddr n = None"
| "masked_prefix (V4 w) n =
     (if 32 < n then None else Some (V4 (push_bit (32 - n) (drop_bit (32 - n) w)), n))"
| "masked_prefix (V6 w z) n =
     (if 128 < n then None else Some (V6 (push_bit (128 - n) (drop_bit (128 - n) w)) [], n))"

subsection \<open>Textual form\<close>

definition hex_char :: "nat \<Rightarrow> char" where
  "hex_char n = (if n < 10 then digit_char n else char_of (87 + n))"

fun to_base :: "nat \<Rightarrow> nat \<Rightarrow> nat \<Rightarrow> nat list" where
  "to_base 0 b n = [n mod b]"
| "to_base (Suc fuel) b n = (if n < b then [n] else to_base fuel b (n div b) @ [n mod b])"

text \<open>Decimal octets and hexadecimal groups have at most five digits.\<close>

definition decimal :: "nat \<Rightarrow> string" where
  "decimal n = map digit_char (to_base 20 10 n)"

definition hexadecimal :: "nat \<Rightarrow> string" where
  "hexadecimal n = map hex_char (to_base 4 16 n)"

definition v4_string :: "32 word \<Rightarrow> string" where
  "v4_string w = decimal (v4_octet 0 w) @ ''.'' @ decimal (v4_octet 1 w) @ ''.'' @
     decimal (v4_octet 2 w) @ ''.'' @ decimal (v4_octet 3 w)"

fun zero_run :: "nat list \<Rightarrow> nat" where
  "zero_run [] = 0"
| "zero_run (g # gs) = (if g = 0 then Suc (zero_run gs) else 0)"

text \<open>Start and length of the first longest run of at least two zero groups.\<close>

definition best_run :: "nat list \<Rightarrow> (nat \<times> nat) option" where
  "best_run gs = fold (\<lambda>i best.
       let l = zero_run (drop i gs) in
       if 2 \<le> l \<and> (case best of None \<Rightarrow> True | Some (_, m) \<Rightarrow> m < l) then Some (i, l) else best)
     [0..<length gs] None"

fun join :: "string \<Rightarrow> string list \<Rightarrow> string" where
  "join sep [] = []"
| "join sep [x] = x"
| "join sep (x # y # ys) = x @ sep @ join sep (y # ys)"

definition v6_string :: "128 word \<Rightarrow> string" where
  "v6_string w = (let gs = map (\<lambda>i. v6_group i w) [0..<8]; hs = map hexadecimal gs in
     case best_run gs of
       None \<Rightarrow> join '':'' hs
     | Some (i, l) \<Rightarrow> join '':'' (take i hs) @ ''::'' @ join '':'' (drop (i + l) hs))"

fun addr_string :: "addr \<Rightarrow> string" where
  "addr_string NoAddr = ''invalid IP''"
| "addr_string (V4 w) = v4_string w"
| "addr_string (V6 w z) =
     (if drop_bit 32 w = 0xFFFF then ''::ffff:'' @ v4_string (ucast w) else v6_string w)
     @ (if z = [] then [] else ''%'' @ z)"

definition prefix_string :: "prefix \<Rightarrow> string" where
  "prefix_string p = (case p of None \<Rightarrow> ''invalid Prefix''
     | Some (a, n) \<Rightarrow> addr_string a @ ''/'' @ decimal n)"

text \<open>Masking is idempotent: the prefix of a masked address is the address itself.\<close>

lemma mask_word_idem:
  "push_bit n (drop_bit n (push_bit n (drop_bit n w))) = push_bit n (drop_bit n (w :: 'a::len word))"
  by (rule bit_word_eqI) (auto simp: bit_simps)

lemma masked_prefix_idem:
  "masked_prefix a n = Some (b, k) \<Longrightarrow> masked_prefix b k = Some (b, k)"
  by (cases a) (auto simp: mask_word_idem split: if_splits)

lemma unmap_idem [simp]: "unmap (unmap a) = unmap a"
  by (cases a) auto

end
