(* ===== verification/Activity.thy ===== *)
theory Activity
  imports GoTime Netip "HOL-Library.Product_Lexorder"
begin

text \<open>
  Per-minute business activity (\<^verbatim>\<open>internal/activity\<close>, with the wire types of
  \<^verbatim>\<open>internal/auditwire\<close>): a collector of three minute slots with bounded buckets, and the
  delivery of one completed minute at a time, kept until it is acknowledged. The methods
  hold the collector's mutex, so each is one function. Seconds are integers; the random
  boot identity and the clock are arguments.
\<close>

subsection \<open>Identities and counters\<close>

definition Capacity :: nat where "Capacity = 4096"
definition PerAccountCapacity :: int where "PerAccountCapacity = 32"
definition RetainedMinutes :: int where "RetainedMinutes = 3"

record identity =
  iUser :: int
  iInbound :: int
  iPath :: int
  iSource :: prefix

definition bind_identity :: "int \<Rightarrow> int \<Rightarrow> int \<Rightarrow> addr \<Rightarrow> identity" where
  "bind_identity user inbound path source0 =
     (let source = unmap source0;
          none = \<lparr>iUser = user, iInbound = inbound, iPath = path, iSource = None\<rparr> in
      if \<not> addr_valid source \<or> is_private source \<or> is_loopback source \<or> is_unspecified source
         \<or> is_multicast source \<or> is_link_local_unicast source
      then none
      else none\<lparr>iSource := masked_prefix source (if is4 source then 24 else 56)\<rparr>)"

record counters =
  cBits :: "16 word"
  cUpload :: "64 word"
  cDownload :: "64 word"

definition no_counters :: counters where
  "no_counters = \<lparr>cBits = 0, cUpload = 0, cDownload = 0\<rparr>"

definition sat_add :: "64 word \<Rightarrow> 64 word \<Rightarrow> 64 word" where
  "sat_add a b = (if - 1 - a < b then - 1 else a + b)"

text \<open>\<open>mBuckets = None\<close> is the nil map of an unused slot.\<close>

record minute =
  mAt :: int
  mBuckets :: "(identity, counters) gomap option"
  mAccounts :: "(int, int) gomap"
  mDropped :: "64 word"
  mUnknown :: "64 word"
  mDirty :: bool

definition zero_minute :: minute where
  "zero_minute = \<lparr>mAt = 0, mBuckets = None, mAccounts = [], mDropped = 0, mUnknown = 0, mDirty = False\<rparr>"

definition fresh_minute :: "int \<Rightarrow> minute" where
  "fresh_minute at = zero_minute\<lparr>mAt := at, mBuckets := Some []\<rparr>"

subsection \<open>Wire types\<close>

record item =
  wUser :: int
  wInbound :: int
  wPath :: int
  wSource :: string
  wBits :: "16 word"
  wUpload :: "64 word"
  wDownload :: "64 word"

datatype clock_state = ClockUnknown | ClockAligned | ClockUnaligned

record report =
  pBoot :: string
  pStartedAt :: int
  pStream :: string
  pSequence :: "64 word"
  pMinute :: int
  pClock :: clock_state
  pComplete :: bool
  pDropped :: "64 word"
  pUnknown :: "64 word"
  pItems :: "item list"

record delivery_state =
  dBoot :: string
  dGeneration :: int
  dSequence :: "64 word"
  dNext :: int
  dPending :: "report option"
  dStarted :: int

definition no_delivery :: delivery_state where
  "no_delivery = \<lparr>dBoot = [], dGeneration = 0, dSequence = 0, dNext = 0, dPending = None, dStarted = 0\<rparr>"

record collector =
  kEnabled :: bool
  kLatest :: int
  kSlots :: "minute list"
  kUnalignedUntil :: int
  kDelivery :: delivery_state
  kClockSince :: int
  kClockUntil :: int

definition new_collector :: collector where
  "new_collector = \<lparr>kEnabled = False, kLatest = 0, kSlots = replicate 3 zero_minute,
     kUnalignedUntil = 0, kDelivery = no_delivery, kClockSince = 0, kClockUntil = 0\<rparr>"

definition SetEnabled :: "bool \<Rightarrow> collector \<Rightarrow> collector" where
  "SetEnabled on c = (if on then c\<lparr>kEnabled := True\<rparr> else new_collector)"

subsection \<open>Recording\<close>

definition minute_of :: "int \<Rightarrow> int" where
  "minute_of unix = quo unix 60 * 60"

definition slot_of :: "int \<Rightarrow> nat" where
  "slot_of at = nat (rem (quo at 60) RetainedMinutes)"

definition account_count :: "minute \<Rightarrow> int \<Rightarrow> int" where
  "account_count s user = (case gm_get (mAccounts s) user of None \<Rightarrow> 0 | Some n \<Rightarrow> n)"

definition bump :: "int \<Rightarrow> int \<Rightarrow> 64 word \<Rightarrow> 64 word \<Rightarrow> counters \<Rightarrow> counters" where
  "bump unix at upload download b = b\<lparr>
     cBits := cBits b OR push_bit (nat (quo (unix - at) 5)) 1,
     cUpload := sat_add (cUpload b) upload,
     cDownload := sat_add (cDownload b) download\<rparr>"

text \<open>The tail of \<^verbatim>\<open>Record\<close>, on the slot of the payload's minute.\<close>

definition record_slot :: "identity \<Rightarrow> int \<Rightarrow> int \<Rightarrow> 64 word \<Rightarrow> 64 word \<Rightarrow> minute \<Rightarrow> minute" where
  "record_slot ident unix at upload download s =
     (if iSource ident = None then s\<lparr>mUnknown := sat_add (mUnknown s) 1\<rparr>
      else let buckets = (case mBuckets s of None \<Rightarrow> [] | Some m \<Rightarrow> m) in
        case gm_get buckets ident of
          Some b \<Rightarrow> s\<lparr>mBuckets := Some (gm_put ident (bump unix at upload download b) buckets)\<rparr>
        | None \<Rightarrow>
            if Capacity \<le> gm_len buckets \<or> PerAccountCapacity \<le> account_count s (iUser ident)
            then s\<lparr>mDropped := sat_add (mDropped s) 1\<rparr>
            else s\<lparr>mAccounts := gm_put (iUser ident) (account_count s (iUser ident) + 1) (mAccounts s),
                   mBuckets := Some (gm_put ident (bump unix at upload download no_counters) buckets)\<rparr>)"

definition Record :: "identity \<Rightarrow> int \<Rightarrow> 64 word \<Rightarrow> 64 word \<Rightarrow> collector \<Rightarrow> collector" where
  "Record ident unix upload download c =
     (if iUser ident \<le> 0 \<or> upload = 0 \<and> download = 0 then c
      else if \<not> kEnabled c then c
      else if unix < 0 then c\<lparr>kUnalignedUntil := kLatest c + RetainedMinutes * 60\<rparr>
      else let at = minute_of unix in
        if RetainedMinutes * 60 \<le> kLatest c - at
        then c\<lparr>kUnalignedUntil := kLatest c + RetainedMinutes * 60\<rparr>
        else
          let i = slot_of at;
              s0 = kSlots c ! i;
              s1 = (if mBuckets s0 = None \<or> mAt s0 \<noteq> at then fresh_minute at else s0);
              s2 = (if dBoot (kDelivery c) \<noteq> [] \<and> at < dNext (kDelivery c) then s1\<lparr>mDirty := True\<rparr> else s1)
          in c\<lparr>kLatest := max (kLatest c) at,
               kSlots := (kSlots c)[i := record_slot ident unix at upload download s2]\<rparr>)"

record bucket =
  bIdentity :: identity
  bMinute :: int
  bCounters :: counters

record activity_snapshot =
  nBuckets :: "bucket list"
  nDropped :: "64 word"
  nUnknown :: "64 word"
  nUnaligned :: bool

definition add_slot :: "int \<Rightarrow> minute \<Rightarrow> activity_snapshot \<Rightarrow> activity_snapshot" where
  "add_slot at s out = (case mBuckets s of None \<Rightarrow> out
     | Some m \<Rightarrow>
        if at < mAt s \<or> RetainedMinutes * 60 \<le> at - mAt s then out
        else out\<lparr>nDropped := sat_add (nDropped out) (mDropped s),
                 nUnknown := sat_add (nUnknown out) (mUnknown s),
                 nBuckets := nBuckets out @ map (\<lambda>(ident, b). \<lparr>bIdentity = ident, bMinute = mAt s, bCounters = b\<rparr>) m\<rparr>)"

definition Snapshot :: "int \<Rightarrow> collector \<Rightarrow> activity_snapshot" where
  "Snapshot unix c =
     (let out = \<lparr>nBuckets = [], nDropped = 0, nUnknown = 0, nUnaligned = unix < kUnalignedUntil c\<rparr> in
      if \<not> kEnabled c then out else fold (add_slot (minute_of unix)) (kSlots c) out)"

subsection \<open>Delivery\<close>

definition max_int64 :: "64 word" where
  "max_int64 = 0x7FFFFFFFFFFFFFFF"

definition clip :: "64 word \<Rightarrow> 64 word" where
  "clip x = (if max_int64 < x then max_int64 else x)"

definition clipped :: "64 word \<Rightarrow> 64 word \<Rightarrow> 64 word" where
  "clipped x dropped = (if max_int64 < x then sat_add dropped 1 else dropped)"

fun add_items :: "(identity, counters) gomap \<Rightarrow> 64 word \<Rightarrow> item list \<Rightarrow> 64 word \<times> item list" where
  "add_items [] dropped items = (dropped, items)"
| "add_items ((ident, b) # m) dropped items =
     add_items m (clipped (cDownload b) (clipped (cUpload b) dropped))
       (items @ [\<lparr>wUser = iUser ident, wInbound = iInbound ident, wPath = iPath ident,
                  wSource = prefix_string (iSource ident), wBits = cBits b,
                  wUpload = clip (cUpload b), wDownload = clip (cDownload b)\<rparr>])"

definition item_key :: "item \<Rightarrow> int \<times> int \<times> int \<times> string" where
  "item_key w = (wUser w, wInbound w, wPath w, wSource w)"

text \<open>The earliest dirty minute before the next scheduled one, if there is any.\<close>

fun pick_minute :: "int \<Rightarrow> minute list \<Rightarrow> int \<times> bool \<Rightarrow> int \<times> bool" where
  "pick_minute end [] best = best"
| "pick_minute end (s # ss) (at, correction) =
     pick_minute end ss (if mDirty s \<and> mAt s \<le> end \<and> mAt s < at then (mAt s, True) else (at, correction))"

definition start_delivery :: "instant \<Rightarrow> string \<Rightarrow> int \<Rightarrow> delivery_state \<Rightarrow> delivery_state" where
  "start_delivery now boot unix d = (if dBoot d \<noteq> [] then d else
     d\<lparr>dBoot := boot, dGeneration := i64 now, dNext := minute_of unix - 120,
       dStarted := minute_of (unix + 59)\<rparr>)"

definition clock_label :: "int \<Rightarrow> int \<Rightarrow> collector \<Rightarrow> clock_state" where
  "clock_label unix at c =
     (if unix < kUnalignedUntil c \<or> minute_of unix < kLatest c then ClockUnaligned
      else if 0 < kClockSince c \<and> kClockSince c \<le> at \<and> at + 60 \<le> kClockUntil c then ClockAligned
      else ClockUnknown)"

text \<open>Freezing the minute \<open>at\<close> into a report.\<close>

definition freeze :: "int \<Rightarrow> string \<Rightarrow> int \<Rightarrow> int \<Rightarrow> bool \<Rightarrow> collector \<Rightarrow> report \<times> collector" where
  "freeze unix stream end at correction c =
     (let d = kDelivery c;
          stale = (RetainedMinutes * 60 \<le> end - at);
          clock = clock_label unix at c;
          i = slot_of at;
          s = kSlots c ! i;
          dropped0 = (if stale then 1 else 0);
          (dropped, items) = (if mAt s = at
             then add_items (case mBuckets s of None \<Rightarrow> [] | Some m \<Rightarrow> m) (sat_add dropped0 (mDropped s)) []
             else (dropped0, []));
          unknown = (if mAt s = at then mUnknown s else 0);
          r = \<lparr>pBoot = dBoot d, pStartedAt = dGeneration d, pStream = stream,
               pSequence = dSequence d + 1, pMinute = at, pClock = clock,
               pComplete = (dStarted d \<le> at \<and> clock \<noteq> ClockUnaligned \<and> \<not> stale \<and> dropped = 0 \<and> unknown = 0),
               pDropped = dropped, pUnknown = unknown, pItems = sort_key item_key items\<rparr>;
          d' = d\<lparr>dSequence := dSequence d + 1,
                 dNext := (if stale then end else if correction then dNext d else dNext d + 60),
                 dPending := Some r\<rparr>
      in (r, c\<lparr>kDelivery := d',
               kSlots := (if mAt s = at then (kSlots c)[i := s\<lparr>mDirty := False\<rparr>] else kSlots c)\<rparr>))"

text \<open>\<^verbatim>\<open>Collector.Read\<close>; \<open>rnd = None\<close> is a failing random source.\<close>

definition Read :: "instant \<Rightarrow> string option \<Rightarrow> string \<Rightarrow> collector \<Rightarrow> report option \<times> collector" where
  "Read now rnd stream c =
     (let unix = unix_of now in
      if \<not> kEnabled c \<or> unix < 120 then (None, c)
      else if dBoot (kDelivery c) = [] \<and> rnd = None then (None, c)
      else
        let c = c\<lparr>kDelivery := start_delivery now (case rnd of None \<Rightarrow> [] | Some b \<Rightarrow> b) unix (kDelivery c)\<rparr>;
            d = kDelivery c in
        case dPending d of
          Some r \<Rightarrow> (Some r, c)
        | None \<Rightarrow>
            let end = minute_of unix - 120;
                (at, correction) = pick_minute end (kSlots c) (dNext d, False) in
            if end < at then (None, c)
            else (case freeze unix stream end at correction c of (r, c) \<Rightarrow> (Some r, c)))"

definition AlignClock :: "int \<Rightarrow> bool \<Rightarrow> collector \<Rightarrow> collector" where
  "AlignClock unix aligned c =
     (if \<not> aligned then c\<lparr>kClockSince := 0, kClockUntil := 0\<rparr>
      else c\<lparr>kClockSince := (if kClockUntil c < unix \<or> kClockSince c = 0 then unix else kClockSince c),
             kClockUntil := unix + 45\<rparr>)"

definition Ack :: "string \<Rightarrow> 64 word \<Rightarrow> collector \<Rightarrow> bool \<times> collector" where
  "Ack boot sequence c = (case dPending (kDelivery c) of
       None \<Rightarrow> (False, c)
     | Some r \<Rightarrow>
         if dBoot (kDelivery c) \<noteq> boot \<or> pSequence r \<noteq> sequence then (False, c)
         else (True, c\<lparr>kDelivery := (kDelivery c)\<lparr>dPending := None\<rparr>\<rparr>))"

subsection \<open>Saturating counters\<close>

lemma unat_sat_add: "unat (sat_add a b) = min (2 ^ 64 - 1) (unat a + unat b)"
proof -
  have max64: "unat (- 1 :: 64 word) = 2 ^ 64 - 1" by (simp add: unsigned_minus_1_eq_mask mask_eq_exp_minus_1)
  have "unat a < 2 ^ LENGTH(64)" by (rule unsigned_less)
  then have le: "unat a \<le> 2 ^ 64 - 1" by simp
  have "unat (- 1 - a) = 2 ^ 64 - 1 - unat a"
    by (simp add: unat_sub max64)
  then have "- 1 - a < b \<longleftrightarrow> 2 ^ 64 - 1 < unat a + unat b"
    using le by (simp add: word_less_nat_alt) linarith
  then show ?thesis
    by (auto simp: sat_add_def max64 min_def unat_word_ariths not_less)
qed

lemma sat_add_nonzero: "sat_add x 1 \<noteq> 0"
  using unat_sat_add [of x 1] by (auto simp: unat_eq_0 [symmetric] simp del: unat_eq_0)

lemma sat_add_eq_0: "sat_add a b = 0 \<longleftrightarrow> a = 0 \<and> b = 0"
proof -
  have "sat_add a b = 0 \<longleftrightarrow> unat a + unat b = 0"
    using unat_sat_add [of a b] by (simp add: unat_eq_0 [symmetric] min_def split: if_splits del: unat_eq_0) linarith
  then show ?thesis by (simp add: unat_eq_0)
qed

lemma clipped_eq_0: "clipped x d = 0 \<Longrightarrow> d = 0 \<and> clip x = x"
  by (auto simp: clipped_def clip_def sat_add_nonzero split: if_splits)

definition exact_item :: "identity \<times> counters \<Rightarrow> item" where
  "exact_item g = (case g of (ident, b) \<Rightarrow>
     \<lparr>wUser = iUser ident, wInbound = iInbound ident, wPath = iPath ident,
      wSource = prefix_string (iSource ident), wBits = cBits b, wUpload = cUpload b, wDownload = cDownload b\<rparr>)"

lemma add_items_exact:
  "add_items m d items = (0, out) \<Longrightarrow> d = 0 \<and> out = items @ map exact_item m"
proof (induction m d items rule: add_items.induct)
  case (2 ident b m d items)
  from 2 have "clipped (cDownload b) (clipped (cUpload b) d) = 0" by simp
  then have "d = 0" "clip (cUpload b) = cUpload b" "clip (cDownload b) = cDownload b"
    using clipped_eq_0 by blast+
  with 2 show ?case by (simp add: exact_item_def)
qed simp

subsection \<open>The invariant\<close>

definition user_buckets :: "int \<Rightarrow> (identity, counters) gomap \<Rightarrow> int" where
  "user_buckets u m = int (length (filter (\<lambda>g. iUser (fst g) = u) m))"

definition minute_ok :: "nat \<Rightarrow> minute \<Rightarrow> bool" where
  "minute_ok i s = (case mBuckets s of
       None \<Rightarrow> True
     | Some m \<Rightarrow> gm_wf m \<and> gm_len m \<le> Capacity \<and> 0 \<le> mAt s \<and> mAt s mod 60 = 0 \<and> slot_of (mAt s) = i \<and>
         (\<forall>u. account_count s u = user_buckets u m \<and> user_buckets u m \<le> PerAccountCapacity) \<and>
         (\<forall>g \<in> set m. iSource (fst g) \<noteq> None \<and> unat (cBits (snd g)) < 2 ^ 12))"

definition collector_ok :: "collector \<Rightarrow> bool" where
  "collector_ok c \<longleftrightarrow> length (kSlots c) = 3 \<and> (\<forall>i < 3. minute_ok i (kSlots c ! i))"

lemma minute_of_props:
  "0 \<le> unix \<Longrightarrow> 0 \<le> minute_of unix" "0 \<le> unix \<Longrightarrow> minute_of unix mod 60 = 0"
  "0 \<le> unix \<Longrightarrow> minute_of unix \<le> unix" "0 \<le> unix \<Longrightarrow> unix < minute_of unix + 60"
  by (simp_all add: minute_of_def)

lemma slot_of_less: "slot_of at < 3" if "0 \<le> at"
  using that by (simp add: slot_of_def RetainedMinutes_def)

lemma user_buckets_put:
  "user_buckets u (gm_put k v m) =
     user_buckets u m + (if gm_get m k = None \<and> iUser k = u then 1 else 0)"
  by (induction k v m rule: gm_put.induct) (auto simp: user_buckets_def)

lemma account_count_put:
  "account_count (s\<lparr>mAccounts := gm_put u n (mAccounts s), mBuckets := b\<rparr>) v = (if v = u then n else account_count s v)"
  by (simp add: account_count_def)

lemma bump_bits:
  assumes "0 \<le> unix" "unat (cBits b) < 2 ^ 12"
  shows "unat (cBits (bump unix (minute_of unix) up dn b)) < 2 ^ 12"
proof -
  let ?n = "nat (quo (unix - minute_of unix) 5)"
  have n: "?n < 12" using minute_of_props(3,4) [OF assms(1)] by simp
  have "2 ^ ?n < (2 :: nat) ^ 12" using n by (intro power_strict_increasing) auto
  moreover have "unat (push_bit ?n (1 :: 16 word)) \<le> push_bit ?n 1"
    unfolding unsigned_push_bit_eq unsigned_1 by (rule take_bit_nat_less_eq_self)
  ultimately have bit: "unat (push_bit ?n (1 :: 16 word)) < 2 ^ 12" by simp
  have "take_bit 12 (unat (cBits b OR push_bit ?n 1)) = unat (cBits b OR push_bit ?n 1)"
    unfolding unsigned_or_eq take_bit_or take_bit_nat_eq_self [OF assms(2)] take_bit_nat_eq_self [OF bit] ..
  then show ?thesis by (simp add: bump_def take_bit_nat_eq_self_iff)
qed


lemma record_slot_ok:
  assumes ok: "minute_ok i s" and unix: "0 \<le> unix" and at: "mAt s = minute_of unix"
    and b: "mBuckets s = Some m"
  shows "minute_ok i (record_slot ident unix (minute_of unix) up dn s)"
proof (cases "iSource ident = None")
  case True
  then show ?thesis using ok by (simp add: record_slot_def minute_ok_def account_count_def b)
next
  case src: False
  have m: "gm_wf m" "gm_len m \<le> Capacity"
    "\<And>u. account_count s u = user_buckets u m" "\<And>u. user_buckets u m \<le> PerAccountCapacity"
    "\<And>g. g \<in> set m \<Longrightarrow> iSource (fst g) \<noteq> None \<and> unat (cBits (snd g)) < 2 ^ 12"
    using ok b by (auto simp: minute_ok_def)
  have put: "iSource (fst g) \<noteq> None \<and> unat (cBits (snd g)) < 2 ^ 12"
    if "unat (cBits b) < 2 ^ 12" "g \<in> set (gm_put ident (bump unix (minute_of unix) up dn b) m)" for b g
  proof -
    from that(2) set_gm_put [of ident _ m] consider "g = (ident, bump unix (minute_of unix) up dn b)" | "g \<in> set m"
      by blast
    then show ?thesis by cases (use src bump_bits [OF unix that(1)] m(5) in simp_all)
  qed
  show ?thesis
  proof (cases "gm_get m ident")
    case (Some c)
    then have "unat (cBits c) < 2 ^ 12" using m(5) [OF gm_get_in_set] by simp
    from put [OF this] show ?thesis
      using ok m(1) Some src
      by (auto simp: minute_ok_def record_slot_def b account_count_def user_buckets_put gm_wf_put gm_len_put)
  next
    case None
    have "unat (cBits no_counters) < 2 ^ 12" by (simp add: no_counters_def)
    from put [OF this] show ?thesis
      using ok m(1-4) None src
      by (auto simp: minute_ok_def record_slot_def b account_count_put user_buckets_put gm_wf_put gm_len_put)
        (auto simp: account_count_def)
  qed
qed

lemma fresh_minute_ok: "0 \<le> unix \<Longrightarrow> minute_ok (slot_of (minute_of unix)) (fresh_minute (minute_of unix))"
  by (simp add: minute_ok_def fresh_minute_def zero_minute_def minute_of_props gm_len_def
      account_count_def user_buckets_def PerAccountCapacity_def)

lemma minute_ok_dirty [simp]: "minute_ok i (s\<lparr>mDirty := b\<rparr>) = minute_ok i s"
  by (cases "mBuckets s") (simp_all add: minute_ok_def account_count_def)

lemma slots_update_ok:
  "collector_ok c \<Longrightarrow> i < 3 \<Longrightarrow> minute_ok i s \<Longrightarrow> kSlots c' = (kSlots c)[i := s] \<Longrightarrow> collector_ok c'"
  by (auto simp: collector_ok_def nth_list_update)

lemma Record_ok:
  assumes ok: "collector_ok c"
  shows "collector_ok (Record ident unix up dn c)"
proof (cases "iUser ident \<le> 0 \<or> up = 0 \<and> dn = 0 \<or> \<not> kEnabled c \<or> unix < 0 \<or>
    RetainedMinutes * 60 \<le> kLatest c - minute_of unix")
  case True
  then show ?thesis using ok by (auto simp: Record_def collector_ok_def Let_def)
next
  case False
  define s0 where "s0 = kSlots c ! slot_of (minute_of unix)"
  define s1 where "s1 = (if mBuckets s0 = None \<or> mAt s0 \<noteq> minute_of unix then fresh_minute (minute_of unix) else s0)"
  define s2 where "s2 = (if dBoot (kDelivery c) \<noteq> [] \<and> minute_of unix < dNext (kDelivery c)
      then s1\<lparr>mDirty := True\<rparr> else s1)"
  have unix: "0 \<le> unix" using False by simp
  have i: "slot_of (minute_of unix) < 3" using slot_of_less minute_of_props(1) [OF unix] .
  then have "minute_ok (slot_of (minute_of unix)) s0" using ok by (simp add: collector_ok_def s0_def)
  then have "minute_ok (slot_of (minute_of unix)) s2"
    using fresh_minute_ok [OF unix] by (simp add: s1_def s2_def)
  moreover have "mAt s2 = minute_of unix" "\<exists>m. mBuckets s2 = Some m"
    by (auto simp: s2_def s1_def fresh_minute_def)
  ultimately have "minute_ok (slot_of (minute_of unix)) (record_slot ident unix (minute_of unix) up dn s2)"
    using record_slot_ok [OF _ unix] by blast
  from slots_update_ok [OF ok i this] show ?thesis
    using False by (auto simp: Record_def Let_def s0_def s1_def s2_def)
qed

lemma new_collector_ok: "collector_ok new_collector"
  by (simp add: collector_ok_def new_collector_def minute_ok_def zero_minute_def nth_Cons' numeral_3_eq_3)

lemma pick_minute_slot:
  "pick_minute end ss (at, c) = (at', c') \<Longrightarrow> at' \<le> at \<and> (at' = at \<or> (\<exists>s \<in> set ss. at' = mAt s \<and> mDirty s \<and> at' \<le> end))"
  by (induction ss arbitrary: at c) (fastforce split: if_splits)+

lemma freeze_ok: "collector_ok c \<Longrightarrow> collector_ok (snd (freeze unix stream end at cor c))"
  by (cases "slot_of at < 3")
    (auto simp: freeze_def Let_def split_beta collector_ok_def nth_list_update)

lemma Read_ok: "collector_ok c \<Longrightarrow> collector_ok (snd (Read now rnd stream c))"
proof -
  assume ok: "collector_ok c"
  have "collector_ok (c\<lparr>kDelivery := d\<rparr>)" for d using ok by (simp add: collector_ok_def)
  then show ?thesis
    using ok freeze_ok
    by (auto simp: Read_def Let_def split_beta split: option.splits)
qed

lemma Ack_ok:
  "collector_ok c \<Longrightarrow> collector_ok (snd (Ack boot sequence c))"
  "collector_ok c \<Longrightarrow> collector_ok (AlignClock unix aligned c)"
  by (auto simp: Ack_def AlignClock_def collector_ok_def split: option.split)

lemma SetEnabled_ok: "collector_ok c \<Longrightarrow> collector_ok (SetEnabled on c)"
  using new_collector_ok by (simp add: SetEnabled_def collector_ok_def)

text \<open>A history of the collector.\<close>

datatype activity_op =
  ORecord identity int "64 word" "64 word"
| ORead instant "string option" string
| OAck string "64 word"
| OAlign int bool
| OEnable bool

fun activity_step :: "activity_op \<Rightarrow> collector \<Rightarrow> collector" where
  "activity_step (ORecord ident unix up dn) c = Record ident unix up dn c"
| "activity_step (ORead now rnd stream) c = snd (Read now rnd stream c)"
| "activity_step (OAck boot sequence) c = snd (Ack boot sequence c)"
| "activity_step (OAlign unix aligned) c = AlignClock unix aligned c"
| "activity_step (OEnable on) c = SetEnabled on c"

definition activity_run :: "activity_op list \<Rightarrow> collector \<Rightarrow> collector" where
  "activity_run ops c = fold activity_step ops c"

lemma activity_run_simps [simp]:
  "activity_run [] c = c" "activity_run (op # ops) c = activity_run ops (activity_step op c)"
  by (simp_all add: activity_run_def)

lemma activity_step_ok: "collector_ok c \<Longrightarrow> collector_ok (activity_step op c)"
  by (cases op) (simp_all add: Record_ok Read_ok Ack_ok SetEnabled_ok)

lemma activity_run_ok: "collector_ok c \<Longrightarrow> collector_ok (activity_run ops c)"
  by (induction ops arbitrary: c) (simp_all add: activity_step_ok)

subsection \<open>Properties of the collector\<close>

text \<open>C22: Bounded memory. After any history every minute slot holds at most \<open>Capacity\<close> buckets, at
  most \<open>PerAccountCapacity\<close> for one user (the per-account counters are exact), every bucket
  belongs to a known source, and its activity bits lie in the twelve five-second slices.\<close>

theorem collector_bounded:
  "collector_ok (activity_run ops new_collector)"
  by (rule activity_run_ok [OF new_collector_ok])

lemma Record_hit:
  assumes "kEnabled c" "0 < iUser ident" "up \<noteq> 0 \<or> dn \<noteq> 0" "0 \<le> unix" "iSource ident \<noteq> None"
    "kLatest c - minute_of unix < RetainedMinutes * 60"
    "s = kSlots c ! slot_of (minute_of unix)" "mAt s = minute_of unix" "mBuckets s = Some m"
    "gm_get m ident = Some b" "length (kSlots c) = 3"
  shows "mBuckets (kSlots (Record ident unix up dn c) ! slot_of (minute_of unix)) =
      Some (gm_put ident (bump unix (minute_of unix) up dn b) m)"
    and "mAt (kSlots (Record ident unix up dn c) ! slot_of (minute_of unix)) = minute_of unix"
    and "kEnabled (Record ident unix up dn c)"
    and "kLatest (Record ident unix up dn c) = max (kLatest c) (minute_of unix)"
    and "length (kSlots (Record ident unix up dn c)) = 3"
  using assms slot_of_less [OF minute_of_props(1)] by (auto simp: Record_def Let_def record_slot_def)

text \<open>The buckets of a minute.\<close>

definition buckets_at :: "int \<Rightarrow> collector \<Rightarrow> (identity, counters) gomap" where
  "buckets_at at c = (let s = kSlots c ! slot_of at in
     if mAt s = at then (case mBuckets s of None \<Rightarrow> [] | Some m \<Rightarrow> m) else [])"

lemma buckets_at_hit:
  "gm_get (buckets_at at c) ident = Some b \<longleftrightarrow>
     mAt (kSlots c ! slot_of at) = at \<and> (\<exists>m. mBuckets (kSlots c ! slot_of at) = Some m \<and> gm_get m ident = Some b)"
  by (auto simp: buckets_at_def Let_def split: option.splits)

text \<open>C21: Metering. A sequence of payloads of one identity in one minute adds up: the counters of
  the identity's bucket become the earlier values plus the sum of the payloads, capped at the
  largest 64-bit value and never wrapped, and no other bucket of the minute changes.\<close>

theorem recorded_bytes_add_up:
  assumes "kEnabled c" "length (kSlots c) = 3" "0 < iUser ident" "iSource ident \<noteq> None"
    "kLatest c - at < RetainedMinutes * 60"
    "list_all (\<lambda>(unix, up, dn). 0 \<le> unix \<and> minute_of unix = at \<and> (up \<noteq> 0 \<or> dn \<noteq> 0)) ps"
    "gm_get (buckets_at at c) ident = Some b"
  shows "\<exists>b'. gm_get (buckets_at at (fold (\<lambda>(unix, up, dn). Record ident unix up dn) ps c)) ident = Some b' \<and>
      unat (cUpload b') = min (2 ^ 64 - 1) (unat (cUpload b) + sum_list (map (\<lambda>(_, up, _). unat up) ps)) \<and>
      unat (cDownload b') = min (2 ^ 64 - 1) (unat (cDownload b) + sum_list (map (\<lambda>(_, _, dn). unat dn) ps)) \<and>
      (\<forall>other. other \<noteq> ident \<longrightarrow>
        gm_get (buckets_at at (fold (\<lambda>(unix, up, dn). Record ident unix up dn) ps c)) other =
        gm_get (buckets_at at c) other)"
  using assms
proof (induction ps arbitrary: c b)
  case Nil
  have "unat x \<le> 2 ^ 64 - 1" for x :: "64 word"
    using unat_sat_add [of x 0] by (simp add: sat_add_def split: if_splits)
  with Nil show ?case by simp
next
  case (Cons p ps)
  obtain unix up dn where p: "p = (unix, up, dn)" by (cases p)
  have q: "0 \<le> unix" "minute_of unix = at" "up \<noteq> 0 \<or> dn \<noteq> 0" using Cons.prems(6) p by auto
  obtain m where m: "mAt (kSlots c ! slot_of at) = at" "mBuckets (kSlots c ! slot_of at) = Some m"
    "gm_get m ident = Some b" using Cons.prems(7) by (auto simp: buckets_at_hit)
  let ?c = "Record ident unix up dn c" and ?b = "bump unix at up dn b"
  note hit = Record_hit [OF Cons.prems(1,3) q(3,1) Cons.prems(4) _ refl, unfolded q(2), OF Cons.prems(5) m Cons.prems(2)]
  have here: "gm_get (buckets_at at ?c) ident = Some ?b"
    by (simp add: buckets_at_hit hit)
  have others: "gm_get (buckets_at at ?c) other = gm_get (buckets_at at c) other" if "other \<noteq> ident" for other
    using that m by (simp add: buckets_at_def hit)
  have rec: "kLatest ?c - at < RetainedMinutes * 60"
    using Cons.prems(5) by (simp add: hit RetainedMinutes_def)
  have rest: "list_all (\<lambda>(unix, up, dn). 0 \<le> unix \<and> minute_of unix = at \<and> (up \<noteq> 0 \<or> dn \<noteq> 0)) ps"
    using Cons.prems(6) by simp
  from Cons.IH [OF hit(3) hit(5) Cons.prems(3,4) rec rest here] others
  show ?case by (auto simp: p bump_def unat_sat_add min_def)
qed

subsection \<open>Properties of the delivery\<close>

lemma Record_delivery [simp]:
  "kDelivery (Record ident unix up dn c) = kDelivery c"
  "kEnabled (Record ident unix up dn c) = kEnabled c"
  by (simp_all add: Record_def Let_def)

lemma AlignClock_delivery [simp]:
  "kDelivery (AlignClock unix a c) = kDelivery c" "kEnabled (AlignClock unix a c) = kEnabled c"
  by (simp_all add: AlignClock_def)

lemma Read_pending:
  assumes "dPending (kDelivery c) = Some r" "dBoot (kDelivery c) \<noteq> []"
  shows "snd (Read now rnd stream c) = c"
    and "kEnabled c \<Longrightarrow> 120 \<le> unix_of now \<Longrightarrow> fst (Read now rnd stream c) = Some r"
  using assms by (simp_all add: Read_def Let_def start_delivery_def)

text \<open>Operations that do not settle the pending report \<open>r\<close> of boot \<open>boot\<close>.\<close>

fun leaves_pending :: "string \<Rightarrow> 64 word \<Rightarrow> activity_op \<Rightarrow> bool" where
  "leaves_pending boot sequence (OAck b n) \<longleftrightarrow> b \<noteq> boot \<or> n \<noteq> sequence"
| "leaves_pending boot sequence (OEnable on) = on"
| "leaves_pending boot sequence _ = True"

lemma step_leaves_pending:
  assumes "dPending (kDelivery c) = Some r" "dBoot (kDelivery c) \<noteq> []"
    "leaves_pending (dBoot (kDelivery c)) (pSequence r) op" "kEnabled c"
  shows "kDelivery (activity_step op c) = kDelivery c \<and> kEnabled (activity_step op c)"
  using assms by (cases op) (auto simp: Read_pending Ack_def SetEnabled_def)

text \<open>C23: At-least-once delivery. A frozen report stays exactly as it is, and every read returns
  it, through any history of payloads, reads, clock observations and foreign
  acknowledgements, until its own acknowledgement arrives or collection is switched off.\<close>

theorem report_kept_until_acked:
  assumes "dPending (kDelivery c) = Some r" "dBoot (kDelivery c) \<noteq> []" "kEnabled c"
    "list_all (leaves_pending (dBoot (kDelivery c)) (pSequence r)) ops" "120 \<le> unix_of now"
  shows "fst (Read now rnd stream (activity_run ops c)) = Some r"
  using assms
proof (induction ops arbitrary: c)
  case Nil
  then show ?case by (simp add: Read_pending)
next
  case (Cons op ops)
  have "kDelivery (activity_step op c) = kDelivery c \<and> kEnabled (activity_step op c)"
    using step_leaves_pending [OF Cons.prems(1,2) _ Cons.prems(3)] Cons.prems(4) by simp
  with Cons show ?case by simp
qed

lemma freeze_report:
  assumes "freeze unix stream end at cor c = (r, c')"
  shows "pSequence r = dSequence (kDelivery c) + 1" "pBoot r = dBoot (kDelivery c)"
    "pStartedAt r = dGeneration (kDelivery c)" "pMinute r = at"
    "dSequence (kDelivery c') = pSequence r" "dBoot (kDelivery c') = dBoot (kDelivery c)"
    "dGeneration (kDelivery c') = dGeneration (kDelivery c)" "dPending (kDelivery c') = Some r"
    "kEnabled c' = kEnabled c"
  using assms by (auto simp: freeze_def Let_def split_beta split: if_splits)

lemma freeze_complete:
  assumes "freeze unix stream end at cor c = (r, c')" "pComplete r"
  shows "pDropped r = 0" "pUnknown r = 0" "pClock r \<noteq> ClockUnaligned" "dStarted (kDelivery c) \<le> at"
    "set (pItems r) = exact_item ` set (buckets_at at c)"
proof -
  let ?s = "kSlots c ! slot_of at"
  let ?m = "case mBuckets ?s of None \<Rightarrow> [] | Some m \<Rightarrow> m"
  let ?z = "if RetainedMinutes * 60 \<le> end - at then 1 else 0 :: 64 word"
  show "pDropped r = 0" "pUnknown r = 0" "pClock r \<noteq> ClockUnaligned" "dStarted (kDelivery c) \<le> at"
    using assms by (auto simp: freeze_def Let_def split_beta split: if_splits)
  show "set (pItems r) = exact_item ` set (buckets_at at c)"
  proof (cases "mAt ?s = at")
    case True
    let ?a = "add_items ?m (sat_add ?z (mDropped ?s)) []"
    have "pItems r = sort_key item_key (snd ?a)" "fst ?a = 0"
      using assms True by (auto simp: freeze_def Let_def split_beta)
    moreover have "snd ?a = map exact_item ?m"
      using add_items_exact [of ?m "sat_add ?z (mDropped ?s)" "[]" "snd ?a"] \<open>fst ?a = 0\<close>
      by (metis append_Nil prod.collapse)
    ultimately show ?thesis using True by (simp add: buckets_at_def)
  next
    case False
    then have "pItems r = []" using assms by (auto simp: freeze_def Let_def split_beta)
    with False show ?thesis by (simp add: buckets_at_def)
  qed
qed

lemma Read_fresh:
  assumes "Read now rnd stream c = (Some r, c')" "dPending (kDelivery c) = None" "dBoot (kDelivery c) \<noteq> []"
  obtains e at cor where "e = minute_of (unix_of now) - 120" "at \<le> e"
    "freeze (unix_of now) stream e at cor c = (r, c')"
proof -
  let ?e = "minute_of (unix_of now) - 120"
  obtain at cor where p: "pick_minute ?e (kSlots c) (dNext (kDelivery c), False) = (at, cor)" by fastforce
  have c: "c\<lparr>kDelivery := start_delivery now b (unix_of now) (kDelivery c)\<rparr> = c" for b
    using assms(3) by (simp add: start_delivery_def)
  have "at \<le> ?e \<and> freeze (unix_of now) stream ?e at cor c = (r, c')"
    using assms p by (auto simp: Read_def Let_def c split: if_splits prod.splits)
  then show ?thesis using that by blast
qed

text \<open>C17: Exact reports. A report that is marked complete lost nothing: its items are exactly the
  buckets of its minute with unclipped counters, no update was dropped or unattributed, the
  clock was not known to be misaligned, and the minute ended at least a minute before.\<close>

theorem complete_report_exact:
  assumes "Read now rnd stream c = (Some r, c')" "dPending (kDelivery c) = None"
    "dBoot (kDelivery c) \<noteq> []" "pComplete r"
  shows "set (pItems r) = exact_item ` set (buckets_at (pMinute r) c) \<and> pDropped r = 0 \<and> pUnknown r = 0
    \<and> pClock r \<noteq> ClockUnaligned \<and> dStarted (kDelivery c) \<le> pMinute r
    \<and> pMinute r + 120 \<le> minute_of (unix_of now)"
proof -
  from Read_fresh [OF assms(1-3)] obtain at cor where
    at: "at \<le> minute_of (unix_of now) - 120" and
    f: "freeze (unix_of now) stream (minute_of (unix_of now) - 120) at cor c = (r, c')" by metis
  show ?thesis
    using freeze_complete [OF f assms(4)] freeze_report(4) [OF f] at by simp
qed

text \<open>Payloads and clock observations between two reads.\<close>

fun quiet :: "activity_op \<Rightarrow> bool" where
  "quiet (ORecord _ _ _ _) = True" | "quiet (OAlign _ _) = True" | "quiet (OEnable on) = on" | "quiet _ = False"

lemma quiet_run:
  "list_all quiet ops \<Longrightarrow> kDelivery (activity_run ops c) = kDelivery c"
proof (induction ops arbitrary: c)
  case (Cons op ops)
  have "kDelivery (activity_step op c) = kDelivery c"
    using Cons.prems by (cases op) (auto simp: SetEnabled_def)
  with Cons show ?case by simp
qed simp

text \<open>C24: Gap-free numbering. After a report is acknowledged, the next report of the collector
  carries the next sequence number under the same boot identity and generation.\<close>

theorem next_report_numbered:
  assumes "Read now rnd stream c = (Some r, c1)" "dPending (kDelivery c) = None" "dBoot (kDelivery c) \<noteq> []"
    "Ack (pBoot r) (pSequence r) c1 = (acked, c2)" "list_all quiet ops"
    "Read now' rnd' stream' (activity_run ops c2) = (Some r', c3)"
  shows "acked \<and> pSequence r' = pSequence r + 1 \<and> pBoot r' = pBoot r \<and> pStartedAt r' = pStartedAt r"
proof -
  from Read_fresh [OF assms(1-3)] obtain at cor where
    "freeze (unix_of now) stream (minute_of (unix_of now) - 120) at cor c = (r, c1)" by metis
  note f = freeze_report [OF this]
  have ack: "acked" "c2 = c1\<lparr>kDelivery := (kDelivery c1)\<lparr>dPending := None\<rparr>\<rparr>"
    using assms(4) f by (auto simp: Ack_def)
  let ?c = "activity_run ops c2"
  have d: "kDelivery ?c = (kDelivery c1)\<lparr>dPending := None\<rparr>" using quiet_run [OF assms(5)] ack(2) by simp
  have "dPending (kDelivery ?c) = None" "dBoot (kDelivery ?c) \<noteq> []" using d f assms(3) by simp_all
  from Read_fresh [OF assms(6) this] obtain at' cor' where
    "freeze (unix_of now') stream' (minute_of (unix_of now') - 120) at' cor' ?c = (r', c3)" by metis
  note g = freeze_report [OF this]
  show ?thesis using f g d ack(1) by simp
qed

subsection \<open>Concrete runs\<close>

definition ex_ident :: identity where
  "ex_ident = \<lparr>iUser = 7, iInbound = 3, iPath = 1, iSource = Some (V4 0x08080400, 24)\<rparr>"

definition ex_slots :: "minute list" where
  "ex_slots = [zero_minute, \<lparr>mAt = 600, mBuckets = Some [(ex_ident, \<lparr>cBits = 1, cUpload = 10, cDownload = 20\<rparr>)],
       mAccounts = [(7, 1)], mDropped = 0, mUnknown = 0, mDirty = False\<rparr>, zero_minute]"

definition ex_report :: report where
  "ex_report = \<lparr>pBoot = ''b00'', pStartedAt = secs 600, pStream = ''user'', pSequence = 3, pMinute = 600,
     pClock = ClockUnknown, pComplete = True, pDropped = 0, pUnknown = 0,
     pItems = [\<lparr>wUser = 7, wInbound = 3, wPath = 1, wSource = ''8.8.4.0/24'', wBits = 1,
       wUpload = 10, wDownload = 20\<rparr>]\<rparr>"

definition ex_before :: collector where
  "ex_before = activity_run [OEnable True, ORead (secs 600) (Some ''b00'') ''user'', OAck ''b00'' 1,
     ORecord ex_ident 604 10 20] new_collector"

definition ex_collector :: collector where
  "ex_collector = activity_run [ORead (secs 670) None ''user'', OAck ''b00'' 2] ex_before"

definition ex_pending :: collector where
  "ex_pending = activity_run [ORead (secs 790) None ''user''] ex_collector"

lemma ex_before_eval [code]:
  "ex_before = \<lparr>kEnabled = True, kLatest = 600, kSlots = ex_slots, kUnalignedUntil = 0,
     kDelivery = \<lparr>dBoot = ''b00'', dGeneration = secs 600, dSequence = 1, dNext = 540, dPending = None, dStarted = 600\<rparr>,
     kClockSince = 0, kClockUntil = 0\<rparr>"
  by code_simp

lemma ex_collector_eval [code]:
  "ex_collector = \<lparr>kEnabled = True, kLatest = 600, kSlots = ex_slots, kUnalignedUntil = 0,
     kDelivery = \<lparr>dBoot = ''b00'', dGeneration = secs 600, dSequence = 2, dNext = 600, dPending = None, dStarted = 600\<rparr>,
     kClockSince = 0, kClockUntil = 0\<rparr>"
  by code_simp

lemma ex_pending_eval [code]:
  "ex_pending = \<lparr>kEnabled = True, kLatest = 600, kSlots = ex_slots, kUnalignedUntil = 0,
     kDelivery = \<lparr>dBoot = ''b00'', dGeneration = secs 600, dSequence = 3, dNext = 660, dPending = Some ex_report, dStarted = 600\<rparr>,
     kClockSince = 0, kClockUntil = 0\<rparr>"
  by code_simp

theorem recorded_bytes_add_up_witness:
  "\<exists>b'. gm_get (buckets_at 600 (fold (\<lambda>(unix, up, dn). Record ex_ident unix up dn)
      [(610, 5, 0), (659, 0xFFFFFFFFFFFFFFF0, 1)] ex_collector)) ex_ident = Some b' \<and>
    unat (cUpload b') = 2 ^ 64 - 1"
proof -
  let ?ps = "[(610, 5, 0), (659, 0xFFFFFFFFFFFFFFF0, 1)] :: (int \<times> 64 word \<times> 64 word) list"
  have "kEnabled ex_collector" "length (kSlots ex_collector) = 3" "0 < iUser ex_ident"
    "iSource ex_ident \<noteq> None" "kLatest ex_collector - 600 < RetainedMinutes * 60"
    "list_all (\<lambda>(unix, up, dn). 0 \<le> unix \<and> minute_of unix = 600 \<and> (up \<noteq> 0 \<or> dn \<noteq> 0)) ?ps"
    "gm_get (buckets_at 600 ex_collector) ex_ident = Some \<lparr>cBits = 1, cUpload = 10, cDownload = 20\<rparr>"
    by code_simp+
  from recorded_bytes_add_up [OF this] obtain b' where
    "gm_get (buckets_at 600 (fold (\<lambda>(unix, up, dn). Record ex_ident unix up dn) ?ps ex_collector)) ex_ident = Some b'"
    "unat (cUpload b') = min (2 ^ 64 - 1) (unat (10 :: 64 word) + sum_list (map (\<lambda>(_, up, _). unat up) ?ps))"
    by auto
  then show ?thesis by (intro exI [of _ b']) simp
qed

theorem report_kept_until_acked_witness:
  "fst (Read (secs 2000) None ''user'' (activity_run
      [ORecord ex_ident 780 1 1, OAck ''b00'' 2, ORead (secs 900) None ''user''] ex_pending)) = Some ex_report"
  by (rule report_kept_until_acked; code_simp)

theorem complete_report_exact_witness:
  "set (pItems ex_report) = exact_item ` set (buckets_at (pMinute ex_report) ex_collector)"
proof -
  have "Read (secs 790) None ''user'' ex_collector = (Some ex_report, ex_pending)"
    "dPending (kDelivery ex_collector) = None" "dBoot (kDelivery ex_collector) \<noteq> []" "pComplete ex_report"
    by code_simp+
  from complete_report_exact [OF this] show ?thesis by blast
qed

theorem next_report_numbered_witness:
  "pSequence ex_report = 2 + 1"
proof -
  define r where "r = the (fst (Read (secs 670) None ''user'' ex_before))"
  have "Read (secs 670) None ''user'' ex_before = (Some r, snd (Read (secs 670) None ''user'' ex_before))"
    "dPending (kDelivery ex_before) = None" "dBoot (kDelivery ex_before) \<noteq> []"
    "Ack (pBoot r) (pSequence r) (snd (Read (secs 670) None ''user'' ex_before)) = (True, ex_collector)"
    "list_all quiet []"
    "Read (secs 790) None ''user'' (activity_run [] ex_collector) = (Some ex_report, ex_pending)"
    unfolding r_def by code_simp+
  from next_report_numbered [OF this] have "pSequence ex_report = pSequence r + 1" by blast
  moreover have "pSequence r = 2" unfolding r_def by code_simp
  ultimately show ?thesis by simp
qed

end
