(* ===== verification/TrafficWindow.thy ===== *)
theory TrafficWindow
  imports GoTime
begin

text \<open>
  The billing windows of the traffic quota: \<^verbatim>\<open>runtimeTrafficWindow\<close> and its helpers in
  \<^verbatim>\<open>minibox/ratelimit.go\<close>. A window is a key, a start and an end. The proofs work on the
  number of the month since year 0 and are for zones with a fixed offset, as the program's
  default zone is; the definitions take any zone.
\<close>

subsection \<open>The source's functions\<close>

fun clamp_to :: "int \<Rightarrow> int \<times> int \<times> int \<Rightarrow> int" where
  "clamp_to day (_, _, lastday) = (if lastday < day then lastday else if day < 1 then 1 else day)"

definition runtimeClampedMonthDay :: "int \<Rightarrow> int \<Rightarrow> int \<Rightarrow> int" where
  "runtimeClampedMonthDay year month day = clamp_to day (date_in utc (go_date year (month + 1) 0 0 0 utc))"

text \<open>The clamped day in the month of a date, at a given clock reading.\<close>

fun clamped_date :: "int \<Rightarrow> int \<Rightarrow> int \<Rightarrow> location \<Rightarrow> int \<times> int \<times> int \<Rightarrow> instant" where
  "clamped_date day sec ns loc (y, m, _) = go_date y m (runtimeClampedMonthDay y m day) sec ns loc"

fun months_after :: "int \<Rightarrow> int \<Rightarrow> int \<Rightarrow> location \<Rightarrow> int \<times> int \<times> int \<Rightarrow> instant" where
  "months_after months sec ns loc (y, m, _) = go_date y (m + months) 1 sec ns loc"

fun day_of :: "int \<times> int \<times> int \<Rightarrow> int" where
  "day_of (_, _, d) = d"

definition runtimeAnniversaryBoundary :: "instant \<Rightarrow> int \<Rightarrow> location \<Rightarrow> instant" where
  "runtimeAnniversaryBoundary anchor months loc =
     clamped_date (day_of (date_in loc anchor)) (clock_in loc anchor) (nsec_of anchor) loc
       (date_in loc (months_after months (clock_in loc anchor) (nsec_of anchor) loc (date_in loc anchor)))"

text \<open>The month count is taken back by one when the boundary of this month is still ahead.\<close>

definition anniversary_from :: "instant \<Rightarrow> instant \<Rightarrow> location \<Rightarrow> int \<Rightarrow> instant \<Rightarrow> instant \<times> instant" where
  "anniversary_from now anchor loc months start =
     (if now < start then (runtimeAnniversaryBoundary anchor (months - 1) loc,
                           runtimeAnniversaryBoundary anchor (months - 1 + 1) loc)
      else (start, runtimeAnniversaryBoundary anchor (months + 1) loc))"

fun month_count :: "int \<times> int \<times> int \<Rightarrow> int \<times> int \<times> int \<Rightarrow> int" where
  "month_count (ny, nm, _) (ay, am, _) = (ny - ay) * 12 + (nm - am)"

definition runtimeAnniversaryWindow :: "instant \<Rightarrow> instant \<Rightarrow> location \<Rightarrow> instant \<times> instant" where
  "runtimeAnniversaryWindow now anchor loc =
     (if now < anchor then (anchor, runtimeAnniversaryBoundary anchor 1 loc)
      else anniversary_from now anchor loc (month_count (date_in loc now) (date_in loc anchor))
             (runtimeAnniversaryBoundary anchor (month_count (date_in loc now) (date_in loc anchor)) loc))"

text \<open>The default zone, \<^verbatim>\<open>time.FixedZone("Asia/Shanghai", 8*3600)\<close>.\<close>

definition shanghai :: location where
  "shanghai = fixed_zone (8 * 3600)"

definition natural_from :: "location \<Rightarrow> instant \<Rightarrow> string \<times> instant \<times> instant" where
  "natural_from loc start = (format_date (date_in loc start), start, add_date loc start 0 1 0)"

fun anniversary_key :: "instant \<times> instant \<Rightarrow> string \<times> instant \<times> instant" where
  "anniversary_key (start, end) = (format_rfc3339 start, start, end)"

definition month_day_start :: "instant \<Rightarrow> int \<Rightarrow> location \<Rightarrow> instant \<Rightarrow> instant" where
  "month_day_start now day loc start =
     (if now < start then clamped_date day 0 0 loc (date_in loc (add_date loc start 0 (- 1) 0)) else start)"

definition month_day_from :: "int \<Rightarrow> location \<Rightarrow> instant \<Rightarrow> string \<times> instant \<times> instant" where
  "month_day_from day loc start = (format_date (date_in loc start), start,
     clamped_date day 0 0 loc (date_in loc (add_date loc start 0 1 0)))"

definition clamp_reset_day :: "int \<Rightarrow> int" where
  "clamp_reset_day day = (if day < 1 then 1 else if 31 < day then 31 else day)"

definition runtimeTrafficWindow :: "instant \<Rightarrow> string \<Rightarrow> int \<Rightarrow> instant \<Rightarrow> location \<Rightarrow> string \<times> instant \<times> instant" where
  "runtimeTrafficWindow now mode day anchor0 loc =
     (let anchor = (if anchor0 = zero_time then now else anchor0) in
      if mode = ''never'' then (format_rfc3339 anchor, anchor, go_date 9999 12 31 86399 0 loc)
      else if mode = ''anniversary_month'' then anniversary_key (runtimeAnniversaryWindow now anchor loc)
      else if mode \<noteq> ''month_day'' then
        natural_from loc (months_after 0 0 0 loc (date_in loc now))
      else
        month_day_from (clamp_reset_day day) loc
          (month_day_start now (clamp_reset_day day) loc (clamped_date (clamp_reset_day day) 0 0 loc (date_in loc now))))"

subsection \<open>Months by number\<close>

definition month_start :: "int \<Rightarrow> int" where
  "month_start k = day_number (k div 12) (k mod 12 + 1) 1"

definition month_len :: "int \<Rightarrow> int" where
  "month_len k = days_in (k div 12) (k mod 12 + 1)"

definition month_index :: "int \<Rightarrow> int \<Rightarrow> int" where
  "month_index y m = 12 * y + (m - 1)"

text \<open>The months of the years 0 to 9999.\<close>

definition month_ok :: "int \<Rightarrow> bool" where
  "month_ok k \<longleftrightarrow> 0 \<le> k \<and> k < 120000"

lemma month_index_inv [simp]:
  assumes "1 \<le> m" "m \<le> 12"
  shows "month_index y m div 12 = y" "month_index y m mod 12 = m - 1"
  using assms by (simp_all add: month_index_def)

lemma month_len_bounds: "28 \<le> month_len k \<and> month_len k \<le> 31"
  using leap_day_cases [of "k div 12"] by (auto simp: month_len_def days_in_def)

lemma int_div_mod_eq:
  "k = 12 * q + r \<Longrightarrow> 0 \<le> r \<Longrightarrow> r < 12 \<Longrightarrow> k div 12 = q \<and> k mod 12 = (r :: int)"
  using int_div_pos_eq [of k 12 q r] int_mod_pos_eq [of k 12 q r] by blast

lemma month_start_Suc: "month_start (k + 1) = month_start k + month_len k"
proof -
  define q r where "q = k div 12" and "r = k mod 12"
  have k: "k = 12 * q + r" and r: "0 \<le> r" "r < 12" unfolding q_def r_def by simp_all
  note here = int_div_mod_eq [OF k r]
  show ?thesis
  proof (cases "r = 11")
    case True
    have "k + 1 = 12 * (q + 1) + 0" using k True by simp
    from int_div_mod_eq [OF this] have "(k + 1) div 12 = q + 1" "(k + 1) mod 12 = 0" by simp_all
    then show ?thesis
      using days_before_year_Suc [of q] True here
      by (simp add: month_start_def month_len_def day_number_def days_in_def days_before_month_def)
  next
    case False
    have "k + 1 = 12 * q + (r + 1)" using k by simp
    from int_div_mod_eq [OF this] have "(k + 1) div 12 = q" "(k + 1) mod 12 = r + 1" using r False by simp_all
    then show ?thesis
      using days_before_month_Suc [of "r + 1" q] r False here
      by (simp add: month_start_def month_len_def day_number_def)
  qed
qed

lemma month_start_mono: "j \<le> k \<Longrightarrow> month_start j + 28 * (k - j) \<le> month_start k"
proof (induction "nat (k - j)" arbitrary: k)
  case (Suc n)
  have "month_start j + 28 * (k - 1 - j) \<le> month_start (k - 1)" using Suc by (intro Suc(1)) auto
  then show ?case using month_start_Suc [of "k - 1"] month_len_bounds [of "k - 1"] by simp
qed simp

lemma month_start_range: "month_ok k \<Longrightarrow> - 719530 \<le> month_start k \<and> month_start k < 2932897"
proof -
  assume k: "month_ok k"
  have "month_start 0 = - 719528" "month_start 120000 = 2932897" by code_simp+
  then show ?thesis
    using month_start_mono [of 0 k] month_start_mono [of k 120000] k by (auto simp: month_ok_def)
qed

text \<open>The instant of a local date in a fixed zone.\<close>

definition local_instant :: "int \<Rightarrow> int \<Rightarrow> int \<Rightarrow> int \<Rightarrow> int \<Rightarrow> instant" where
  "local_instant off k d sec ns = ((month_start k + d - 1) * 86400 + sec - off) * 1000000000 + ns"

definition zone_ok :: "int \<Rightarrow> bool" where
  "zone_ok off \<longleftrightarrow> - 86400 \<le> off \<and> off \<le> 86400"

lemma go_date_month:
  assumes "zone_ok off" "month_ok (month_index y mo)" "0 \<le> d" "d \<le> 31" "0 \<le> sec" "sec < 86400"
  shows "go_date y mo d sec ns (fixed_zone off) = local_instant off (month_index y mo) d sec ns"
proof -
  have y: "y + (mo - 1) div 12 = month_index y mo div 12" "(mo - 1) mod 12 = month_index y mo mod 12"
    by (simp_all add: month_index_def)
  have dn: "day_number (month_index y mo div 12) (month_index y mo mod 12 + 1) d = month_start (month_index y mo) + d - 1"
    by (simp add: month_start_def day_number_def)
  have "- 719530 \<le> month_start (month_index y mo) \<and> month_start (month_index y mo) < 2932897"
    using assms(2) by (rule month_start_range)
  then show ?thesis
    using assms by (subst go_date_fixed)
      (simp_all add: y dn min_i64_def max_i64_def zone_ok_def local_instant_def)
qed

lemma local_instant_parts:
  assumes "1 \<le> d" "d \<le> month_len k" "0 \<le> sec" "sec < 86400" "0 \<le> ns" "ns < 1000000000"
  shows "date_in (fixed_zone off) (local_instant off k d sec ns) = (k div 12, k mod 12 + 1, d)"
    and "clock_in (fixed_zone off) (local_instant off k d sec ns) = sec"
    and "nsec_of (local_instant off k d sec ns) = ns"
proof -
  let ?t = "local_instant off k d sec ns"
  define v where "v = (month_start k + d - 1) * 86400 + sec - off"
  have t: "?t = v * 1000000000 + ns" by (simp only: local_instant_def v_def)
  have u: "unix_of ?t = (month_start k + d - 1) * 86400 + sec - off" and n: "nsec_of ?t = ns"
    using assms(5,6) unfolding v_def [symmetric] by (simp_all add: unix_of_def nsec_of_def t)
  show "nsec_of ?t = ns" by (rule n)
  define n where "n = month_start k + d - 1"
  have ls: "local_secs (fixed_zone off) ?t = n * 86400 + sec" by (simp add: u n_def)
  show "clock_in (fixed_zone off) ?t = sec"
    using assms(3,4) by (simp only: clock_in_def ls) simp
  have val: "valid_date (k div 12) (k mod 12 + 1) d"
    using assms(1,2) pos_mod_bound [of 12 k] by (simp add: valid_date_def month_len_def)
  have "day_number (k div 12) (k mod 12 + 1) d = month_start k + d - 1"
    by (simp add: month_start_def day_number_def)
  with civil_day_number [OF val] show "date_in (fixed_zone off) ?t = (k div 12, k mod 12 + 1, d)"
    using assms(3,4) by (simp only: date_in_def ls) (simp add: n_def [symmetric])
qed

lemma instant_parts:
  assumes "date_in (fixed_zone off) t = (y, m, d)"
  shows "1 \<le> m" "m \<le> 12" "1 \<le> d" "d \<le> month_len (month_index y m)"
    "t = local_instant off (month_index y m) d (clock_in (fixed_zone off) t) (nsec_of t)"
proof -
  have v: "valid_date y m d" and n: "day_number y m d = (unix_of t + off) div 86400"
    using civil_valid assms by (auto simp: date_in_def)
  show m: "1 \<le> m" "m \<le> 12" "1 \<le> d" using v by (auto simp: valid_date_def)
  show "d \<le> month_len (month_index y m)" using v m by (simp add: month_len_def valid_date_def)
  have "month_start (month_index y m) + d - 1 = (unix_of t + off) div 86400"
    using n m by (simp add: month_start_def day_number_def)
  then have "(month_start (month_index y m) + d - 1) * 86400 + clock_in (fixed_zone off) t - off = unix_of t"
    by (simp add: clock_in_def)
  then show "t = local_instant off (month_index y m) d (clock_in (fixed_zone off) t) (nsec_of t)"
    using unix_nsec [of t] by (simp add: local_instant_def)
qed

definition month_of :: "int \<Rightarrow> instant \<Rightarrow> int" where
  "month_of off t = (case date_in (fixed_zone off) t of (y, m, _) \<Rightarrow> month_index y m)"

lemma clock_in_bounds: "0 \<le> clock_in loc t" "clock_in loc t < 86400"
  by (simp_all add: clock_in_def)

lemma local_instant_less_month:
  assumes "j < k" "d \<le> month_len j" "1 \<le> d'" "sec < 86400" "0 \<le> sec'" "ns < 1000000000" "0 \<le> ns'"
  shows "local_instant off j d sec ns < local_instant off k d' sec' ns'"
proof -
  have "month_start j + month_len j \<le> month_start k"
    using month_start_mono [of "j + 1" k] assms(1) by (simp add: month_start_Suc)
  then have "month_start j + d - 1 + 1 \<le> month_start k + d' - 1" using assms(2,3) by simp
  then have "(month_start j + d - 1) * 86400 + sec - off + 1 \<le> (month_start k + d' - 1) * 86400 + sec' - off"
    using assms(4,5) by simp
  then show ?thesis using assms(6,7) by (simp add: local_instant_def)
qed

text \<open>One boundary in every month cuts the time line into windows.\<close>

locale monthly_boundary =
  fixes off :: int and b :: "int \<Rightarrow> instant"
  assumes in_month: "\<exists>d sec ns. b k = local_instant off k d sec ns \<and> 1 \<le> d \<and> d \<le> month_len k
      \<and> 0 \<le> sec \<and> sec < 86400 \<and> 0 \<le> ns \<and> ns < 1000000000"
begin

lemma boundary_less:
  assumes "j < k"
  shows "b j < b k"
proof -
  obtain d sec ns where "b j = local_instant off j d sec ns" "d \<le> month_len j" "sec < 86400" "ns < 1000000000"
    using in_month [of j] by blast
  moreover obtain d' sec' ns' where "b k = local_instant off k d' sec' ns'" "1 \<le> d'" "0 \<le> sec'" "0 \<le> ns'"
    using in_month [of k] by blast
  ultimately show ?thesis using local_instant_less_month [OF assms] by simp
qed

lemma boundary_mono: "j \<le> k \<Longrightarrow> b j \<le> b k"
  using boundary_less [of j k] by (cases "j = k") auto

lemma month_between:
  assumes "month_of off t = k"
  shows "b (k - 1) < t" "t < b (k + 1)"
proof -
  obtain y m d where t: "date_in (fixed_zone off) t = (y, m, d)" by (metis prod_cases3)
  have k: "month_index y m = k" using assms t by (simp add: month_of_def)
  note p = instant_parts [OF t, unfolded k]
  obtain d' sec' ns' where "b (k - 1) = local_instant off (k - 1) d' sec' ns'" "d' \<le> month_len (k - 1)"
    "sec' < 86400" "ns' < 1000000000"
    using in_month [of "k - 1"] by blast
  then show "b (k - 1) < t"
    by (subst p(5)) (simp add: local_instant_less_month p(3) clock_in_bounds nsec_of_bounds)
  obtain d' sec' ns' where "b (k + 1) = local_instant off (k + 1) d' sec' ns'" "1 \<le> d'" "0 \<le> sec'" "0 \<le> ns'"
    using in_month [of "k + 1"] by blast
  then show "t < b (k + 1)"
    by (subst p(5)) (simp add: local_instant_less_month p(4) clock_in_bounds nsec_of_bounds)
qed

definition pick :: "instant \<Rightarrow> int" where
  "pick t = (if t < b (month_of off t) then month_of off t - 1 else month_of off t)"

lemma pick_bounds: "b (pick t) \<le> t \<and> t < b (pick t + 1)"
  using month_between [OF refl, of t] by (auto simp: pick_def)

lemma pick_unique:
  assumes "b j \<le> t" "t < b (j + 1)"
  shows "pick t = j"
proof (rule antisym)
  show "pick t \<le> j"
  proof (rule ccontr)
    assume "\<not> pick t \<le> j"
    then have "b (j + 1) \<le> b (pick t)" by (intro boundary_mono) simp
    then show False using pick_bounds [of t] assms(2) by simp
  qed
  show "j \<le> pick t"
  proof (rule ccontr)
    assume "\<not> j \<le> pick t"
    then have "b (pick t + 1) \<le> b j" by (intro boundary_mono) simp
    then show False using pick_bounds [of t] assms(1) by simp
  qed
qed

lemma pick_near: "pick t \<le> month_of off t \<and> month_of off t \<le> pick t + 1"
  by (simp add: pick_def)

end

text \<open>The boundaries of the three modes.\<close>

definition clamp_day :: "int \<Rightarrow> int \<Rightarrow> int" where
  "clamp_day day k = (if month_len k < day then month_len k else if day < 1 then 1 else day)"

definition day_boundary :: "int \<Rightarrow> int \<Rightarrow> int \<Rightarrow> instant" where
  "day_boundary off day k = local_instant off k (clamp_day day k) 0 0"

definition anchor_boundary :: "int \<Rightarrow> instant \<Rightarrow> int \<Rightarrow> instant" where
  "anchor_boundary off anchor k = (case date_in (fixed_zone off) anchor of (_, _, ad) \<Rightarrow>
     local_instant off k (clamp_day ad k) (clock_in (fixed_zone off) anchor) (nsec_of anchor))"

lemma clamp_day_bounds: "1 \<le> clamp_day day k \<and> clamp_day day k \<le> month_len k"
  using month_len_bounds [of k] by (auto simp: clamp_day_def)

interpretation day_cut: monthly_boundary off "day_boundary off day" for off day
proof
  fix k
  show "\<exists>d sec ns. day_boundary off day k = local_instant off k d sec ns \<and> 1 \<le> d \<and> d \<le> month_len k
      \<and> 0 \<le> sec \<and> sec < 86400 \<and> 0 \<le> ns \<and> ns < 1000000000"
    using clamp_day_bounds [of day k]
    by (intro exI [of _ "clamp_day day k"] exI [of _ 0]) (simp add: day_boundary_def)
qed

interpretation anchor_cut: monthly_boundary off "anchor_boundary off anchor" for off anchor
proof
  fix k
  obtain y m d where "date_in (fixed_zone off) anchor = (y, m, d)" by (metis prod_cases3)
  then show "\<exists>d sec ns. anchor_boundary off anchor k = local_instant off k d sec ns \<and> 1 \<le> d \<and> d \<le> month_len k
      \<and> 0 \<le> sec \<and> sec < 86400 \<and> 0 \<le> ns \<and> ns < 1000000000"
    using clamp_day_bounds [of d k] clock_in_bounds nsec_of_bounds
    by (intro exI [of _ "clamp_day d k"] exI [of _ "clock_in (fixed_zone off) anchor"] exI [of _ "nsec_of anchor"])
      (simp add: anchor_boundary_def)
qed

subsection \<open>The source's functions compute the boundaries\<close>

lemma clamped_month_day:
  assumes "month_ok (month_index y m)" "month_ok (month_index y m + 1)"
  shows "runtimeClampedMonthDay y m day = clamp_day day (month_index y m)"
proof -
  let ?k = "month_index y m"
  have next_month: "month_index y (m + 1) = ?k + 1" by (simp add: month_index_def)
  have "go_date y (m + 1) 0 0 0 utc = local_instant 0 (?k + 1) 0 0 0"
    using assms(2) by (subst go_date_month) (simp_all add: zone_ok_def next_month)
  also have "\<dots> = local_instant 0 ?k (month_len ?k) 0 0"
    by (simp add: local_instant_def month_start_Suc)
  finally have "date_in utc (go_date y (m + 1) 0 0 0 utc) = (?k div 12, ?k mod 12 + 1, month_len ?k)"
    using month_len_bounds [of ?k] by (simp add: local_instant_parts)
  then show ?thesis by (simp add: runtimeClampedMonthDay_def clamp_day_def)
qed

lemma go_date_clamped:
  assumes "zone_ok off" "month_ok (month_index y m)" "month_ok (month_index y m + 1)"
  shows "go_date y m (runtimeClampedMonthDay y m day) 0 0 (fixed_zone off) = day_boundary off day (month_index y m)"
  using assms clamp_day_bounds [of day "month_index y m"] month_len_bounds [of "month_index y m"]
  by (simp add: clamped_month_day go_date_month day_boundary_def)

lemma anniversary_boundary:
  assumes "zone_ok off" "date_in (fixed_zone off) anchor = (ay, am, ad)"
    "month_ok (month_index ay am + months)" "month_ok (month_index ay am + months + 1)"
  shows "runtimeAnniversaryBoundary anchor months (fixed_zone off) =
    anchor_boundary off anchor (month_index ay am + months)"
proof -
  let ?k = "month_index ay am + months" and ?c = "clock_in (fixed_zone off) anchor" and ?n = "nsec_of anchor"
  have idx: "month_index ay (am + months) = ?k" by (simp add: month_index_def)
  have "go_date ay (am + months) 1 ?c ?n (fixed_zone off) = local_instant off ?k 1 ?c ?n"
    using assms by (subst go_date_month) (simp_all add: idx clock_in_bounds)
  moreover have "date_in (fixed_zone off) (local_instant off ?k 1 ?c ?n) = (?k div 12, ?k mod 12 + 1, 1)"
    using month_len_bounds [of ?k] by (intro local_instant_parts) (simp_all add: clock_in_bounds nsec_of_bounds)
  moreover have "month_index (?k div 12) (?k mod 12 + 1) = ?k" by (simp add: month_index_def)
  ultimately show ?thesis
    using assms clamp_day_bounds [of ad ?k] month_len_bounds [of ?k] clock_in_bounds
    by (simp add: runtimeAnniversaryBoundary_def clamped_month_day go_date_month anchor_boundary_def)
qed

lemmas month_day_unfold = runtimeTrafficWindow_def month_day_from_def month_day_start_def
  clamp_reset_day_def

lemma month_ofE:
  obtains y m d where "date_in (fixed_zone off) t = (y, m, d)" "month_index y m = month_of off t"
proof -
  obtain y m d where "date_in (fixed_zone off) t = (y, m, d)" by (metis prod_cases3)
  then show ?thesis using that by (simp add: month_of_def)
qed

lemma day_boundary_parts:
  "date_in (fixed_zone off) (day_boundary off day k) = (k div 12, k mod 12 + 1, clamp_day day k)"
  "clock_in (fixed_zone off) (day_boundary off day k) = 0" "nsec_of (day_boundary off day k) = 0"
  using clamp_day_bounds [of day k] by (simp_all add: day_boundary_def local_instant_parts)

lemma month_index_div [simp]: "month_index (k div 12) (k mod 12 + 1 + j) = k + j"
  by (simp add: month_index_def)

lemma month_index_div0 [simp]: "month_index (k div 12) (k mod 12 + 1) = k"
  by (simp add: month_index_def)

lemma add_month_boundary:
  assumes "zone_ok off" "month_ok (k + j)" "day \<le> 28"
  shows "add_date (fixed_zone off) (day_boundary off day k) 0 j 0 = day_boundary off day (k + j)"
proof -
  have same: "clamp_day day k = clamp_day day (k + j)"
    using assms(3) month_len_bounds [of k] month_len_bounds [of "k + j"] by (auto simp: clamp_day_def)
  show ?thesis
    using assms clamp_day_bounds [of day k] month_len_bounds [of k]
    by (simp add: add_date_def day_boundary_parts go_date_month)
      (simp add: same day_boundary_def)
qed

text \<open>In every mode the window is the one between two boundaries.\<close>

definition calendar_range :: "int \<Rightarrow> instant \<Rightarrow> bool" where
  "calendar_range off t \<longleftrightarrow> 2 \<le> month_of off t \<and> month_of off t < 119997"

lemma clamp_day_one [simp]: "clamp_day 1 k = 1"
  using month_len_bounds [of k] by (simp add: clamp_day_def)

lemma month_begins: "day_boundary off 1 (month_of off t) \<le> t"
proof -
  obtain y m d where t: "date_in (fixed_zone off) t = (y, m, d)" "month_index y m = month_of off t"
    by (rule month_ofE)
  show ?thesis
    using instant_parts [OF t(1)] clock_in_bounds [of "fixed_zone off" t] nsec_of_bounds [of t]
    by (subst instant_parts(5) [OF t(1)]) (simp add: t(2) day_boundary_def local_instant_def)
qed

lemma month_of_mono:
  assumes "t \<le> t'"
  shows "month_of off t \<le> month_of off t'"
proof (rule ccontr)
  assume "\<not> ?thesis"
  then have "month_of off t' + 1 \<le> month_of off t" by simp
  then have "day_boundary off 1 (month_of off t' + 1) \<le> day_boundary off 1 (month_of off t)"
    by (rule day_cut.boundary_mono)
  moreover have "day_boundary off 1 (month_of off t) \<le> t" by (rule month_begins)
  moreover have "t' < day_boundary off 1 (month_of off t' + 1)" by (rule day_cut.month_between) simp
  ultimately show False using assms by simp
qed

lemma natural_window:
  assumes "zone_ok off" "calendar_range off now"
    "mode \<noteq> ''never''" "mode \<noteq> ''anniversary_month''" "mode \<noteq> ''month_day''"
  shows "runtimeTrafficWindow now mode day anchor (fixed_zone off) =
    (let j = day_cut.pick off 1 now in
     (format_date (date_in (fixed_zone off) (day_boundary off 1 j)), day_boundary off 1 j, day_boundary off 1 (j + 1)))"
proof -
  obtain y m d where t: "date_in (fixed_zone off) now = (y, m, d)" "month_index y m = month_of off now"
    by (rule month_ofE)
  let ?k = "month_of off now"
  have ok: "month_ok ?k" "month_ok (?k + 1)" using assms(2) by (simp_all add: calendar_range_def month_ok_def)
  have start: "go_date y m 1 0 0 (fixed_zone off) = day_boundary off 1 ?k"
    using assms(1) ok t(2) by (simp add: go_date_month day_boundary_def clamp_day_one)
  have "day_cut.pick off 1 now = ?k" using month_begins [of off now] by (simp add: day_cut.pick_def)
  then show ?thesis
    using assms ok by (simp add: runtimeTrafficWindow_def natural_from_def t start add_month_boundary Let_def)
qed

lemma month_day_window:
  assumes "zone_ok off" "calendar_range off now" "1 \<le> day" "day \<le> 28"
  shows "runtimeTrafficWindow now ''month_day'' day anchor (fixed_zone off) =
    (let j = day_cut.pick off day now in
     (format_date (date_in (fixed_zone off) (day_boundary off day j)), day_boundary off day j, day_boundary off day (j + 1)))"
proof -
  obtain y m d where t: "date_in (fixed_zone off) now = (y, m, d)" "month_index y m = month_of off now"
    by (rule month_ofE)
  let ?k = "month_of off now" and ?b = "day_boundary off day"
  have ok: "month_ok (?k - 1)" "month_ok ?k" "month_ok (?k + 1)" "month_ok (?k + 2)"
    using assms(2) by (simp_all add: calendar_range_def month_ok_def)
  have start: "go_date y m (runtimeClampedMonthDay y m day) 0 0 (fixed_zone off) = ?b ?k"
    using assms(1) ok t(2) by (simp add: go_date_clamped)
  have cut: "go_date (k div 12) (k mod 12 + 1) (runtimeClampedMonthDay (k div 12) (k mod 12 + 1) day) 0 0
      (fixed_zone off) = ?b k" if "month_ok k" "month_ok (k + 1)" for k
    using assms(1) that by (simp add: go_date_clamped)
  have prev: "add_date (fixed_zone off) (?b ?k) 0 (- 1) 0 = ?b (?k - 1)"
    using add_month_boundary [OF assms(1) _ assms(4), of ?k "- 1"] ok by simp
  have succ: "add_date (fixed_zone off) (?b k) 0 1 0 = ?b (k + 1)" if "month_ok (k + 1)" for k
    using add_month_boundary [OF assms(1) that assms(4)] .
  show ?thesis
  proof (cases "now < ?b ?k")
    case True
    then have p: "day_cut.pick off day now = ?k - 1" by (simp add: day_cut.pick_def)
    show ?thesis unfolding p Let_def [of "?k - 1"] Let_def [of ?k]
      using assms(3,4) ok True cut [of "?k - 1"] cut [of ?k] succ [of "?k - 1"]
      by (simp add: month_day_unfold t start prev day_boundary_parts)
  next
    case False
    then have p: "day_cut.pick off day now = ?k" by (simp add: day_cut.pick_def)
    show ?thesis unfolding p Let_def [of "?k - 1"] Let_def [of ?k]
      using assms(3,4) ok False cut [of "?k + 1"] succ [of ?k]
      by (simp add: month_day_unfold t start day_boundary_parts add.assoc)
  qed
qed

lemma anniversary_window:
  assumes "zone_ok off" "calendar_range off now" "anchor \<le> now" "anchor \<noteq> zero_time"
  shows "runtimeTrafficWindow now ''anniversary_month'' day anchor (fixed_zone off) =
    (let j = anchor_cut.pick off anchor now in
     (format_rfc3339 (anchor_boundary off anchor j), anchor_boundary off anchor j, anchor_boundary off anchor (j + 1)))"
proof -
  obtain y m d where t: "date_in (fixed_zone off) now = (y, m, d)" "month_index y m = month_of off now"
    by (rule month_ofE)
  obtain ay am ad where a: "date_in (fixed_zone off) anchor = (ay, am, ad)" "month_index ay am = month_of off anchor"
    by (rule month_ofE)
  let ?k = "month_of off now" and ?b = "anchor_boundary off anchor"
  define n where "n = y * 12 - ay * 12 + (m - am)"
  have n: "month_index ay am + n = ?k" unfolding t(2) [symmetric] by (simp add: n_def month_index_def)
  have ok: "month_ok (?k - 1)" "month_ok ?k" "month_ok (?k + 1)" "month_ok (?k + 2)"
    using assms(2) by (simp_all add: calendar_range_def month_ok_def)
  have b: "runtimeAnniversaryBoundary anchor (n + j) (fixed_zone off) = ?b (?k + j)"
    if "month_ok (?k + j)" "month_ok (?k + j + 1)" for j
    using anniversary_boundary [OF assms(1) a(1), of "n + j"] that n by (simp add: add.assoc [symmetric])
  have ok2: "month_ok (2 + ?k)" using ok(4) by (simp add: add.commute)
  have b3: "runtimeAnniversaryBoundary anchor n (fixed_zone off) = ?b ?k"
    "runtimeAnniversaryBoundary anchor (n - 1) (fixed_zone off) = ?b (?k - 1)"
    "runtimeAnniversaryBoundary anchor (n + 1) (fixed_zone off) = ?b (?k + 1)"
    using b [of 0] b [of "- 1"] b [of 1] ok ok2 by simp_all
  show ?thesis
    using assms(3,4) b3
    by (auto simp: runtimeTrafficWindow_def runtimeAnniversaryWindow_def anniversary_from_def
        t(1) a(1) n_def [symmetric] Let_def
        anchor_cut.pick_def)
qed

lemma anchor_at: "anchor_boundary off anchor (month_of off anchor) = anchor"
proof -
  obtain y m d where t: "date_in (fixed_zone off) anchor = (y, m, d)" "month_index y m = month_of off anchor"
    by (rule month_ofE)
  have "clamp_day d (month_of off anchor) = d"
    using instant_parts(3,4) [OF t(1)] t(2) by (simp add: clamp_day_def)
  then show ?thesis using instant_parts(5) [OF t(1)] t by (simp add: anchor_boundary_def)
qed

lemma anchor_before_window:
  assumes "anchor \<le> now"
  shows "anchor \<le> anchor_boundary off anchor (anchor_cut.pick off anchor now)"
proof -
  have "month_of off anchor \<le> anchor_cut.pick off anchor now"
  proof (rule ccontr)
    assume "\<not> ?thesis"
    then have "anchor_boundary off anchor (anchor_cut.pick off anchor now + 1) \<le> anchor"
      using anchor_cut.boundary_mono [of "anchor_cut.pick off anchor now + 1" "month_of off anchor" off anchor]
      by (simp add: anchor_at)
    then show False using anchor_cut.pick_bounds [of off anchor now] assms by simp
  qed
  from anchor_cut.boundary_mono [OF this, of off anchor] show ?thesis by (simp add: anchor_at)
qed

text \<open>A function of instants that only looks at the window an instant falls into.\<close>

context monthly_boundary
begin

lemma windows_partition:
  assumes window: "\<And>t. calendar_range off t \<Longrightarrow> lo \<le> t \<Longrightarrow> f t = (g (pick t), b (pick t), b (pick t + 1))"
    and now: "3 \<le> month_of off now" "month_of off now < 119996" "lo \<le> b (pick now)"
    and w: "f now = (key, start, finish)"
  shows "start \<le> now \<and> now < finish \<and> (\<forall>t. start \<le> t \<longrightarrow> t < finish \<longrightarrow> f t = (key, start, finish))"
proof -
  have "calendar_range off now" "lo \<le> now"
    using now pick_bounds [of now] by (auto simp: calendar_range_def)
  then have eq: "key = g (pick now)" "start = b (pick now)" "finish = b (pick now + 1)"
    using window [of now] w by simp_all
  have "f t = (key, start, finish)" if "start \<le> t" "t < finish" for t
  proof -
    have p: "pick t = pick now" using that by (intro pick_unique) (simp_all add: eq)
    then have "calendar_range off t"
      using pick_near [of t] pick_near [of now] now(1,2) by (simp add: calendar_range_def)
    moreover have "lo \<le> t" using now(3) that(1) eq by simp
    ultimately show ?thesis using window [of t] p eq by simp
  qed
  then show ?thesis using pick_bounds [of now] eq by simp
qed

end

text \<open>C29: Billing windows. In a zone with a fixed offset, for the monthly, the day-of-month (up to
  day 28) and the anniversary mode, the window returned for an instant contains that instant,
  and every instant of the window has the same window: the windows partition the time line, so
  a period rolls over exactly once and never overlaps the next.\<close>

theorem traffic_windows_partition:
  assumes zone: "zone_ok off" and now: "3 \<le> month_of off now" "month_of off now < 119996"
    and mode: "mode \<noteq> ''never''" "mode = ''month_day'' \<longrightarrow> 1 \<le> day \<and> day \<le> 28"
      "mode = ''anniversary_month'' \<longrightarrow> anchor \<noteq> zero_time \<and> anchor \<le> now"
    and w: "runtimeTrafficWindow now mode day anchor (fixed_zone off) = (key, start, finish)"
  shows "start \<le> now \<and> now < finish \<and>
    (\<forall>t. start \<le> t \<longrightarrow> t < finish \<longrightarrow>
       runtimeTrafficWindow t mode day anchor (fixed_zone off) = (key, start, finish))"
proof -
  let ?f = "\<lambda>t. runtimeTrafficWindow t mode day anchor (fixed_zone off)"
  let ?key = "\<lambda>day j. format_date (date_in (fixed_zone off) (day_boundary off day j))"
  have f: "?f now = (key, start, finish)" by (rule w)
  consider (anniv) "mode = ''anniversary_month''" | (mday) "mode = ''month_day''"
    | (natural) "mode \<noteq> ''anniversary_month''" "mode \<noteq> ''month_day''" by blast
  then show ?thesis
  proof cases
    case anniv
    then have a: "anchor \<noteq> zero_time" "anchor \<le> now" using mode(3) by auto
    show ?thesis
    proof (rule anchor_cut.windows_partition [where f = ?f and lo = anchor, OF _ now _ f])
      show "anchor \<le> anchor_boundary off anchor (anchor_cut.pick off anchor now)"
        by (rule anchor_before_window [OF a(2)])
      show "?f t = (format_rfc3339 (anchor_boundary off anchor (anchor_cut.pick off anchor t)),
          anchor_boundary off anchor (anchor_cut.pick off anchor t),
          anchor_boundary off anchor (anchor_cut.pick off anchor t + 1))"
        if "calendar_range off t" "anchor \<le> t" for t
        using anniversary_window [OF zone that a(1), of day] anniv by (simp add: Let_def)
    qed
  next
    case mday
    have "?f t = (?key day (day_cut.pick off day t), day_boundary off day (day_cut.pick off day t),
        day_boundary off day (day_cut.pick off day t + 1))" if "calendar_range off t" for t
      using month_day_window [OF zone that, of day anchor] mday mode(2) by (simp add: Let_def)
    from day_cut.windows_partition [where f = ?f and off = off and day = day, OF this now order_refl f]
    show ?thesis by simp
  next
    case natural
    have "?f t = (?key 1 (day_cut.pick off 1 t), day_boundary off 1 (day_cut.pick off 1 t),
        day_boundary off 1 (day_cut.pick off 1 t + 1))" if "calendar_range off t" for t
      using natural_window [OF zone that mode(1) natural, of day anchor] by (simp add: Let_def)
    from day_cut.windows_partition [where f = ?f and off = off and day = 1, OF this now order_refl f]
    show ?thesis by simp
  qed
qed

theorem traffic_windows_partition_witness:
  "\<exists>start finish. start \<le> secs 1773500000 \<and> secs 1773500000 < finish \<and>
   (\<forall>t. start \<le> t \<longrightarrow> t < finish \<longrightarrow>
      runtimeTrafficWindow t ''anniversary_month'' 0 (secs 1706662800) (fixed_zone 28800) =
        (''2026-02-28T01:00:00Z'', start, finish))"
proof -
  have w: "runtimeTrafficWindow (secs 1773500000) ''anniversary_month'' 0 (secs 1706662800) (fixed_zone 28800) =
      (''2026-02-28T01:00:00Z'', secs 1772240400, secs 1774918800)" by code_simp
  have "zone_ok 28800" "3 \<le> month_of 28800 (secs 1773500000)" "month_of 28800 (secs 1773500000) < 119996"
    "''anniversary_month'' \<noteq> ''never''"
    "''anniversary_month'' = ''month_day'' \<longrightarrow> 1 \<le> (0 :: int) \<and> (0 :: int) \<le> 28"
    "''anniversary_month'' = ''anniversary_month'' \<longrightarrow> secs 1706662800 \<noteq> zero_time \<and> secs 1706662800 \<le> secs 1773500000"
    by code_simp+
  from traffic_windows_partition [OF this w] show ?thesis by blast
qed

text \<open>Day-of-month windows past day 28 do not partition the time line. With reset day 31 the
  middle of March 2026 is given the window that only starts on March 31, and the window of
  January 31 ends on March 31, so the boundary at the end of February is skipped.\<close>

theorem month_day_window_skips:
  "let w = runtimeTrafficWindow (go_date 2026 3 15 0 0 shanghai) ''month_day'' 31 zero_time shanghai;
       v = runtimeTrafficWindow (go_date 2026 2 5 0 0 shanghai) ''month_day'' 31 zero_time shanghai in
   fst w = ''2026-03-31'' \<and> go_date 2026 3 15 0 0 shanghai < fst (snd w) \<and>
   fst v = ''2026-01-31'' \<and> snd (snd v) = go_date 2026 3 31 0 0 shanghai"
  by code_simp

text \<open>The bounds alone, for clients that roll a period over.\<close>

lemma traffic_window_bounds:
  assumes "zone_ok off" "calendar_range off now"
    and "mode \<noteq> ''never''" "mode = ''month_day'' \<longrightarrow> 1 \<le> day \<and> day \<le> 28"
      "mode = ''anniversary_month'' \<longrightarrow> anchor \<noteq> zero_time \<and> anchor \<le> now"
    and "runtimeTrafficWindow now mode day anchor (fixed_zone off) = (key, start, finish)"
  shows "start \<le> now \<and> now < finish \<and> month_of off finish \<le> month_of off now + 1"
proof -
  have ahead: "month_of off (day_boundary off d k) = k" "month_of off (anchor_boundary off a k) = k" for d a k
  proof -
    show "month_of off (day_boundary off d k) = k" by (simp add: month_of_def day_boundary_parts)
    obtain y m e where "date_in (fixed_zone off) a = (y, m, e)" by (metis prod_cases3)
    then show "month_of off (anchor_boundary off a k) = k"
      using clamp_day_bounds [of e k]
      by (simp add: month_of_def anchor_boundary_def local_instant_parts clock_in_bounds nsec_of_bounds)
  qed
  consider (anniv) "mode = ''anniversary_month''" | (mday) "mode = ''month_day''"
    | (natural) "mode \<noteq> ''anniversary_month''" "mode \<noteq> ''month_day''" by blast
  then show ?thesis
  proof cases
    case anniv
    then show ?thesis
      using anniversary_window [OF assms(1,2), of anchor day] anchor_cut.pick_bounds [of off anchor now]
        anchor_cut.pick_near [of off anchor now] assms(5,6) by (auto simp: Let_def ahead)
  next
    case mday
    then show ?thesis
      using month_day_window [OF assms(1,2), of day anchor] day_cut.pick_bounds [of off day now]
        day_cut.pick_near [of off day now] assms(4,6) by (auto simp: Let_def ahead)
  next
    case natural
    then show ?thesis
      using natural_window [OF assms(1-3), of day anchor] day_cut.pick_bounds [of off 1 now]
        day_cut.pick_near [of off 1 now] assms(6) by (auto simp: Let_def ahead)
  qed
qed

lemma parse_format_month:
  assumes "zone_ok off" "12 \<le> month_of off t" "month_of off t < 119988"
  shows "parse_rfc3339 (format_rfc3339 t) = Some t"
proof -
  obtain y m d where t: "date_in utc t = (y, m, d)" by (metis prod_cases3)
  note p = instant_parts [OF t]
  obtain y' m' d' where t': "date_in (fixed_zone off) t = (y', m', d')" "month_index y' m' = month_of off t"
    by (rule month_ofE)
  note p' = instant_parts [OF t'(1), unfolded t'(2)]
  let ?k = "month_index y m" and ?k' = "month_of off t"
  define A A' where "A = month_start ?k + d - 1" and "A' = month_start ?k' + d' - 1"
  have "(A * 86400 + clock_in utc t) * 1000000000 + nsec_of t =
      (A' * 86400 + clock_in (fixed_zone off) t - off) * 1000000000 + nsec_of t"
    using p(5) p'(5) unfolding local_instant_def A_def A'_def by simp
  then have "A * 86400 + clock_in utc t = A' * 86400 + clock_in (fixed_zone off) t - off" by simp
  then have near: "A \<le> A' + 2" "A' \<le> A + 2"
    using clock_in_bounds [of utc t] clock_in_bounds [of "fixed_zone off" t] assms(1)
    by (simp_all add: zone_ok_def)
  have lo: "month_start ?k \<le> A" "month_start ?k' \<le> A'" using p(3) p'(3) by (simp_all add: A_def A'_def)
  have hi: "A < month_start (?k + 1)" "A' < month_start (?k' + 1)"
    using p(4) p'(4) by (simp_all add: A_def A'_def month_start_Suc)
  have "0 \<le> y"
  proof (rule ccontr)
    assume "\<not> 0 \<le> y"
    then have "?k + 1 \<le> 0" using p(2) by (simp add: month_index_def)
    with assms(2) have "month_start (?k + 1) + 28 * (?k' - (?k + 1)) \<le> month_start ?k'" by (intro month_start_mono) simp
    with \<open>?k + 1 \<le> 0\<close> show False using near hi lo assms(2) by simp
  qed
  moreover have "y < 10000"
  proof (rule ccontr)
    assume "\<not> y < 10000"
    then have k: "120000 \<le> ?k" using p(1) by (simp add: month_index_def)
    with assms(3) have "month_start (?k' + 1) + 28 * (?k - (?k' + 1)) \<le> month_start ?k" by (intro month_start_mono) simp
    with k show False using near hi lo assms(3) by simp
  qed
  ultimately show ?thesis using parse_format_rfc3339 [OF t] by simp
qed

end
