(* ===== verification/Quota.thy ===== *)
theory Quota
  imports TrafficWindow
begin

text \<open>
  The traffic quota of one runtime user: \<^verbatim>\<open>runtimeState\<close> with its policy, counters and
  period rollover in \<^verbatim>\<open>minibox/ratelimit.go\<close>. States of one user share a usage object, so
  usages live in a heap and a state holds an address. A method reads the clock once
  (\<open>now\<close>); the zone database (\<open>zones\<close>) and the random epoch of new counters (\<open>ep\<close>) are
  arguments. Byte counters are 64-bit, with the wrap-around of \<^verbatim>\<open>atomic.Int64.Add\<close>.
\<close>

subsection \<open>Data\<close>

record limit =
  qAuthKey :: string
  qUser :: int
  qInbound :: int
  qPath :: int
  qDevice :: string
  qEpoch :: int
  qStatus :: string
  qBillable :: bool
  qSpeed :: int
  qTrafficLimit :: int
  qBaseline :: int
  qLease :: int
  qResetLease :: int
  qLeaseEnforced :: bool
  qPeriodKey :: string
  qPeriodStart :: string
  qPeriodEnd :: string
  qResetMode :: string
  qResetDay :: int
  qAnchor :: string
  qPrevPeriod :: string
  qZone :: string
  qQuota :: string

definition zero_limit :: limit where
  "zero_limit = \<lparr>qAuthKey = [], qUser = 0, qInbound = 0, qPath = 0, qDevice = [], qEpoch = 0,
     qStatus = [], qBillable = False, qSpeed = 0, qTrafficLimit = 0, qBaseline = 0, qLease = 0,
     qResetLease = 0, qLeaseEnforced = False, qPeriodKey = [], qPeriodStart = [], qPeriodEnd = [],
     qResetMode = [], qResetDay = 0, qAnchor = [], qPrevPeriod = [], qZone = [], qQuota = []\<rparr>"

record rt_counters =
  ctEpoch :: string
  ctUp :: int
  ctDown :: int
  ctAckUp :: int
  ctAckDown :: int

definition new_counters :: "string \<Rightarrow> rt_counters" where
  "new_counters ep = \<lparr>ctEpoch = ep, ctUp = 0, ctDown = 0, ctAckUp = 0, ctAckDown = 0\<rparr>"

record usage_period =
  upUp :: int
  upDown :: int
  upAckUp :: int
  upAckDown :: int

definition zero_period :: usage_period where
  "zero_period = \<lparr>upUp = 0, upDown = 0, upAckUp = 0, upAckDown = 0\<rparr>"

type_synonym user_usage = "(string, usage_period) gomap"
type_synonym usages = "(nat, user_usage) gomap"

record rt_state =
  rsKey :: string
  rsUser :: string
  rsInbound :: string
  rsPolicy :: limit
  rsLimiter :: "(int \<times> int) option"
  rsCounters :: rt_counters
  rsUsage :: "nat option"

subsection \<open>Limiters\<close>

definition rateLimitIOChunk :: int where
  "rateLimitIOChunk = 65536"

text \<open>Bytes per second and burst of the two token buckets of a policy.\<close>

definition newRuntimeLimiters :: "limit \<Rightarrow> (int \<times> int) option" where
  "newRuntimeLimiters l =
     (if qSpeed l \<le> 0 then None
      else let bps = quo (i64 (qSpeed l * 1000000)) 8 in
        if bps \<le> 0 then None else Some (bps, max (quo bps 5) rateLimitIOChunk))"

subsection \<open>Policies and period rollover\<close>

definition storePolicy :: "string \<Rightarrow> limit \<Rightarrow> bool \<Rightarrow> rt_state \<Rightarrow> rt_state" where
  "storePolicy ep l reset s = s\<lparr>rsPolicy := l, rsLimiter := newRuntimeLimiters l,
     rsCounters := (if reset then new_counters ep else rsCounters s)\<rparr>"

definition newRuntimeState :: "string \<Rightarrow> string \<Rightarrow> string \<Rightarrow> string \<Rightarrow> limit \<Rightarrow> rt_state" where
  "newRuntimeState ep key user inbound l = storePolicy ep l True
     \<lparr>rsKey = key, rsUser = user, rsInbound = inbound, rsPolicy = zero_limit, rsLimiter = None,
      rsCounters = new_counters [], rsUsage = None\<rparr>"

fun period_over :: "instant \<Rightarrow> instant option \<Rightarrow> bool" where
  "period_over now None = False"
| "period_over now (Some end) = (\<not> now < end)"

fun zone_or_default :: "location option \<Rightarrow> location" where
  "zone_or_default None = shanghai"
| "zone_or_default (Some loc) = loc"

definition policy_zone :: "(string \<Rightarrow> location option) \<Rightarrow> limit \<Rightarrow> location" where
  "policy_zone zones l = (if qZone l \<noteq> [] then zone_or_default (zones (qZone l)) else shanghai)"

fun instant_or_zero :: "instant option \<Rightarrow> instant" where
  "instant_or_zero None = zero_time"
| "instant_or_zero (Some t) = t"

definition policy_anchor :: "limit \<Rightarrow> instant" where
  "policy_anchor l = (if qAnchor l \<noteq> [] then instant_or_zero (parse_rfc3339 (qAnchor l)) else zero_time)"

fun roll_policy :: "limit \<Rightarrow> string \<times> instant \<times> instant \<Rightarrow> limit" where
  "roll_policy l (key, start, end) = l\<lparr>qPeriodKey := key, qPeriodStart := format_rfc3339 start,
     qPeriodEnd := format_rfc3339 end, qBaseline := 0,
     qLease := (if qLeaseEnforced l then qResetLease l else qLease l), qQuota := ''active''\<rparr>"

definition period_ended :: "instant \<Rightarrow> limit \<Rightarrow> bool" where
  "period_ended now l \<longleftrightarrow> qPeriodEnd l \<noteq> [] \<and> period_over now (parse_rfc3339 (qPeriodEnd l))"

text \<open>\<^verbatim>\<open>currentConfig\<close>: the state with its period rolled over if it has ended.\<close>

definition currentConfig :: "(string \<Rightarrow> location option) \<Rightarrow> instant \<Rightarrow> string \<Rightarrow> rt_state \<Rightarrow> rt_state" where
  "currentConfig zones now ep s = (let l = rsPolicy s in
     if period_ended now l
     then storePolicy ep
            (roll_policy l (runtimeTrafficWindow now (qResetMode l) (qResetDay l) (policy_anchor l) (policy_zone zones l)))
            (qPrevPeriod l = [] \<or> qPrevPeriod l \<noteq> qPeriodKey l) s
     else s)"

subsection \<open>Usage\<close>

definition get_usage :: "nat \<Rightarrow> usages \<Rightarrow> user_usage" where
  "get_usage u us = (case gm_get us u of None \<Rightarrow> [] | Some m \<Rightarrow> m)"

text \<open>\<^verbatim>\<open>runtimeUserUsage.period\<close>: a missing period reads as zero.\<close>

definition get_period :: "nat \<Rightarrow> string \<Rightarrow> usages \<Rightarrow> usage_period" where
  "get_period u key us = (case gm_get (get_usage u us) key of None \<Rightarrow> zero_period | Some p \<Rightarrow> p)"

definition put_period :: "nat \<Rightarrow> string \<Rightarrow> usage_period \<Rightarrow> usages \<Rightarrow> usages" where
  "put_period u key p us = gm_put u (gm_put key p (get_usage u us)) us"

definition add_counter :: "int \<Rightarrow> int \<Rightarrow> int" where
  "add_counter c n = (if 0 < n then i64 (c + n) else c)"

definition billable :: "limit \<Rightarrow> bool" where
  "billable l \<longleftrightarrow> qBillable l \<and> 0 < qUser l"

fun add_usage :: "nat option \<Rightarrow> string \<Rightarrow> int \<Rightarrow> int \<Rightarrow> usages \<Rightarrow> usages" where
  "add_usage None key upload download us = us"
| "add_usage (Some u) key upload download us = (let p = get_period u key us in
     put_period u key (p\<lparr>upUp := add_counter (upUp p) upload, upDown := add_counter (upDown p) download\<rparr>) us)"

text \<open>\<^verbatim>\<open>runtimeState.addTraffic\<close> on the state after \<^verbatim>\<open>currentConfig\<close>.\<close>

definition count_traffic :: "int \<Rightarrow> int \<Rightarrow> rt_state \<Rightarrow> rt_state" where
  "count_traffic upload download s = s\<lparr>rsCounters := (rsCounters s)\<lparr>
     ctUp := add_counter (ctUp (rsCounters s)) upload,
     ctDown := add_counter (ctDown (rsCounters s)) download\<rparr>\<rparr>"

definition addTraffic :: "(string \<Rightarrow> location option) \<Rightarrow> instant \<Rightarrow> string \<Rightarrow> int \<Rightarrow> int \<Rightarrow>
    usages \<times> rt_state \<Rightarrow> usages \<times> rt_state" where
  "addTraffic zones now ep upload download w =
     (let us = fst w; s = currentConfig zones now ep (snd w) in
      if \<not> billable (rsPolicy s) then (us, s)
      else (add_usage (rsUsage s) (qPeriodKey (rsPolicy s)) upload download us,
            count_traffic upload download s))"

definition runtimePositiveDifference :: "int \<Rightarrow> int \<Rightarrow> int" where
  "runtimePositiveDifference tot acked = (if tot \<le> acked then 0 else i64 (tot - acked))"

definition period_unacknowledged :: "usage_period \<Rightarrow> int" where
  "period_unacknowledged p = i64 (runtimePositiveDifference (upUp p) (upAckUp p)
     + runtimePositiveDifference (upDown p) (upAckDown p))"

definition counters_unacknowledged :: "rt_counters \<Rightarrow> int" where
  "counters_unacknowledged c = i64 (runtimePositiveDifference (ctUp c) (ctAckUp c)
     + runtimePositiveDifference (ctDown c) (ctAckDown c))"

definition unacknowledged :: "usages \<Rightarrow> rt_state \<Rightarrow> int" where
  "unacknowledged us s = (case rsUsage s of
       Some u \<Rightarrow> period_unacknowledged (get_period u (qPeriodKey (rsPolicy s)) us)
     | None \<Rightarrow> counters_unacknowledged (rsCounters s))"

subsection \<open>The quota verdict\<close>

definition normalizeCredentialStatus :: "string \<Rightarrow> string" where
  "normalizeCredentialStatus v = (let w = to_lower (trim_space v) in if w = [] then ''active'' else w)"

definition runtimeEffectiveCap :: "limit \<Rightarrow> int" where
  "runtimeEffectiveCap l =
     (if qTrafficLimit l \<le> 0 then 0
      else if \<not> qLeaseEnforced l then qTrafficLimit l
      else min (i64 (qBaseline l + max (qLease l) 0)) (qTrafficLimit l))"

definition runtimeConfigDenied :: "limit \<Rightarrow> int \<Rightarrow> bool" where
  "runtimeConfigDenied l unacked =
     (if normalizeCredentialStatus (qStatus l) \<noteq> ''active'' then True
      else if \<not> billable l then False
      else if qQuota l = ''quota_exceeded'' then True
      else if qTrafficLimit l \<le> 0 then False
      else runtimeEffectiveCap l \<le> i64 (qBaseline l + unacked))"

text \<open>\<^verbatim>\<open>quotaDeniedFor\<close>, on the state after \<^verbatim>\<open>currentConfig\<close>.\<close>

definition quotaDeniedFor :: "usages \<Rightarrow> bool \<Rightarrow> rt_state \<Rightarrow> bool" where
  "quotaDeniedFor us admitted s =
     (let st = normalizeCredentialStatus (qStatus (rsPolicy s)) in
      if st = ''active'' then runtimeConfigDenied (rsPolicy s) (unacknowledged us s)
      else if st = ''reject_new'' then \<not> admitted
      else True)"

subsection \<open>Acknowledgement and policy updates\<close>

record checkpoint =
  kpEpoch :: string
  kpPeriod :: string
  kpUp :: int
  kpDown :: int

text \<open>The acknowledged total after a checkpoint: within what was counted and never lower.\<close>

definition acked_total :: "int \<Rightarrow> int \<Rightarrow> int \<Rightarrow> int" where
  "acked_total reported counted previous = max (max (min reported counted) 0) previous"

fun ack_usage :: "nat option \<Rightarrow> string \<Rightarrow> int \<Rightarrow> int \<Rightarrow> usages \<Rightarrow> usages" where
  "ack_usage None key up down us = us"
| "ack_usage (Some u) key up down us = (let p = get_period u key us in
     put_period u key (p\<lparr>upAckUp := i64 (upAckUp p + up), upAckDown := i64 (upAckDown p + down)\<rparr>) us)"

definition acknowledge :: "checkpoint \<Rightarrow> usages \<times> rt_state \<Rightarrow> usages \<times> rt_state" where
  "acknowledge k w =
     (let us = fst w; s = snd w; c = rsCounters s in
      if kpPeriod k = [] then w
      else if qPeriodKey (rsPolicy s) \<noteq> kpPeriod k then w
      else if kpEpoch k \<noteq> [] \<and> kpEpoch k \<noteq> ctEpoch c then w
      else let up = acked_total (kpUp k) (ctUp c) (ctAckUp c);
               down = acked_total (kpDown k) (ctDown c) (ctAckDown c) in
        (ack_usage (rsUsage s) (kpPeriod k) (i64 (up - ctAckUp c)) (i64 (down - ctAckDown c)) us,
         s\<lparr>rsCounters := c\<lparr>ctAckUp := up, ctAckDown := down\<rparr>\<rparr>))"

definition updatePolicy :: "string \<Rightarrow> limit \<Rightarrow> rt_state \<Rightarrow> rt_state" where
  "updatePolicy ep l s =
     (let cur = rsPolicy s;
          changed = (qPeriodKey cur \<noteq> [] \<and> qPeriodKey l \<noteq> [] \<and> qPeriodKey cur \<noteq> qPeriodKey l);
          reset = (changed \<and> (qPrevPeriod l = [] \<or> qPrevPeriod l \<noteq> qPeriodKey cur))
      in storePolicy ep l reset s)"

record traffic_counter =
  tcKey :: string
  tcEpoch :: string
  tcUser :: string
  tcInbound :: string
  tcUserID :: int
  tcInboundID :: int
  tcPathID :: int
  tcPeriod :: string
  tcUp :: int
  tcDown :: int

definition state_snapshot :: "rt_state \<Rightarrow> traffic_counter option" where
  "state_snapshot s = (let c = rsCounters s; l = rsPolicy s in
     if ctUp c = 0 \<and> ctDown c = 0 then None
     else Some \<lparr>tcKey = rsKey s, tcEpoch = ctEpoch c, tcUser = rsUser s, tcInbound = rsInbound s,
       tcUserID = qUser l, tcInboundID = qInbound l, tcPathID = qPath l, tcPeriod = qPeriodKey l,
       tcUp = ctUp c, tcDown = ctDown c\<rparr>)"

subsection \<open>Merging\<close>

definition mergeRuntimePolicy :: "limit \<Rightarrow> limit \<Rightarrow> limit" where
  "mergeRuntimePolicy current update = update\<lparr>qInbound := qInbound current, qUser := qUser current,
     qAuthKey := qAuthKey current, qDevice := qDevice current, qEpoch := qEpoch current,
     qStatus := qStatus current, qPath := qPath current\<rparr>"

definition mergeRuntimeIdentity :: "limit \<Rightarrow> limit \<Rightarrow> limit" where
  "mergeRuntimeIdentity current update = current\<lparr>
     qAuthKey := (if qAuthKey update \<noteq> [] then qAuthKey update else qAuthKey current),
     qUser := (if 0 < qUser update then qUser update else qUser current),
     qInbound := (if 0 < qInbound update then qInbound update else qInbound current),
     qPath := qPath update, qDevice := qDevice update, qEpoch := qEpoch update, qStatus := qStatus update,
     qSpeed := (if qSpeed update \<noteq> 0 then qSpeed update else qSpeed current),
     qTrafficLimit := (if qTrafficLimit update \<noteq> 0 then qTrafficLimit update else qTrafficLimit current),
     qLease := (if qLease update \<noteq> 0 then qLease update else qLease current),
     qBillable := (qBillable update \<or> qBillable current),
     qLeaseEnforced := (qLeaseEnforced update \<or> qLeaseEnforced current)\<rparr>"

subsection \<open>Invariant of the counters\<close>

definition counters_ok :: "rt_counters \<Rightarrow> bool" where
  "counters_ok c \<longleftrightarrow> 0 \<le> ctAckUp c \<and> ctAckUp c \<le> ctUp c \<and> ctUp c \<le> max_i64
     \<and> 0 \<le> ctAckDown c \<and> ctAckDown c \<le> ctDown c \<and> ctDown c \<le> max_i64"

lemma new_counters_ok [simp]: "counters_ok (new_counters ep)"
  by (simp add: counters_ok_def new_counters_def max_i64_def)

lemma currentConfig_counters:
  "rsCounters (currentConfig zones now ep s) = rsCounters s \<or> rsCounters (currentConfig zones now ep s) = new_counters ep"
  by (simp add: currentConfig_def storePolicy_def Let_def)

lemma currentConfig_usage [simp]: "rsUsage (currentConfig zones now ep s) = rsUsage s"
  by (simp add: currentConfig_def storePolicy_def Let_def)

lemma currentConfig_open: "\<not> period_ended now (rsPolicy s) \<Longrightarrow> currentConfig zones now ep s = s"
  by (simp add: currentConfig_def Let_def)

lemma acked_total_bounds:
  assumes "0 \<le> a" "a \<le> c"
  shows "a \<le> acked_total r c a \<and> acked_total r c a \<le> c"
  using assms by (auto simp: acked_total_def)

lemma acked_total_idem:
  assumes "0 \<le> a" "a \<le> c" "r' \<le> r"
  shows "acked_total r' c (acked_total r c a) = acked_total r c a"
  using assms by (auto simp: acked_total_def)

lemma i64_nonneg: "0 \<le> x \<Longrightarrow> x \<le> max_i64 \<Longrightarrow> i64 x = x"
  by (rule i64_id) (simp add: in_i64_def min_i64_def)

lemma i64_0 [simp]: "i64 0 = 0"
  by (simp add: i64_nonneg max_i64_def)

subsection \<open>Periods\<close>

lemma get_period_put:
  "get_period v key' (put_period u key p us) = (if v = u \<and> key' = key then p else get_period v key' us)"
  by (auto simp: get_period_def put_period_def get_usage_def)

lemma acknowledge_policy [simp]: "rsPolicy (snd (acknowledge k w)) = rsPolicy (snd w)"
  "rsUsage (snd (acknowledge k w)) = rsUsage (snd w)"
  "ctEpoch (rsCounters (snd (acknowledge k w))) = ctEpoch (rsCounters (snd w))"
  "ctUp (rsCounters (snd (acknowledge k w))) = ctUp (rsCounters (snd w))"
  "ctDown (rsCounters (snd (acknowledge k w))) = ctDown (rsCounters (snd w))"
  by (simp_all add: acknowledge_def Let_def)

text \<open>Whether a checkpoint is about the counters the state has now.\<close>

definition checkpoint_applies :: "checkpoint \<Rightarrow> rt_state \<Rightarrow> bool" where
  "checkpoint_applies k s \<longleftrightarrow> kpPeriod k \<noteq> [] \<and> qPeriodKey (rsPolicy s) = kpPeriod k
     \<and> (kpEpoch k = [] \<or> kpEpoch k = ctEpoch (rsCounters s))"

lemma acknowledge_ignored: "\<not> checkpoint_applies k (snd w) \<Longrightarrow> acknowledge k w = w"
  by (auto simp: acknowledge_def checkpoint_applies_def Let_def)

lemma acknowledge_counters:
  assumes "checkpoint_applies k s"
  shows "rsCounters (snd (acknowledge k (us, s))) = (rsCounters s)\<lparr>
      ctAckUp := acked_total (kpUp k) (ctUp (rsCounters s)) (ctAckUp (rsCounters s)),
      ctAckDown := acked_total (kpDown k) (ctDown (rsCounters s)) (ctAckDown (rsCounters s))\<rparr>"
  using assms by (auto simp: acknowledge_def checkpoint_applies_def Let_def)

text \<open>C32: Acknowledgement is within what was counted. A checkpoint never lowers an acknowledged
  total, never raises it above the counted total, and leaves the counted totals alone;
  one for another period or another counter epoch changes nothing at all.\<close>

theorem acknowledge_bounds:
  assumes "counters_ok (rsCounters s)"
  shows "let c = rsCounters s; c' = rsCounters (snd (acknowledge k (us, s))) in
    counters_ok c' \<and> ctAckUp c \<le> ctAckUp c' \<and> ctAckDown c \<le> ctAckDown c' \<and> ctUp c' = ctUp c \<and> ctDown c' = ctDown c
    \<and> (kpPeriod k = [] \<or> qPeriodKey (rsPolicy s) \<noteq> kpPeriod k \<or> kpEpoch k \<noteq> [] \<and> kpEpoch k \<noteq> ctEpoch c \<longrightarrow>
        acknowledge k (us, s) = (us, s))"
proof (cases "checkpoint_applies k s")
  case True
  then show ?thesis
    using assms acked_total_bounds [of "ctAckUp (rsCounters s)" "ctUp (rsCounters s)" "kpUp k"]
      acked_total_bounds [of "ctAckDown (rsCounters s)" "ctDown (rsCounters s)" "kpDown k"]
    by (auto simp: acknowledge_counters counters_ok_def checkpoint_applies_def Let_def)
next
  case False
  then show ?thesis using assms acknowledge_ignored [of k "(us, s)"] by simp
qed

text \<open>C31: Replay and reordering. Once a checkpoint has been acknowledged, delivering it again, or an
  older one of the same epoch and period with totals that are not larger, changes neither the
  state's counters nor the user's shared usage.\<close>

theorem acknowledge_stale_is_noop:
  assumes "counters_ok (rsCounters s)" "kpUp k' \<le> kpUp k" "kpDown k' \<le> kpDown k"
    "kpPeriod k' = kpPeriod k" "kpEpoch k' = kpEpoch k" "w = acknowledge k (us, s)"
    "case rsUsage s of None \<Rightarrow> True | Some u \<Rightarrow> (let p = get_period u (kpPeriod k) (fst w) in
       in_i64 (upAckUp p) \<and> in_i64 (upAckDown p))"
  shows "snd (acknowledge k' w) = snd w \<and>
    (\<forall>u key. get_period u key (fst (acknowledge k' w)) = get_period u key (fst w))"
proof (cases "checkpoint_applies k s")
  case False
  then have "w = (us, s)" "\<not> checkpoint_applies k' s"
    using assms(4-6) acknowledge_ignored [of k "(us, s)"] by (auto simp: checkpoint_applies_def)
  then show ?thesis using acknowledge_ignored [of k' w] by simp
next
  case True
  define s' where "s' = snd w"
  let ?c = "rsCounters s" and ?c' = "rsCounters s'"
  have c': "?c' = ?c\<lparr>ctAckUp := acked_total (kpUp k) (ctUp ?c) (ctAckUp ?c),
      ctAckDown := acked_total (kpDown k) (ctDown ?c) (ctAckDown ?c)\<rparr>"
    using acknowledge_counters [OF True] assms(6) by (simp add: s'_def)
  have same: "acked_total (kpUp k') (ctUp ?c') (ctAckUp ?c') = ctAckUp ?c'"
    "acked_total (kpDown k') (ctDown ?c') (ctAckDown ?c') = ctAckDown ?c'"
    using assms(1-3) by (simp_all add: c' acked_total_idem counters_ok_def)
  have w: "w = (fst w, s')" by (simp add: s'_def)
  have usage: "rsUsage s' = rsUsage s" by (simp add: s'_def assms(6))
  have unit: "s'\<lparr>rsCounters := ?c'\<lparr>ctAckUp := ctAckUp ?c', ctAckDown := ctAckDown ?c'\<rparr>\<rparr> = s'" by simp
  show ?thesis
  proof (cases "rsUsage s")
    case None
    then show ?thesis
      by (subst (1 2 3) w) (auto simp: acknowledge_def Let_def same usage unit)
  next
    case (Some u)
    define p where "p = get_period u (kpPeriod k) (fst w)"
    have "i64 (upAckUp p + 0) = upAckUp p" "i64 (upAckDown p + 0) = upAckDown p"
      using assms(7) Some by (simp_all add: i64_id p_def Let_def)
    then show ?thesis
      by (subst (1 2 3) w) (auto simp: acknowledge_def Let_def same usage unit Some assms(4) get_period_put p_def)
  qed
qed

subsection \<open>The shared usage follows the counters\<close>

datatype quota_op =
  QAdd instant string int int
| QAck checkpoint

fun quota_step :: "(string \<Rightarrow> location option) \<Rightarrow> quota_op \<Rightarrow> usages \<times> rt_state \<Rightarrow> usages \<times> rt_state" where
  "quota_step zones (QAdd now ep up down) w = addTraffic zones now ep up down w"
| "quota_step zones (QAck k) w = acknowledge k w"

definition quota_run :: "(string \<Rightarrow> location option) \<Rightarrow> quota_op list \<Rightarrow> usages \<times> rt_state \<Rightarrow> usages \<times> rt_state" where
  "quota_run zones ops w = fold (quota_step zones) ops w"

lemma quota_run_simps [simp]:
  "quota_run zones [] w = w" "quota_run zones (op # ops) w = quota_run zones ops (quota_step zones op w)"
  by (simp_all add: quota_run_def)

text \<open>Operations while the period of the policy has not ended.\<close>

fun in_period :: "limit \<Rightarrow> quota_op \<Rightarrow> bool" where
  "in_period l (QAdd now _ _ _) \<longleftrightarrow> \<not> period_ended now l"
| "in_period l (QAck _) = True"

abbreviation two64 :: int where
  "two64 \<equiv> 18446744073709551616"

lemma i64_mod: "i64 x mod two64 = x mod two64"
  by (simp add: i64_def mod_diff_left_eq)

text \<open>The distance of the four usage counters from the four state counters, modulo 64 bits.\<close>

definition usage_lead :: "usage_period \<Rightarrow> rt_counters \<Rightarrow> int list" where
  "usage_lead p c = [(upUp p - ctUp c) mod two64, (upDown p - ctDown c) mod two64,
     (upAckUp p - ctAckUp c) mod two64, (upAckDown p - ctAckDown c) mod two64]"

lemma add_counter_lead: "(add_counter a n - add_counter b n) mod two64 = (a - b) mod two64"
proof -
  have "(i64 (a + n) - i64 (b + n)) mod two64 = ((a + n) - (b + n)) mod two64"
    by (rule mod_diff_cong) (simp_all only: i64_mod)
  then show ?thesis by (simp add: add_counter_def)
qed

lemma ack_lead: "(i64 (a + i64 (t - c)) - t) mod two64 = (a - c) mod two64"
proof -
  have "i64 (a + i64 (t - c)) mod two64 = (a + (t - c)) mod two64"
    by (metis i64_mod mod_add_right_eq)
  then have "(i64 (a + i64 (t - c)) - t) mod two64 = (a + (t - c) - t) mod two64"
    by (rule mod_diff_cong) simp
  then show ?thesis by simp
qed

lemma quota_step_lead:
  assumes "rsUsage s = Some u" "in_period (rsPolicy s) op" "quota_step zones op (us, s) = (us', s')"
  shows "rsUsage s' = Some u \<and> rsPolicy s' = rsPolicy s \<and>
    usage_lead (get_period u (qPeriodKey (rsPolicy s)) us') (rsCounters s') =
    usage_lead (get_period u (qPeriodKey (rsPolicy s)) us) (rsCounters s)"
proof (cases op)
  case (QAdd now ep up down)
  then have "currentConfig zones now ep s = s" using assms(2) by (simp add: currentConfig_open)
  then show ?thesis
    using assms(1,3) QAdd
    by (auto simp: addTraffic_def Let_def count_traffic_def get_period_put usage_lead_def add_counter_lead
        split: if_splits)
next
  case (QAck k)
  then show ?thesis
    using assms(1,3)
    by (auto simp: acknowledge_def Let_def get_period_put usage_lead_def ack_lead split: if_splits)
qed


subsection \<open>The quota verdict\<close>

lemma positive_difference_nonneg:
  "0 \<le> a \<Longrightarrow> a \<le> t \<Longrightarrow> t \<le> max_i64 \<Longrightarrow> runtimePositiveDifference t a = t - a"
  by (simp add: runtimePositiveDifference_def i64_nonneg)



text \<open>A renamed period forgets the shared usage. When a policy renames the period (the previous
  key names the current period), the state's counters are kept, but the usage shared by the
  user's states is read under the new key, so the unacknowledged bytes the quota is checked
  against drop to zero.\<close>

theorem renamed_period_forgets_usage:
  assumes "rsUsage s = Some u" "qPeriodKey l \<noteq> []" "qPrevPeriod l = qPeriodKey (rsPolicy s)"
    "get_period u (qPeriodKey l) us = zero_period"
  shows "rsCounters (updatePolicy ep l s) = rsCounters s \<and> unacknowledged us (updatePolicy ep l s) = 0"
  using assms
  by (auto simp: updatePolicy_def storePolicy_def unacknowledged_def period_unacknowledged_def zero_period_def
      runtimePositiveDifference_def Let_def)

subsection \<open>Concrete runs\<close>

definition ex_limit :: limit where
  "ex_limit = zero_limit\<lparr>qUser := 7, qBillable := True, qTrafficLimit := 1000, qBaseline := 100,
     qLease := 50, qResetLease := 20, qLeaseEnforced := True, qPeriodKey := ''2026-07-01'',
     qPeriodEnd := ''2026-07-31T16:00:00Z'', qResetMode := ''natural_month''\<rparr>"

definition ex_state :: rt_state where
  "ex_state = (newRuntimeState ''ce_1'' ''user:alice'' ''alice'' [] ex_limit)\<lparr>rsUsage := Some 0\<rparr>"

definition ex_july :: instant where
  "ex_july = secs 1784000000"

definition ex_checkpoint :: checkpoint where
  "ex_checkpoint = \<lparr>kpEpoch = ''ce_1'', kpPeriod = ''2026-07-01'', kpUp = 3, kpDown = 900\<rparr>"

definition ex_counted :: "usages \<times> rt_state" where
  "ex_counted = quota_run (\<lambda>_. None) [QAdd ex_july ''x'' 5 7, QAck ex_checkpoint] ([], ex_state)"

theorem acknowledge_bounds_witness:
  "let c = rsCounters ex_state; c' = rsCounters (snd (acknowledge ex_checkpoint ([], ex_state))) in
    counters_ok c' \<and> ctAckUp c \<le> ctAckUp c' \<and> ctAckDown c \<le> ctAckDown c' \<and> ctUp c' = ctUp c \<and> ctDown c' = ctDown c"
proof -
  have "counters_ok (rsCounters ex_state)" by code_simp
  from acknowledge_bounds [OF this, of ex_checkpoint "[]"] show ?thesis by (simp only: Let_def)
qed

theorem acknowledge_stale_is_noop_witness:
  "snd (acknowledge (ex_checkpoint\<lparr>kpUp := 1\<rparr>) ex_counted) = snd ex_counted"
proof -
  let ?w = "quota_run (\<lambda>_. None) [QAdd ex_july ''x'' 5 7] ([], ex_state)"
  have "counters_ok (rsCounters (snd ?w))" "kpUp (ex_checkpoint\<lparr>kpUp := 1\<rparr>) \<le> kpUp ex_checkpoint"
    "kpDown (ex_checkpoint\<lparr>kpUp := 1\<rparr>) \<le> kpDown ex_checkpoint"
    "kpPeriod (ex_checkpoint\<lparr>kpUp := 1\<rparr>) = kpPeriod ex_checkpoint"
    "kpEpoch (ex_checkpoint\<lparr>kpUp := 1\<rparr>) = kpEpoch ex_checkpoint"
    "ex_counted = acknowledge ex_checkpoint (fst ?w, snd ?w)"
    "case rsUsage (snd ?w) of None \<Rightarrow> True | Some u \<Rightarrow> (let p = get_period u (kpPeriod ex_checkpoint) (fst ex_counted) in
       in_i64 (upAckUp p) \<and> in_i64 (upAckDown p))"
    by code_simp+
  from acknowledge_stale_is_noop [OF this] show ?thesis by blast
qed



definition ex_rolled :: rt_state where
  "ex_rolled = currentConfig (\<lambda>_. None) (secs 1786000000) ''ce_2'' ex_state"


theorem renamed_period_forgets_usage_witness:
  "unacknowledged (fst ex_counted) (snd ex_counted) = 2 \<and>
   unacknowledged (fst ex_counted) (updatePolicy ''ce_9'' (ex_limit\<lparr>qPeriodKey := ''p2'', qPrevPeriod := ''2026-07-01''\<rparr>)
     (snd ex_counted)) = 0"
proof -
  let ?l = "ex_limit\<lparr>qPeriodKey := ''p2'', qPrevPeriod := ''2026-07-01''\<rparr>"
  have "rsUsage (snd ex_counted) = Some 0" "qPeriodKey ?l \<noteq> []"
    "qPrevPeriod ?l = qPeriodKey (rsPolicy (snd ex_counted))"
    "get_period 0 (qPeriodKey ?l) (fst ex_counted) = zero_period" by code_simp+
  from renamed_period_forgets_usage [OF this, of "''ce_9''"]
  have "unacknowledged (fst ex_counted) (updatePolicy ''ce_9'' ?l (snd ex_counted)) = 0" by blast
  moreover have "unacknowledged (fst ex_counted) (snd ex_counted) = 2" by code_simp
  ultimately show ?thesis by blast
qed

end
