(* ===== verification/GoText.thy ===== *)
theory GoText
  imports GoTime Netip
begin

text \<open>
  The text functions of Go's library that the components call: \<^verbatim>\<open>strings.Split\<close>,
  \<^verbatim>\<open>strings.Fields\<close>, \<^verbatim>\<open>strings.Contains\<close>, \<^verbatim>\<open>strconv.ParseInt\<close> and \<^verbatim>\<open>strconv.ParseUint\<close>, with
  the round trips between printing and parsing. Unsigned 64-bit values are natural
  numbers, and \<open>u64\<close> is written where an operation of the sources can wrap around.
\<close>

definition u64 :: "nat \<Rightarrow> nat" where
  "u64 x = x mod 18446744073709551616"

lemma u64_id: "x < 2 ^ 64 \<Longrightarrow> u64 x = x"
  by (simp add: u64_def)

subsection \<open>Splitting\<close>

fun cons_first :: "char \<Rightarrow> string list \<Rightarrow> string list" where
  "cons_first x [] = [[x]]"
| "cons_first x (p # ps) = (x # p) # ps"

text \<open>\<^verbatim>\<open>strings.Split\<close> on one byte.\<close>

fun split_on :: "char \<Rightarrow> string \<Rightarrow> string list" where
  "split_on c [] = [[]]"
| "split_on c (x # xs) = (if x = c then [] # split_on c xs else cons_first x (split_on c xs))"

lemma cons_first_ne [simp]: "cons_first x ps \<noteq> []"
  by (cases ps) simp_all

lemma split_on_ne [simp]: "split_on c s \<noteq> []"
  by (cases s) simp_all

lemma split_on_free: "c \<notin> set w \<Longrightarrow> split_on c (w @ c # s) = w # split_on c s"
  by (induction w) auto

lemma split_on_word: "c \<notin> set w \<Longrightarrow> split_on c w = [w]"
  by (induction w) auto

text \<open>Splitting undoes joining, when no part contains the separator.\<close>

lemma split_join: "ps \<noteq> [] \<Longrightarrow> \<forall>p \<in> set ps. c \<notin> set p \<Longrightarrow> split_on c (join [c] ps) = ps"
  by (induction "[c]" ps rule: join.induct) (auto simp: split_on_free split_on_word)

text \<open>\<^verbatim>\<open>strings.Fields\<close>: the maximal runs without white space.\<close>

definition flush :: "string \<Rightarrow> string list \<Rightarrow> string list" where
  "flush w ws = (if w = [] then ws else rev w # ws)"

lemma space_runes_ne: "\<forall>p \<in> set space_runes. p \<noteq> []"
  by (auto simp: space_runes_def bytes_def)

definition after_space :: "string \<Rightarrow> string" where
  "after_space s = the_default [] (strip_first space_runes s)"

lemma after_space_shorter:
  assumes "strip_first space_runes s \<noteq> None"
  shows "length (after_space s) < length s"
proof -
  obtain t where "strip_first space_runes s = Some t" using assms by auto
  then show ?thesis by (simp add: after_space_def strip_first_shorter [OF _ space_runes_ne])
qed

function str_fields_from :: "string \<Rightarrow> string \<Rightarrow> string list" where
  "str_fields_from w [] = flush w []"
| "str_fields_from w (c # s) = (if strip_first space_runes (c # s) \<noteq> None
     then flush w (str_fields_from [] (after_space (c # s)))
     else str_fields_from (c # w) s)"
  by pat_completeness auto

termination str_fields_from
  by (relation "measure (\<lambda>(w, s). length s)")
    (use after_space_shorter in fastforce)+

definition str_fields :: "string \<Rightarrow> string list" where
  "str_fields s = str_fields_from [] s"

definition has_suffix :: "string \<Rightarrow> string \<Rightarrow> bool" where
  "has_suffix p s \<longleftrightarrow> has_prefix (rev p) (rev s)"

text \<open>\<^verbatim>\<open>strings.Contains(s, sub)\<close>.\<close>

fun contains :: "string \<Rightarrow> string \<Rightarrow> bool" where
  "contains [] sub = (sub = [])"
| "contains (c # s) sub = (has_prefix sub (c # s) \<or> contains s sub)"

subsection \<open>Numbers\<close>

fun parse_sign :: "string \<Rightarrow> int \<times> string" where
  "parse_sign (c # s) = (if c = CHR ''-'' then (- 1, s) else if c = CHR ''+'' then (1, s) else (1, c # s))"
| "parse_sign [] = (1, [])"

definition parse_nat :: "string \<Rightarrow> int option" where
  "parse_nat s = (if s = [] then None else undigits 0 s)"

fun signed :: "int \<Rightarrow> int option \<Rightarrow> int option" where
  "signed sg None = None"
| "signed sg (Some n) = Some (sg * n)"

fun parse_signed :: "int \<times> string \<Rightarrow> int option" where
  "parse_signed (sg, s) = signed sg (parse_nat s)"

text \<open>\<^verbatim>\<open>strconv.ParseInt(s, 10, 64)\<close> and \<^verbatim>\<open>strconv.Atoi\<close>: \<open>None\<close> is a syntax or range error.\<close>

fun in_range :: "int \<Rightarrow> int \<Rightarrow> int option \<Rightarrow> int option" where
  "in_range lo hi None = None"
| "in_range lo hi (Some n) = (if lo \<le> n \<and> n \<le> hi then Some n else None)"

definition parse_int :: "string \<Rightarrow> int option" where
  "parse_int s = in_range min_i64 max_i64 (parse_signed (parse_sign s))"

text \<open>The value \<^verbatim>\<open>ParseInt\<close> returns when its error is ignored: 0 after a syntax error and the
  nearest bound after a range error.\<close>

fun clamped :: "int \<Rightarrow> int \<Rightarrow> int option \<Rightarrow> int" where
  "clamped lo hi None = 0"
| "clamped lo hi (Some n) = max lo (min hi n)"

definition parse_int64 :: "string \<Rightarrow> int" where
  "parse_int64 s = clamped min_i64 max_i64 (parse_signed (parse_sign s))"

definition parse_uint :: "string \<Rightarrow> nat option" where
  "parse_uint s = map_option nat (in_range 0 18446744073709551615 (parse_nat s))"

definition parse_uint64 :: "string \<Rightarrow> nat" where
  "parse_uint64 s = nat (clamped 0 18446744073709551615 (parse_nat s))"

subsection \<open>Round trips\<close>

lemma ndigits_bound: "n < 10 ^ ndigits n"
proof (induction n rule: ndigits.induct)
  case (1 n)
  show ?case
  proof (cases "n < 10")
    case False
    then have "n div 10 < 10 ^ ndigits (n div 10)" using 1 by simp
    then show ?thesis using False by (subst ndigits.simps) simp
  qed (simp add: ndigits.simps)
qed

lemma ndigits_pos [simp]: "0 < ndigits n"
  by (subst ndigits.simps) simp

lemma format_int_nonneg: "0 \<le> x \<Longrightarrow> format_int x = digits (ndigits (nat x)) x"
  by (simp add: format_int_def append_int_def max_def Suc_leI)

lemma parse_nat_digits:
  assumes "0 \<le> x"
  shows "parse_nat (digits (ndigits (nat x)) x) = Some x"
proof -
  have "x < 10 ^ ndigits (nat x)"
    using ndigits_bound [of "nat x"] assms by (metis of_nat_numeral of_nat_power zless_nat_conj
        zless_nat_eq_int_zless nat_eq_iff2 of_nat_less_iff int_nat_eq)
  moreover have "digits (ndigits (nat x)) x \<noteq> []" by (metis length_digits length_greater_0_conv ndigits_pos)
  ultimately show ?thesis using assms by (simp add: parse_nat_def undigits_digits)
qed

lemma digits_head: "digits n x \<noteq> [] \<Longrightarrow> is_digit (hd (digits n x))"
  using all_digits [of "hd (digits n x)" n x] by simp

lemma parse_sign_digits:
  assumes "s \<noteq> []" "is_digit (hd s)"
  shows "parse_sign s = (1, s)"
  using assms by (cases s) (auto simp: is_digit_def)

lemma parse_signed_format_int: "parse_signed (parse_sign (format_int x)) = Some x"
proof (cases "0 \<le> x")
  case True
  have "digits (ndigits (nat x)) x \<noteq> []" by (metis length_digits length_greater_0_conv ndigits_pos)
  then show ?thesis
    using True by (simp add: format_int_nonneg parse_sign_digits digits_head parse_nat_digits)
next
  case False
  then have "format_int x = CHR ''-'' # digits (ndigits (nat (- x))) (- x)"
    by (simp add: format_int_def append_int_def max_def Suc_leI)
  then show ?thesis using False parse_nat_digits [of "- x"] by simp
qed

lemma parse_format_int: "in_i64 x \<Longrightarrow> parse_int (format_int x) = Some x"
  by (simp add: parse_int_def parse_signed_format_int in_i64_def)

lemma parse_int64_format: "in_i64 x \<Longrightarrow> parse_int64 (format_int x) = x"
  by (simp add: parse_int64_def parse_signed_format_int in_i64_def)

lemma format_int_ne [simp]: "format_int x \<noteq> []"
proof -
  have "digits (max 1 n) y \<noteq> []" for n y
    using length_digits [of "max 1 n" y] by (metis list.size(3) max.cobounded1 not_one_le_zero)
  then show ?thesis by (simp add: format_int_def append_int_def)
qed

lemma format_int_chars: "c \<in> set (format_int x) \<Longrightarrow> is_digit c \<or> c = CHR ''-''"
  by (auto simp: format_int_def append_int_def split: if_splits dest: all_digits)

text \<open>Words of bytes that start no white space are the fields of the line they make up.\<close>

definition word_byte :: "char \<Rightarrow> bool" where
  "word_byte c \<longleftrightarrow> 33 \<le> (of_char c :: nat) \<and> (of_char c :: nat) \<le> 126"

lemma strip_first_None:
  "\<forall>p \<in> set ps. p \<noteq> [] \<and> hd p \<noteq> c \<Longrightarrow> strip_first ps (c # s) = None"
proof (induction ps)
  case (Cons p ps)
  then have "\<not> has_prefix p (c # s)" by (cases p) (auto simp: has_prefix_def)
  with Cons show ?case by simp
qed simp

lemma space_heads: "p \<in> set space_runes \<Longrightarrow> \<not> word_byte (hd p)"
  by (auto simp: space_runes_def bytes_def word_byte_def)

lemma word_byte_no_space: "word_byte c \<Longrightarrow> strip_first space_runes (c # s) = None"
  using space_heads space_runes_ne by (intro strip_first_None) blast

text \<open>For evaluation, a byte that starts no white space is recognised by its value.\<close>

definition space_head :: "char \<Rightarrow> bool" where
  "space_head c \<longleftrightarrow> c \<in> set [CHR 0x09, CHR 0x0A, CHR 0x0B, CHR 0x0C, CHR 0x0D, CHR '' '', CHR 0xC2, CHR 0xE1,
     CHR 0xE2, CHR 0xE3]"

lemma not_space_head: "\<not> space_head c \<Longrightarrow> strip_first space_runes (c # s) = None"
proof (rule strip_first_None)
  have "list_all (\<lambda>p. p \<noteq> [] \<and> space_head (hd p)) space_runes" by code_simp
  moreover assume "\<not> space_head c"
  ultimately show "\<forall>p \<in> set space_runes. p \<noteq> [] \<and> hd p \<noteq> c" by (auto simp: list_all_iff)
qed

lemma str_fields_from_eval [code]:
  "str_fields_from w [] = flush w []"
  "str_fields_from w (c # s) = (if \<not> space_head c then str_fields_from (c # w) s
     else if strip_first space_runes (c # s) \<noteq> None then flush w (str_fields_from [] (after_space (c # s)))
     else str_fields_from (c # w) s)"
  by (simp_all add: not_space_head)

lemma strip_first_append:
  "strip_first ps s = Some t \<Longrightarrow> strip_first (ps @ qs) s = Some t"
  by (induction ps) auto

lemma strip_space: "strip_first space_runes (CHR '' '' # s) = Some s"
proof -
  have "take 6 space_runes = [[CHR 0x09], [CHR 0x0A], [CHR 0x0B], [CHR 0x0C], [CHR 0x0D], '' '']" by code_simp
  then have "strip_first (take 6 space_runes) (CHR '' '' # s) = Some s" by (simp add: has_prefix_def)
  from strip_first_append [OF this, of "drop 6 space_runes"] show ?thesis by simp
qed

lemma str_fields_from_word:
  "list_all word_byte v \<Longrightarrow> str_fields_from w (v @ s) = str_fields_from (rev v @ w) s"
  by (induction v arbitrary: w) (simp_all add: word_byte_no_space)

lemma str_fields_join:
  "list_all (\<lambda>w. w \<noteq> [] \<and> list_all word_byte w) ws \<Longrightarrow> str_fields (join '' '' ws) = ws"
proof (induction "'' ''" ws rule: join.induct)
  case (2 x)
  then show ?case using str_fields_from_word [of x "[]" "[]"] by (simp add: str_fields_def flush_def)
next
  case (3 x y ys)
  then show ?case by (simp add: str_fields_def str_fields_from_word strip_space flush_def after_space_def)
qed (simp add: str_fields_def flush_def)

lemma format_int_word: "list_all word_byte (format_int x)"
proof -
  have "word_byte c" if "c \<in> set (format_int x)" for c
    using format_int_chars [OF that] by (auto simp: word_byte_def is_digit_def)
  then show ?thesis by (simp add: list_all_iff)
qed

text \<open>Words survive \<^verbatim>\<open>strings.TrimSpace\<close>.\<close>

lemma trim_left_word:
  assumes "list_all word_byte s" "\<forall>p \<in> set ps. p \<noteq> [] \<and> \<not> word_byte (hd p)"
  shows "trim_left_of ps s = s"
proof (cases s)
  case (Cons c t)
  then have "strip_first ps s = None" using assms by (auto intro!: strip_first_None)
  then show ?thesis using Cons by (simp add: trim_left_of_def)
qed (simp add: trim_left_of_def)

lemma trim_word: "list_all word_byte s \<Longrightarrow> trim_space s = s"
proof -
  assume s: "list_all word_byte s"
  have "list_all (\<lambda>p. p \<noteq> [] \<and> \<not> word_byte (hd p)) space_runes"
    "list_all (\<lambda>p. p \<noteq> [] \<and> \<not> word_byte (hd p)) (map rev space_runes)" by code_simp+
  then show ?thesis using s trim_left_word [of s space_runes] trim_left_word [of "rev s" "map rev space_runes"]
    by (simp add: trim_space_def list_all_iff)
qed

end
