(* ===== verification/ConnAudit.thy ===== *)
theory ConnAudit
  imports GoText Quota "HOL-Library.Product_Lexorder"
begin

text \<open>
  Connection audit of the kernel (\<^verbatim>\<open>minibox/connection_audit.go\<close>, with the collection
  policy of \<^verbatim>\<open>internal/auditwire/collection.go\<close>): bounded buckets of routed connections, the
  presence events derived from them, and the drains that hand both to the agent. The
  functions run under the audit mutex; the clock is an argument.
\<close>

subsection \<open>Collection policy\<close>

record collection_policy =
  cpMode :: string
  cpBase :: string
  cpUsers :: "int list"
  cpUntil :: instant
  cpRevision :: int

definition collection_valid :: "collection_policy \<Rightarrow> bool" where
  "collection_valid p =
     (if cpRevision p < 0 \<or> 256 < length (cpUsers p)
         \<or> cpBase p \<noteq> [] \<and> cpBase p \<noteq> ''light'' \<and> cpBase p \<noteq> ''standard'' then False
      else if cpMode p = ''light'' \<or> cpMode p = ''standard'' then cpUsers p = []
      else if cpMode p = ''diagnostic'' then cpUntil p \<noteq> zero_time \<and> list_all (\<lambda>u. 0 < u) (cpUsers p)
      else False)"

fun collection_allows :: "collection_policy option \<Rightarrow> int \<Rightarrow> instant \<Rightarrow> bool" where
  "collection_allows None user now = False"
| "collection_allows (Some p) user now =
     (if cpMode p = ''standard'' then True
      else if cpMode p \<noteq> ''diagnostic'' then False
      else if \<not> now < cpUntil p then cpBase p = ''standard''
      else if cpUsers p = [] then True
      else List.member (cpUsers p) user)"

subsection \<open>Buckets and events\<close>

definition maxConnectionAuditBuckets :: nat where "maxConnectionAuditBuckets = 4096"
definition maxConnectionPresenceEvents :: nat where "maxConnectionPresenceEvents = 4096"
definition connectionPresenceRefresh :: duration where "connectionPresenceRefresh = secs 30"

record audit_bucket =
  auUser :: int
  auInbound :: int
  auPath :: int
  auDevice :: string
  auEpoch :: int
  auSource :: string
  auGeo :: string
  auNetwork :: string
  auConns :: int
  auClosed :: int
  auDurTotal :: int
  auDurMax :: int
  auUp :: int
  auDown :: int
  auPayFirst :: string
  auPayLast :: string
  auLE1 :: int
  auLE5 :: int
  auLE20 :: int
  auGT20 :: int
  auProbe :: string
  auInternal :: bool
  auSeq :: "64 word"
  auPeak :: int
  auAtEnd :: int
  auStarted :: string
  auEnded :: string
  auLive :: int
  auKey :: string
  auIdent :: string

record presence_event =
  evSeq :: "64 word"
  evUser :: int
  evInbound :: int
  evPath :: int
  evDevice :: string
  evEpoch :: int
  evSource :: string
  evNetwork :: string
  evEvent :: string
  evState :: string
  evActive :: int
  evMeaningful :: bool
  evPayLast :: string
  evAt :: string

record presence =
  psEvent :: presence_event
  psEmitted :: instant

record audit =
  aEnabled :: bool
  aDiagnostics :: bool
  aPolicy :: "collection_policy option"
  aBuckets :: "(string, audit_bucket) gomap"
  aActive :: "(string, int) gomap"
  aGeneration :: "64 word"
  aDropped :: int
  aWindowStart :: instant
  aSequence :: "64 word"
  aPresence :: "(string, presence) gomap"
  aEvents :: "presence_event list"
  aPresenceDropped :: int

definition new_audit :: audit where
  "new_audit = \<lparr>aEnabled = False, aDiagnostics = False, aPolicy = None, aBuckets = [], aActive = [],
     aGeneration = 0, aDropped = 0, aWindowStart = zero_time, aSequence = 0, aPresence = [],
     aEvents = [], aPresenceDropped = 0\<rparr>"

text \<open>\<^verbatim>\<open>SetConnectionAuditEnabled\<close>, on the audit part of the tracker.\<close>

definition SetConnectionAuditEnabled :: "instant \<Rightarrow> bool \<Rightarrow> audit \<Rightarrow> audit" where
  "SetConnectionAuditEnabled now enabled a =
     (if enabled then
        (if aEnabled a then a\<lparr>aEnabled := True\<rparr>
         else a\<lparr>aEnabled := True, aWindowStart := now, aDropped := 0\<rparr>)
      else a\<lparr>aEnabled := False, aBuckets := [], aActive := [], aPresence := [], aEvents := [],
             aPresenceDropped := 0, aGeneration := aGeneration a + 1, aDropped := 0,
             aWindowStart := zero_time\<rparr>)"

subsection \<open>Keys and handles\<close>

definition nul :: string where "nul = [CHR 0x00]"
definition connectionAuditHandleSeparator :: char where "connectionAuditHandleSeparator = CHR 0xFF"

definition upper_byte :: "char \<Rightarrow> char" where
  "upper_byte c = (let n = of_char c :: nat in if 97 \<le> n \<and> n \<le> 122 then char_of (n - 32) else c)"

definition connectionPresenceKey :: "int \<Rightarrow> string \<Rightarrow> int \<Rightarrow> string \<Rightarrow> string \<Rightarrow> string" where
  "connectionPresenceKey user device epoch source network =
     join nul [format_int user, trim_space device, format_int epoch, trim_space source,
               to_lower (trim_space network)]"

definition connectionAuditActiveIdentity :: "int \<Rightarrow> string \<Rightarrow> string \<Rightarrow> string" where
  "connectionAuditActiveIdentity user device source =
     (let d = trim_space device in
      if d \<noteq> [] then format_int user @ nul @ ''device:'' @ d
      else format_int user @ nul @ ''legacy:'' @ trim_space source)"

definition part :: "nat \<Rightarrow> string list \<Rightarrow> string" where
  "part i ps = (if i < length ps then ps ! i else [])"

definition handle_admitted :: "string list \<Rightarrow> bool" where
  "handle_admitted ps \<longleftrightarrow> 4 \<le> length ps \<and> part 3 ps = ''true''"

subsection \<open>Window ends\<close>

fun later :: "instant option \<Rightarrow> instant \<Rightarrow> instant" where
  "later None t = t"
| "later (Some p) t = (if t < p then p else t)"

definition advanceAuditEnd :: "instant \<Rightarrow> audit_bucket \<Rightarrow> audit_bucket" where
  "advanceAuditEnd now b = b\<lparr>auEnded := format_rfc3339
     (later (parse_rfc3339 (auPayLast b)) (later (parse_rfc3339 (auStarted b))
        (later (parse_rfc3339 (auEnded b)) now)))\<rparr>"

text \<open>\<^verbatim>\<open>normalizeAuditItemWindow\<close>, on instants: start, end and the two payload times.\<close>

fun not_before :: "instant option \<Rightarrow> instant \<Rightarrow> instant" where
  "not_before None t = t"
| "not_before (Some raw) t = (if raw < t then t else raw)"

definition norm_started :: "instant option \<Rightarrow> instant \<Rightarrow> instant \<Rightarrow> instant" where
  "norm_started raw cs ce = (let s = not_before raw cs in if ce < s then ce else s)"

definition norm_ended :: "instant option \<Rightarrow> instant \<Rightarrow> instant" where
  "norm_ended raw started = not_before raw started"

definition norm_pair :: "instant \<Rightarrow> instant \<Rightarrow> instant \<Rightarrow> instant \<Rightarrow> (instant \<times> instant) option" where
  "norm_pair first0 last0 started ce =
     (let first1 = (if first0 < started then started else first0);
          last1 = (if last0 < first1 then first1 else last0);
          last2 = (if ce < last1 then ce else last1);
          first2 = (if last2 < first1 then last2 else first1)
      in Some (first2, last2))"

fun norm_payload :: "instant option \<Rightarrow> instant option \<Rightarrow> instant \<Rightarrow> instant \<Rightarrow> (instant \<times> instant) option" where
  "norm_payload None None started ce = None"
| "norm_payload (Some f) None started ce = norm_pair f f started ce"
| "norm_payload None (Some l) started ce = norm_pair l l started ce"
| "norm_payload (Some f) (Some l) started ce = norm_pair f l started ce"

definition norm_window :: "instant \<Rightarrow> instant \<Rightarrow> instant \<Rightarrow> audit_bucket \<Rightarrow> audit_bucket" where
  "norm_window started ended ce b =
     (let e = (if ce < ended then ce else ended); s = (if e < started then e else started)
      in b\<lparr>auStarted := format_rfc3339 s, auEnded := format_rfc3339 e\<rparr>)"

fun norm_apply :: "(instant \<times> instant) option \<Rightarrow> instant \<Rightarrow> instant \<Rightarrow> instant \<Rightarrow> audit_bucket \<Rightarrow> audit_bucket" where
  "norm_apply None started ended ce b = norm_window started ended ce b"
| "norm_apply (Some (f, l)) started ended ce b = norm_window started (if ended < l then l else ended) ce
     (b\<lparr>auPayFirst := format_rfc3339 f, auPayLast := format_rfc3339 l\<rparr>)"

definition normalizeAuditItemWindow :: "instant \<Rightarrow> instant \<Rightarrow> audit_bucket \<Rightarrow> audit_bucket" where
  "normalizeAuditItemWindow cs ce b =
     (let started = norm_started (parse_rfc3339 (auStarted b)) cs ce
      in norm_apply (norm_payload (parse_rfc3339 (auPayFirst b)) (parse_rfc3339 (auPayLast b)) started ce)
           started (norm_ended (parse_rfc3339 (auEnded b)) started) ce b)"

subsection \<open>Presence events\<close>

text \<open>\<^verbatim>\<open>enqueuePresenceEventLocked\<close>: stamp the state's event and queue a copy of it.\<close>

definition stamp_event :: "64 word \<Rightarrow> string \<Rightarrow> instant \<Rightarrow> presence \<Rightarrow> presence" where
  "stamp_event n event at p = p\<lparr>psEvent := (psEvent p)\<lparr>evEvent := event, evAt := format_rfc3339 at, evSeq := n\<rparr>,
     psEmitted := at\<rparr>"

definition queue_event :: "presence_event \<Rightarrow> audit \<Rightarrow> audit" where
  "queue_event e a = (if maxConnectionPresenceEvents \<le> length (aEvents a)
     then a\<lparr>aPresenceDropped := aPresenceDropped a + 1\<rparr> else a\<lparr>aEvents := aEvents a @ [e]\<rparr>)"

definition enqueuePresenceEvent :: "string \<Rightarrow> instant \<Rightarrow> presence \<Rightarrow> audit \<Rightarrow> presence \<times> audit" where
  "enqueuePresenceEvent event at p a =
     (let n = aSequence a + 1; p' = stamp_event n event at p
      in (p', queue_event (psEvent p') (a\<lparr>aSequence := n\<rparr>)))"

definition new_presence :: "limit \<Rightarrow> string \<Rightarrow> string \<Rightarrow> string \<Rightarrow> presence" where
  "new_presence l source network st = \<lparr>psEvent = \<lparr>evSeq = 0, evUser = qUser l, evInbound = qInbound l,
     evPath = qPath l, evDevice = qDevice l, evEpoch = qEpoch l, evSource = source, evNetwork = network,
     evEvent = [], evState = st, evActive = 0, evMeaningful = False, evPayLast = [], evAt = []\<rparr>,
     psEmitted = zero_time\<rparr>"

subsection \<open>Start of a connection\<close>

definition new_bucket :: "limit \<Rightarrow> string \<Rightarrow> string \<Rightarrow> string \<Rightarrow> 64 word \<Rightarrow> instant \<Rightarrow> string \<Rightarrow> audit_bucket" where
  "new_bucket l source geo network n now key = \<lparr>auUser = qUser l, auInbound = qInbound l, auPath = qPath l,
     auDevice = qDevice l, auEpoch = qEpoch l, auSource = source, auGeo = geo, auNetwork = network,
     auConns = 0, auClosed = 0, auDurTotal = 0, auDurMax = 0, auUp = 0, auDown = 0, auPayFirst = [],
     auPayLast = [], auLE1 = 0, auLE5 = 0, auLE20 = 0, auGT20 = 0, auProbe = [], auInternal = False,
     auSeq = n, auPeak = 0, auAtEnd = 0, auStarted = format_rfc3339 now, auEnded = [], auLive = 0,
     auKey = key, auIdent = connectionAuditActiveIdentity (qUser l) (qDevice l) source\<rparr>"

definition active_of :: "string \<Rightarrow> audit \<Rightarrow> int" where
  "active_of ident a = the_default 0 (gm_get (aActive a) ident)"

definition geo_code :: "string \<Rightarrow> string" where
  "geo_code raw = (let g = map upper_byte (trim_space raw) in if length g \<noteq> 2 then [] else g)"

definition audit_key :: "64 word \<Rightarrow> string \<Rightarrow> string \<Rightarrow> string \<Rightarrow> string" where
  "audit_key gen statekey source network = format_int (uint gen) @ nul @ join nul [statekey, source, network]"

text \<open>Counting one more live connection of a bucket.\<close>

definition open_in_bucket :: "instant \<Rightarrow> string \<Rightarrow> audit_bucket \<Rightarrow> audit \<Rightarrow> audit" where
  "open_in_bucket now key b a =
     (let n = active_of (auIdent b) a + 1;
          b' = b\<lparr>auConns := auConns b + 1, auLive := auLive b + 1, auPeak := max (auPeak b) n\<rparr>
      in a\<lparr>aActive := gm_put (auIdent b) n (aActive a),
           aBuckets := gm_put key (advanceAuditEnd now b') (aBuckets a)\<rparr>)"

fun put_presence :: "string \<Rightarrow> presence \<times> audit \<Rightarrow> audit" where
  "put_presence pkey (p, a) = a\<lparr>aPresence := gm_put pkey p (aPresence a)\<rparr>"

definition emit_if :: "bool \<Rightarrow> string \<Rightarrow> instant \<Rightarrow> presence \<Rightarrow> audit \<Rightarrow> presence \<times> audit" where
  "emit_if c event now p a = (if c then enqueuePresenceEvent event now p a else (p, a))"

definition add_active :: "int \<Rightarrow> presence \<Rightarrow> presence" where
  "add_active d p = p\<lparr>psEvent := (psEvent p)\<lparr>evActive := evActive (psEvent p) + d\<rparr>\<rparr>"

definition presence_open :: "limit \<Rightarrow> string \<Rightarrow> string \<Rightarrow> bool \<Rightarrow> string \<Rightarrow> instant \<Rightarrow> audit \<Rightarrow> audit" where
  "presence_open l source network admitted pkey now a =
     (if admitted then
        (let p = add_active 1 (the_default (new_presence l source network ''active'') (gm_get (aPresence a) pkey))
         in put_presence pkey (emit_if (evActive (psEvent p) = 1) ''first_authenticated'' now p a))
      else snd (enqueuePresenceEvent ''credential_rejected'' now (new_presence l source network ''rejected'') a))"

definition bool_string :: "bool \<Rightarrow> string" where
  "bool_string b = (if b then ''true'' else ''false'')"

definition audit_handle :: "string \<Rightarrow> instant \<Rightarrow> string \<Rightarrow> bool \<Rightarrow> string" where
  "audit_handle key now pkey admitted =
     join [connectionAuditHandleSeparator] [key, format_int (i64 now), pkey, bool_string admitted]"

text \<open>The network of a connection: the caller's, else the inbound's, else TCP.\<close>

definition audit_network :: "string \<Rightarrow> string \<Rightarrow> string" where
  "audit_network given meta = (if given \<noteq> [] then given
     else let m = trim_space meta in if m \<noteq> [] then m else ''tcp'')"

text \<open>\<^verbatim>\<open>recordConnectionStart\<close> for the policy of the state after \<^verbatim>\<open>currentConfig\<close>; the empty
  handle means the connection is not audited.\<close>

definition open_audited :: "instant \<Rightarrow> string \<Rightarrow> audit_bucket \<Rightarrow> limit \<Rightarrow> string \<Rightarrow> string \<Rightarrow> bool \<Rightarrow> audit \<Rightarrow> string \<times> audit" where
  "open_audited now key b l ip network admitted a =
     (let pkey = connectionPresenceKey (qUser l) (qDevice l) (qEpoch l) ip network
      in (audit_handle key now pkey admitted,
          presence_open l ip network admitted pkey now (open_in_bucket now key b a)))"

fun start_in :: "audit_bucket option \<Rightarrow> instant \<Rightarrow> string \<Rightarrow> limit \<Rightarrow> string \<Rightarrow> string \<Rightarrow> string \<Rightarrow> bool \<Rightarrow> audit \<Rightarrow> string \<times> audit" where
  "start_in (Some b) now key l ip network geo admitted a = open_audited now key b l ip network admitted a"
| "start_in None now key l ip network geo admitted a =
     (if maxConnectionAuditBuckets \<le> gm_len (aBuckets a) then ([], a\<lparr>aDropped := aDropped a + 1\<rparr>)
      else let n = aSequence a + 1
           in open_audited now key (new_bucket l ip (geo_code geo) network n now key) l ip network admitted
                (a\<lparr>aSequence := n\<rparr>))"

definition recordConnectionStart :: "instant \<Rightarrow> string \<Rightarrow> limit \<Rightarrow> addr \<Rightarrow> string \<Rightarrow> string \<Rightarrow> string \<Rightarrow> bool \<Rightarrow> audit \<Rightarrow> string \<times> audit" where
  "recordConnectionStart now statekey l source0 geo meta given admitted a =
     (let source = unmap source0; network = audit_network given meta in
      if \<not> aEnabled a \<or> \<not> aDiagnostics a then ([], a)
      else if qUser l \<le> 0 \<or> \<not> collection_allows (aPolicy a) (qUser l) now then ([], a)
      else if \<not> addr_valid source then ([], a)
      else
        let ip = addr_string source; key = audit_key (aGeneration a) statekey ip network
        in start_in (gm_get (aBuckets a) key) now key l ip network geo admitted a)"

subsection \<open>Payload\<close>

definition mark_payload :: "instant \<Rightarrow> presence \<Rightarrow> presence" where
  "mark_payload now p = p\<lparr>psEvent := (psEvent p)\<lparr>evMeaningful := True, evPayLast := format_rfc3339 now\<rparr>\<rparr>"

fun payload_presence :: "presence option \<Rightarrow> string \<Rightarrow> instant \<Rightarrow> audit \<Rightarrow> audit" where
  "payload_presence None pkey now a = a"
| "payload_presence (Some p) pkey now a =
     put_presence pkey (emit_if (\<not> evMeaningful (psEvent p)) ''first_meaningful_payload'' now (mark_payload now p) a)"

definition presence_payload :: "string \<Rightarrow> instant \<Rightarrow> audit \<Rightarrow> audit" where
  "presence_payload pkey now a = payload_presence (gm_get (aPresence a) pkey) pkey now a"

definition bucket_payload :: "int \<Rightarrow> int \<Rightarrow> instant \<Rightarrow> audit_bucket \<Rightarrow> audit_bucket" where
  "bucket_payload upload download now b = advanceAuditEnd now (b\<lparr>
     auPayFirst := (if auPayFirst b = [] then format_rfc3339 now else auPayFirst b),
     auPayLast := format_rfc3339 now,
     auUp := i64 (auUp b + upload), auDown := i64 (auDown b + download)\<rparr>)"

fun payload_in :: "audit_bucket option \<Rightarrow> instant \<Rightarrow> string list \<Rightarrow> int \<Rightarrow> int \<Rightarrow> audit \<Rightarrow> audit" where
  "payload_in None now ps upload download a = a"
| "payload_in (Some b) now ps upload download a =
     (if \<not> collection_allows (aPolicy a) (auUser b) now then a
      else let a1 = a\<lparr>aBuckets := gm_put (part 0 ps) (bucket_payload upload download now b) (aBuckets a)\<rparr>
           in if handle_admitted ps then presence_payload (part 2 ps) now a1 else a1)"

definition recordConnectionPayload :: "instant \<Rightarrow> string \<Rightarrow> int \<Rightarrow> int \<Rightarrow> audit \<Rightarrow> audit" where
  "recordConnectionPayload now handle upload download a =
     (if handle = [] \<or> upload < 0 \<or> download < 0 \<or> i64 (upload + download) \<le> 0 then a
      else let ps = split_on connectionAuditHandleSeparator handle
           in payload_in (gm_get (aBuckets a) (part 0 ps)) now ps upload download a)"

subsection \<open>End of a connection\<close>

definition release_active :: "string \<Rightarrow> audit \<Rightarrow> (string, int) gomap" where
  "release_active ident a = (if 1 < active_of ident a
     then gm_put ident (active_of ident a - 1) (aActive a) else gm_del ident (aActive a))"

definition duration_ms :: "instant \<Rightarrow> int \<Rightarrow> int" where
  "duration_ms now started = max 0 (quo (max min_i64 (min max_i64 (now - started))) 1000000)"

definition close_duration :: "int \<Rightarrow> audit_bucket \<Rightarrow> audit_bucket" where
  "close_duration d b = b\<lparr>auClosed := auClosed b + 1, auDurTotal := i64 (auDurTotal b + d),
     auDurMax := max (auDurMax b) d,
     auLE1 := (if d \<le> 1000 then auLE1 b + 1 else auLE1 b),
     auLE5 := (if 1000 < d \<and> d \<le> 5000 then auLE5 b + 1 else auLE5 b),
     auLE20 := (if 5000 < d \<and> d \<le> 20000 then auLE20 b + 1 else auLE20 b),
     auGT20 := (if 20000 < d then auGT20 b + 1 else auGT20 b)\<rparr>"

definition close_in_bucket :: "instant \<Rightarrow> int \<Rightarrow> string \<Rightarrow> audit_bucket \<Rightarrow> audit \<Rightarrow> audit" where
  "close_in_bucket now started key b a =
     (let live = (0 < auLive b);
          b1 = (if live then b\<lparr>auLive := auLive b - 1\<rparr> else b);
          b2 = (if 0 < started then close_duration (duration_ms now started) b1 else b1)
      in a\<lparr>aActive := (if live then release_active (auIdent b) a else aActive a),
           aBuckets := gm_put key (advanceAuditEnd now b2) (aBuckets a)\<rparr>)"

fun close_presence :: "presence option \<Rightarrow> string \<Rightarrow> instant \<Rightarrow> audit \<Rightarrow> audit" where
  "close_presence None pkey now a = a"
| "close_presence (Some p0) pkey now a =
     (let p = (if 0 < evActive (psEvent p0) then add_active (- 1) p0 else p0) in
      if evActive (psEvent p) = 0 then
        (let a1 = snd (enqueuePresenceEvent ''last_connection_closed'' now
                         (p\<lparr>psEvent := (psEvent p)\<lparr>evState := ''inactive''\<rparr>\<rparr>) a)
         in a1\<lparr>aPresence := gm_del pkey (aPresence a1)\<rparr>)
      else a\<lparr>aPresence := gm_put pkey p (aPresence a)\<rparr>)"

definition presence_close :: "string \<Rightarrow> instant \<Rightarrow> audit \<Rightarrow> audit" where
  "presence_close pkey now a = close_presence (gm_get (aPresence a) pkey) pkey now a"

fun close_found :: "audit_bucket option \<Rightarrow> instant \<Rightarrow> int \<Rightarrow> string \<Rightarrow> audit \<Rightarrow> audit" where
  "close_found None now started key a = a"
| "close_found (Some b) now started key a = close_in_bucket now started key b a"

definition recordConnectionEnd :: "instant \<Rightarrow> string \<Rightarrow> audit \<Rightarrow> audit" where
  "recordConnectionEnd now handle a =
     (if handle = [] then a
      else let ps = split_on connectionAuditHandleSeparator handle; key = part 0 ps;
               a1 = close_found (gm_get (aBuckets a) key) now (parse_int64 (part 1 ps)) key a
           in if handle_admitted ps then presence_close (part 2 ps) now a1 else a1)"

subsection \<open>Drains\<close>

definition refresh_one :: "instant \<Rightarrow> presence \<Rightarrow> audit \<Rightarrow> presence \<times> audit" where
  "refresh_one now p a = emit_if (0 < evActive (psEvent p) \<and> connectionPresenceRefresh \<le> now - psEmitted p)
     ''activity_refresh'' now p a"

fun refresh_presence :: "instant \<Rightarrow> (string, presence) gomap \<Rightarrow> audit \<Rightarrow> (string, presence) gomap \<times> audit" where
  "refresh_presence now [] a = ([], a)"
| "refresh_presence now ((k, p) # m) a =
     (let r = refresh_one now p a; rest = refresh_presence now m (snd r)
      in ((k, fst r) # fst rest, snd rest))"

definition DrainConnectionPresenceEvents :: "instant \<Rightarrow> audit \<Rightarrow> (presence_event list \<times> int) \<times> audit" where
  "DrainConnectionPresenceEvents now a =
     (if \<not> aEnabled a then (([], 0), a)
      else let r = refresh_presence now (aPresence a) a; a1 = snd r
           in ((aEvents a1, aPresenceDropped a1), a1\<lparr>aPresence := fst r, aEvents := [], aPresenceDropped := 0\<rparr>))"

record audit_drain =
  adItems :: "audit_bucket list"
  adGeneration :: "64 word"
  adCapacity :: nat
  adDropped :: int
  adStarted :: string
  adEnded :: string

definition drain_item :: "instant \<Rightarrow> instant \<Rightarrow> audit_bucket \<Rightarrow> audit_bucket" where
  "drain_item cs now b = normalizeAuditItemWindow cs now (b\<lparr>auAtEnd := auLive b, auLive := 0, auKey := [],
     auEnded := (if auEnded b = [] then format_rfc3339 now else auEnded b)\<rparr>)"

definition reset_bucket :: "64 word \<Rightarrow> int \<Rightarrow> instant \<Rightarrow> audit_bucket \<Rightarrow> audit_bucket" where
  "reset_bucket n peak now b = b\<lparr>auConns := 0, auClosed := 0, auDurTotal := 0, auDurMax := 0, auUp := 0,
     auDown := 0, auPayFirst := [], auPayLast := [], auLE1 := 0, auLE5 := 0, auLE20 := 0, auGT20 := 0,
     auProbe := [], auInternal := False, auSeq := n, auPeak := peak, auAtEnd := 0,
     auStarted := format_rfc3339 now, auEnded := format_rfc3339 now\<rparr>"

text \<open>The loop over the buckets: items, surviving buckets and the presence sequence.\<close>

definition emitted :: "instant \<Rightarrow> instant \<Rightarrow> audit_bucket \<Rightarrow> audit_bucket list" where
  "emitted cs now b = (if 0 < auConns b \<or> 0 < auLive b then [drain_item cs now b] else [])"

fun drain_buckets :: "instant \<Rightarrow> instant \<Rightarrow> audit \<Rightarrow> (string, audit_bucket) gomap \<Rightarrow> 64 word \<Rightarrow>
    audit_bucket list \<times> (string, audit_bucket) gomap \<times> 64 word" where
  "drain_buckets cs now a [] n = ([], [], n)"
| "drain_buckets cs now a ((k, b) # m) n =
     (if auLive b = 0
      then let r = drain_buckets cs now a m n in (emitted cs now b @ fst r, snd r)
      else let r = drain_buckets cs now a m (n + 1)
           in (emitted cs now b @ fst r,
               (k, reset_bucket (n + 1) (active_of (auIdent b) a) now b) # fst (snd r), snd (snd r)))"

definition drain_start :: "instant \<Rightarrow> audit \<Rightarrow> instant" where
  "drain_start now a = (if aWindowStart a = zero_time \<or> now < aWindowStart a then now else aWindowStart a)"

definition DrainConnectionAuditSnapshot :: "instant \<Rightarrow> audit \<Rightarrow> audit_drain \<times> audit" where
  "DrainConnectionAuditSnapshot now a =
     (if \<not> aEnabled a
      then (\<lparr>adItems = [], adGeneration = 0, adCapacity = maxConnectionAuditBuckets, adDropped = 0,
             adStarted = [], adEnded = []\<rparr>, a)
      else let r = drain_buckets (drain_start now a) now a (aBuckets a) (aSequence a) in
        (\<lparr>adItems = sort_key (\<lambda>b. (auUser b, auSource b, auNetwork b)) (fst r), adGeneration = aGeneration a,
          adCapacity = maxConnectionAuditBuckets, adDropped = aDropped a,
          adStarted = format_rfc3339 (drain_start now a), adEnded = format_rfc3339 now\<rparr>,
         a\<lparr>aBuckets := fst (snd r), aSequence := snd (snd r), aDropped := 0, aWindowStart := now\<rparr>))"

subsection \<open>Ordered windows\<close>

lemma norm_payload_chain:
  assumes "norm_payload f0 l0 started ce = Some (f, l)" "started \<le> ce"
  shows "started \<le> f \<and> f \<le> l \<and> l \<le> ce"
  using assms by (cases "(f0, l0, started, ce)" rule: norm_payload.cases) (auto simp: norm_pair_def Let_def split: if_splits)

lemma norm_payload_None: "norm_payload f0 l0 started ce = None \<longleftrightarrow> f0 = None \<and> l0 = None"
  by (cases "(f0, l0, started, ce)" rule: norm_payload.cases) (auto simp: norm_pair_def Let_def)

lemma norm_started_range: "cs \<le> ce \<Longrightarrow> cs \<le> norm_started raw cs ce \<and> norm_started raw cs ce \<le> ce"
  by (cases raw) (auto simp: norm_started_def Let_def)

lemma norm_ended_ge: "started \<le> norm_ended raw started"
  by (cases raw) (auto simp: norm_ended_def)

text \<open>The documented order of the times of an emitted item.\<close>

definition item_ordered :: "instant \<Rightarrow> instant \<Rightarrow> audit_bucket \<Rightarrow> bool" where
  "item_ordered cs ce b \<longleftrightarrow> (\<exists>s e. auStarted b = format_rfc3339 s \<and> auEnded b = format_rfc3339 e \<and>
     cs \<le> s \<and> s \<le> e \<and> e \<le> ce \<and>
     (parse_rfc3339 (auPayFirst b) = None \<and> parse_rfc3339 (auPayLast b) = None \<or>
      (\<exists>f l. auPayFirst b = format_rfc3339 f \<and> auPayLast b = format_rfc3339 l \<and> s \<le> f \<and> f \<le> l \<and> l \<le> e)))"

lemma normalize_ordered:
  assumes "cs \<le> ce"
  shows "item_ordered cs ce (normalizeAuditItemWindow cs ce b)"
proof -
  define s where "s = norm_started (parse_rfc3339 (auStarted b)) cs ce"
  define e where "e = norm_ended (parse_rfc3339 (auEnded b)) s"
  have s: "cs \<le> s" "s \<le> ce" using norm_started_range [OF assms] by (simp_all add: s_def)
  have e: "s \<le> e" by (simp add: e_def norm_ended_ge)
  show ?thesis
  proof (cases "norm_payload (parse_rfc3339 (auPayFirst b)) (parse_rfc3339 (auPayLast b)) s ce")
    case None
    then show ?thesis
      unfolding item_ordered_def normalizeAuditItemWindow_def
      using s e by (intro exI [of _ s] exI [of _ "min e ce"]) (auto simp: Let_def norm_window_def s_def [symmetric] e_def [symmetric] norm_payload_None)
  next
    case (Some fl)
    obtain f l where fl: "fl = (f, l)" by (cases fl)
    have c: "s \<le> f" "f \<le> l" "l \<le> ce" using norm_payload_chain [OF Some [unfolded fl] s(2)] by auto
    show ?thesis
      unfolding item_ordered_def normalizeAuditItemWindow_def
      using s e c Some fl
      by (intro exI [of _ s] exI [of _ "min (max e l) ce"])
        (auto simp: Let_def norm_window_def s_def [symmetric] e_def [symmetric])
  qed
qed

lemma drain_buckets_items:
  "b \<in> set (fst (drain_buckets cs now a m n)) \<Longrightarrow> \<exists>b'. b = drain_item cs now b'"
  by (induction cs now a m n rule: drain_buckets.induct) (auto simp: Let_def emitted_def split: if_splits)

lemma drain_start_le: "drain_start now a \<le> now"
  by (auto simp: drain_start_def)

text \<open>C33: Emitted windows. Every item a drain hands out satisfies the order the controller checks:
  collection start, item start, first payload, last payload, item end and collection end
  never go backwards, whatever the clock did in between.\<close>

theorem drained_items_ordered:
  assumes "DrainConnectionAuditSnapshot now a = (d, a')" "aEnabled a"
  shows "adStarted d = format_rfc3339 (drain_start now a) \<and> adEnded d = format_rfc3339 now \<and>
    drain_start now a \<le> now \<and> list_all (item_ordered (drain_start now a) now) (adItems d)"
proof -
  have "item_ordered (drain_start now a) now b"
    if b: "b \<in> set (fst (drain_buckets (drain_start now a) now a (aBuckets a) (aSequence a)))" for b
    using drain_buckets_items [OF b] normalize_ordered [OF drain_start_le] by (auto simp: drain_item_def)
  then show ?thesis
    using assms by (auto simp: DrainConnectionAuditSnapshot_def list_all_iff drain_start_le Let_def)
qed

subsection \<open>Live connections\<close>

definition live_share :: "string \<Rightarrow> audit_bucket \<Rightarrow> int" where
  "live_share ident b = (if auIdent b = ident then auLive b else 0)"

definition live_sum :: "string \<Rightarrow> (string, audit_bucket) gomap \<Rightarrow> int" where
  "live_sum ident m = sum_list (map (\<lambda>g. live_share ident (snd g)) m)"

definition audit_ok :: "audit \<Rightarrow> bool" where
  "audit_ok a \<longleftrightarrow> gm_wf (aBuckets a) \<and> gm_len (aBuckets a) \<le> maxConnectionAuditBuckets
     \<and> length (aEvents a) \<le> maxConnectionPresenceEvents
     \<and> (\<forall>g \<in> set (aBuckets a). 0 \<le> auLive (snd g))
     \<and> (\<forall>ident. active_of ident a = live_sum ident (aBuckets a))"

lemma live_sum_put:
  "live_sum ident (gm_put k b m) = live_sum ident m + live_share ident b -
     (case gm_get m k of None \<Rightarrow> 0 | Some b0 \<Rightarrow> live_share ident b0)"
  by (induction k b m rule: gm_put.induct) (auto simp: live_sum_def split: option.split)

lemma live_sum_ge:
  assumes "\<forall>g \<in> set m. 0 \<le> auLive (snd g)" "gm_get m k = Some b"
  shows "live_share ident b \<le> live_sum ident m"
  using assms
proof (induction m)
  case (Cons g m)
  have rest: "0 \<le> live_sum ident m"
    using Cons.prems(1) by (auto simp: live_sum_def live_share_def intro!: sum_list_nonneg)
  show ?case
  proof (cases "fst g = k")
    case True
    then show ?thesis using Cons.prems(2) rest by (cases g) (simp add: live_sum_def)
  next
    case False
    then have "live_share ident b \<le> live_sum ident m" using Cons by (cases g) auto
    moreover have "0 \<le> live_share ident (snd g)" using Cons.prems(1) by (simp add: live_share_def)
    ultimately show ?thesis by (simp add: live_sum_def)
  qed
qed simp

lemma advance_live [simp]: "auLive (advanceAuditEnd now b) = auLive b" "auIdent (advanceAuditEnd now b) = auIdent b"
  by (simp_all add: advanceAuditEnd_def)

lemma live_share_advance [simp]: "live_share ident (advanceAuditEnd now b) = live_share ident b"
  by (simp add: live_share_def)

lemma active_of_put [simp]:
  "active_of ident (a\<lparr>aActive := gm_put k n m, aBuckets := bs\<rparr>) =
     (if ident = k then n else the_default 0 (gm_get m ident))"
  by (simp add: active_of_def)

lemma active_of_cong:
  "aActive a' = aActive a \<Longrightarrow> active_of ident a' = active_of ident a"
  by (simp add: active_of_def)

lemma audit_ok_cong:
  assumes "audit_ok a" "aBuckets a' = aBuckets a" "aActive a' = aActive a"
    "length (aEvents a') \<le> maxConnectionPresenceEvents"
  shows "audit_ok a'"
  using assms active_of_cong [of a' a] by (simp add: audit_ok_def)

lemma audit_ok_events: "audit_ok a \<Longrightarrow> length (aEvents a) \<le> maxConnectionPresenceEvents"
  by (simp add: audit_ok_def)

lemma audit_ok_live: "audit_ok a \<Longrightarrow> gm_get (aBuckets a) key = Some b \<Longrightarrow> 0 \<le> auLive b"
  using bspec [of "set (aBuckets a)" "\<lambda>g. 0 \<le> auLive (snd g)" "(key, b)"] gm_get_in_set [of "aBuckets a" key b]
  by (simp add: audit_ok_def)

text \<open>Replacing one bucket, with the active count moved by the same amount.\<close>

lemma audit_ok_put:
  assumes ok: "audit_ok a" and old: "gm_get (aBuckets a) key = Some b \<or>
      gm_get (aBuckets a) key = None \<and> auLive b = 0 \<and> gm_len (aBuckets a) < maxConnectionAuditBuckets"
    and ident: "auIdent b' = auIdent b" and live: "0 \<le> auLive b'"
    and active: "active_of (auIdent b) a' = active_of (auIdent b) a + (auLive b' - auLive b)"
      "\<And>i. i \<noteq> auIdent b \<Longrightarrow> active_of i a' = active_of i a"
    and a': "aBuckets a' = gm_put key b' (aBuckets a)" "aEvents a' = aEvents a"
  shows "audit_ok a'"
proof -
  have "live_sum i (aBuckets a') = live_sum i (aBuckets a) + live_share i b' - live_share i b" for i
    using old by (auto simp: a' live_sum_put live_share_def)
  then have "active_of i a' = live_sum i (aBuckets a')" for i
    using ok active ident by (cases "i = auIdent b") (auto simp: audit_ok_def live_share_def)
  moreover have "0 \<le> auLive (snd g)" if "g \<in> set (aBuckets a')" for g
    using that set_gm_put [of key b' "aBuckets a"] live ok by (auto simp: a' audit_ok_def)
  moreover have "gm_len (aBuckets a') \<le> maxConnectionAuditBuckets"
    using old ok by (auto simp: a' gm_len_put audit_ok_def)
  ultimately show ?thesis using ok by (auto simp: audit_ok_def a' gm_wf_put)
qed

lemma open_in_bucket_ok:
  assumes "audit_ok a" "gm_get (aBuckets a) key = Some b \<or>
      gm_get (aBuckets a) key = None \<and> auLive b = 0 \<and> gm_len (aBuckets a) < maxConnectionAuditBuckets"
  shows "audit_ok (open_in_bucket now key b a)"
proof -
  have live: "0 \<le> auLive b"
    using assms audit_ok_live by auto
  show ?thesis
    by (rule audit_ok_put [OF assms(1,2), where b' = "advanceAuditEnd now (b\<lparr>auConns := auConns b + 1,
            auLive := auLive b + 1, auPeak := max (auPeak b) (active_of (auIdent b) a + 1)\<rparr>)"])
      (use live in \<open>auto simp: open_in_bucket_def Let_def active_of_def\<close>)
qed

lemma queue_event_simps [simp]:
  "aBuckets (queue_event e a) = aBuckets a" "aActive (queue_event e a) = aActive a"
  "length (aEvents a) \<le> maxConnectionPresenceEvents \<Longrightarrow>
     length (aEvents (queue_event e a)) \<le> maxConnectionPresenceEvents"
  by (auto simp: queue_event_def)

lemma enqueue_simps [simp]:
  "aBuckets (snd (enqueuePresenceEvent ev t p a)) = aBuckets a"
  "aActive (snd (enqueuePresenceEvent ev t p a)) = aActive a"
  "length (aEvents a) \<le> maxConnectionPresenceEvents \<Longrightarrow>
     length (aEvents (snd (enqueuePresenceEvent ev t p a))) \<le> maxConnectionPresenceEvents"
  by (auto simp: enqueuePresenceEvent_def Let_def)

lemma enqueue_ok: "audit_ok a \<Longrightarrow> audit_ok (snd (enqueuePresenceEvent ev t p a))"
  by (rule audit_ok_cong [of a]) (simp_all add: audit_ok_events)

lemma presence_update_ok: "audit_ok a \<Longrightarrow> audit_ok (a\<lparr>aPresence := m\<rparr>)"
  by (rule audit_ok_cong [of a]) (simp_all add: audit_ok_events)

lemma sequence_update_ok: "audit_ok a \<Longrightarrow> audit_ok (a\<lparr>aSequence := n\<rparr>)"
  by (rule audit_ok_cong [of a]) (simp_all add: audit_ok_events)

lemmas audit_update_ok = enqueue_ok presence_update_ok sequence_update_ok

lemma put_emit_ok: "audit_ok a \<Longrightarrow> audit_ok (put_presence pkey (emit_if c ev now p a))"
proof -
  assume ok: "audit_ok a"
  obtain q b where r: "emit_if c ev now p a = (q, b)" by (cases "emit_if c ev now p a")
  have "audit_ok b" using ok r enqueue_ok [OF ok, of ev now p] by (auto simp: emit_if_def split: if_splits)
  then show ?thesis by (simp add: r presence_update_ok)
qed

lemma presence_open_ok: "audit_ok a \<Longrightarrow> audit_ok (presence_open l ip net adm pkey now a)"
  by (simp add: presence_open_def Let_def put_emit_ok enqueue_ok)

lemma presence_payload_ok: "audit_ok a \<Longrightarrow> audit_ok (presence_payload pkey now a)"
  by (cases "gm_get (aPresence a) pkey") (simp_all add: presence_payload_def put_emit_ok)

lemma presence_close_ok: "audit_ok a \<Longrightarrow> audit_ok (presence_close pkey now a)"
  by (cases "gm_get (aPresence a) pkey") (simp_all add: presence_close_def Let_def audit_update_ok)

lemmas presence_ok = presence_open_ok presence_payload_ok presence_close_ok

lemma recordConnectionStart_ok:
  "audit_ok a \<Longrightarrow> audit_ok (snd (recordConnectionStart now key l src geo meta net adm a))"
proof -
  assume ok: "audit_ok a"
  have dropped: "audit_ok (a\<lparr>aDropped := n\<rparr>)" for n
    using ok by (intro audit_ok_cong [OF ok]) (simp_all add: audit_ok_events)
  have "audit_ok (snd (start_in (gm_get (aBuckets a) k) now k l ip n geo adm a))" for k ip n
    using ok dropped sequence_update_ok [OF ok]
    by (cases "gm_get (aBuckets a) k")
      (auto simp: open_audited_def new_bucket_def Let_def not_le intro!: presence_ok open_in_bucket_ok)
  then show ?thesis using ok by (simp add: recordConnectionStart_def Let_def)
qed

lemma recordConnectionPayload_ok:
  "audit_ok a \<Longrightarrow> audit_ok (recordConnectionPayload now h up dn a)"
proof -
  assume ok: "audit_ok a"
  have "audit_ok (a\<lparr>aBuckets := gm_put k (bucket_payload up dn now b) (aBuckets a)\<rparr>)"
    if "gm_get (aBuckets a) k = Some b" for k b
  proof (rule audit_ok_put [OF ok, of k b])
    show "0 \<le> auLive (bucket_payload up dn now b)"
      using audit_ok_live [OF ok that] by (simp add: bucket_payload_def)
  qed (use that in \<open>auto simp: bucket_payload_def active_of_def\<close>)
  then have "audit_ok (payload_in (gm_get (aBuckets a) (part 0 ps)) now ps up dn a)" for ps
    using ok by (cases "gm_get (aBuckets a) (part 0 ps)") (auto simp: Let_def intro!: presence_ok)
  then show ?thesis using ok by (simp add: recordConnectionPayload_def Let_def)
qed

lemma close_in_bucket_ok:
  assumes ok: "audit_ok a" and b: "gm_get (aBuckets a) key = Some b"
  shows "audit_ok (close_in_bucket now started key b a)"
proof -
  have live: "0 \<le> auLive b" using audit_ok_live [OF ok b] .
  have sum: "auLive b \<le> active_of (auIdent b) a"
    using ok live_sum_ge [of "aBuckets a" key b "auIdent b"] b by (auto simp: audit_ok_def live_share_def)
  have release: "the_default 0 (gm_get (release_active i a) j) =
      (if j = i then active_of i a - 1 else active_of j a)" if "1 \<le> active_of i a" for i j
    using that by (auto simp: release_active_def active_of_def)
  let ?b1 = "if 0 < auLive b then b\<lparr>auLive := auLive b - 1\<rparr> else b"
  let ?b2 = "if 0 < started then close_duration (duration_ms now started) ?b1 else ?b1"
  show ?thesis
    by (rule audit_ok_put [OF ok disjI1 [OF b], where b' = "advanceAuditEnd now ?b2"])
      (use live sum release [of "auIdent b"] in
        \<open>auto simp: close_in_bucket_def Let_def close_duration_def active_of_def\<close>)
qed

lemma close_found_ok:
  "audit_ok a \<Longrightarrow> audit_ok (close_found (gm_get (aBuckets a) key) now started key a)"
  by (cases "gm_get (aBuckets a) key") (simp_all add: close_in_bucket_ok)

lemma recordConnectionEnd_ok: "audit_ok a \<Longrightarrow> audit_ok (recordConnectionEnd now h a)"
  by (simp add: recordConnectionEnd_def Let_def presence_close_ok close_found_ok)

lemma drain_buckets_live:
  assumes "gm_wf m"
  shows "gm_wf (fst (snd (drain_buckets cs now a m n))) \<and>
    gm_len (fst (snd (drain_buckets cs now a m n))) \<le> gm_len m \<and>
    set (gm_keys (fst (snd (drain_buckets cs now a m n)))) \<subseteq> set (gm_keys m) \<and>
    (\<forall>i. live_sum i (fst (snd (drain_buckets cs now a m n))) = live_sum i m) \<and>
    ((\<forall>g \<in> set m. 0 \<le> auLive (snd g)) \<longrightarrow>
       (\<forall>g \<in> set (fst (snd (drain_buckets cs now a m n))). 0 \<le> auLive (snd g)))"
  using assms
proof (induction cs now a m n rule: drain_buckets.induct)
  case (2 cs now a k b m n)
  have wf: "gm_wf m" "k \<notin> set (gm_keys m)" using 2(3) by (auto simp: gm_wf_def gm_keys_def)
  show ?case
  proof (cases "auLive b = 0")
    case True
    with 2(1) [OF True wf(1)] show ?thesis
      by (auto simp: Let_def gm_len_def gm_keys_def live_sum_def live_share_def)
  next
    case False
    with 2(2) [OF False wf(1)] wf(2) show ?thesis
      by (auto simp: Let_def gm_len_def gm_keys_def gm_wf_def live_sum_def live_share_def reset_bucket_def)
  qed
qed (simp add: gm_keys_def)

lemma DrainConnectionAuditSnapshot_ok:
  assumes "audit_ok a"
  shows "audit_ok (snd (DrainConnectionAuditSnapshot now a))"
proof -
  have wf: "gm_wf (aBuckets a)" using assms by (simp add: audit_ok_def)
  show ?thesis
    using assms drain_buckets_live [OF wf, of "drain_start now a" now a "aSequence a"]
    by (auto simp: DrainConnectionAuditSnapshot_def Let_def audit_ok_def active_of_def)
qed

lemma refresh_presence_ok:
  "audit_ok a \<Longrightarrow> audit_ok (snd (refresh_presence now m a))"
  by (induction m arbitrary: a) (auto simp: Let_def refresh_one_def emit_if_def enqueue_ok)

lemma DrainConnectionPresenceEvents_ok:
  assumes "audit_ok a"
  shows "audit_ok (snd (DrainConnectionPresenceEvents now a))"
proof -
  have "audit_ok ((snd (refresh_presence now (aPresence a) a))\<lparr>aPresence := m, aEvents := [], aPresenceDropped := 0\<rparr>)" for m
    by (rule audit_ok_cong [OF refresh_presence_ok [OF assms]]) simp_all
  then show ?thesis
    using assms by (simp add: DrainConnectionPresenceEvents_def Let_def)
qed

lemma SetConnectionAuditEnabled_ok: "audit_ok a \<Longrightarrow> audit_ok (SetConnectionAuditEnabled now on a)"
  by (auto simp: SetConnectionAuditEnabled_def audit_ok_def active_of_def live_sum_def gm_len_def)

text \<open>A history of the audit state.\<close>

datatype audit_op =
  AEnable instant bool
| ADiagnostics bool "collection_policy option"
| AStart instant string limit addr string string string bool
| APayload instant string int int
| AEnd instant string
| ADrain instant
| ADrainEvents instant

fun audit_step :: "audit_op \<Rightarrow> audit \<Rightarrow> audit" where
  "audit_step (AEnable now on) a = SetConnectionAuditEnabled now on a"
| "audit_step (ADiagnostics on p) a = a\<lparr>aDiagnostics := on, aPolicy := p\<rparr>"
| "audit_step (AStart now key l src geo meta net adm) a = snd (recordConnectionStart now key l src geo meta net adm a)"
| "audit_step (APayload now h up dn) a = recordConnectionPayload now h up dn a"
| "audit_step (AEnd now h) a = recordConnectionEnd now h a"
| "audit_step (ADrain now) a = snd (DrainConnectionAuditSnapshot now a)"
| "audit_step (ADrainEvents now) a = snd (DrainConnectionPresenceEvents now a)"

definition audit_run :: "audit_op list \<Rightarrow> audit \<Rightarrow> audit" where
  "audit_run ops a = fold audit_step ops a"

lemma audit_step_ok:
  assumes "audit_ok a"
  shows "audit_ok (audit_step op a)"
proof (cases op)
  case (ADiagnostics on p)
  have "audit_ok (a\<lparr>aDiagnostics := on, aPolicy := p\<rparr>)"
    using assms by (simp add: audit_ok_def active_of_def)
  then show ?thesis by (simp add: ADiagnostics)
qed (use assms in \<open>simp_all add: SetConnectionAuditEnabled_ok recordConnectionStart_ok recordConnectionPayload_ok
    recordConnectionEnd_ok DrainConnectionAuditSnapshot_ok DrainConnectionPresenceEvents_ok\<close>)

text \<open>C34: Live connections. After any history of enabling, policies, connections, payloads, drains
  and closes (handles may be replayed or stale), the active count of every identity is the
  number of live connections of its buckets, no count is negative, and buckets and queued
  events stay within their capacity.\<close>

theorem audit_counts_live:
  "audit_ok (audit_run ops new_audit)"
proof -
  have "audit_ok new_audit"
    by (simp add: audit_ok_def new_audit_def active_of_def live_sum_def gm_len_def)
  moreover have "audit_ok a \<Longrightarrow> audit_ok (fold audit_step ops a)" for a
    by (induction ops arbitrary: a) (simp_all add: audit_step_ok)
  ultimately show ?thesis by (simp add: audit_run_def)
qed

subsection \<open>Concrete runs\<close>

definition ex_policy :: collection_policy where
  "ex_policy = \<lparr>cpMode = ''standard'', cpBase = [], cpUsers = [], cpUntil = zero_time, cpRevision = 1\<rparr>"

definition ex_user :: limit where
  "ex_user = zero_limit\<lparr>qUser := 7, qBillable := True\<rparr>"

definition ex_audit :: audit where
  "ex_audit = audit_run [AEnable (secs 1000) True, ADiagnostics True (Some ex_policy)] new_audit"

definition ex_open :: "instant \<Rightarrow> audit \<Rightarrow> string \<times> audit" where
  "ex_open now a = recordConnectionStart now ''user:a'' ex_user (V4 0x08080808) ''us'' [] ''tcp'' True a"

theorem drained_items_ordered_witness:
  "let a = snd (ex_open (secs 900) ex_audit); d = fst (DrainConnectionAuditSnapshot (secs 950) a) in
    length (adItems d) = 1 \<and> list_all (item_ordered (secs 950) (secs 950)) (adItems d)"
proof -
  define a where "a = snd (ex_open (secs 900) ex_audit)"
  have e: "aEnabled a" "drain_start (secs 950) a = secs 950"
    "length (adItems (fst (DrainConnectionAuditSnapshot (secs 950) a))) = 1" unfolding a_def by code_simp+
  from drained_items_ordered [OF prod.collapse [symmetric] e(1), of "secs 950"] e show ?thesis
    by (simp add: a_def Let_def)
qed

text \<open>A close from an earlier generation. When auditing is switched off and on again, the close
  of a connection opened before leaves the new buckets alone but still counts against the
  presence of the same user and source: here the second connection is still live in its
  bucket, yet its presence is reported closed and forgotten.\<close>

theorem stale_close_ends_presence:
  "let h1 = fst (ex_open (secs 1001) ex_audit);
       a = audit_run [AEnable (secs 1002) False, AEnable (secs 1003) True] (snd (ex_open (secs 1001) ex_audit));
       a' = recordConnectionEnd (secs 1005) h1 (snd (ex_open (secs 1004) a)) in
   map (\<lambda>(_, b). auLive b) (aBuckets a') = [1] \<and> aPresence a' = [] \<and>
   map evEvent (aEvents a') = [''first_authenticated'', ''last_connection_closed'']"
  by code_simp

end
