(* ===== verification/Resources.thy ===== *)
theory Resources
  imports GoText
begin

text \<open>
  Resource detection and memory budgets of the kernel (\<^verbatim>\<open>minibox/resources.go\<close>): the limits
  read from procfs and cgroups, the profile of the host and the Go runtime settings
  derived from them. The host (files, environment, CPU count) is an argument; sizes are
  unsigned 64-bit numbers.
\<close>

record host =
  hFile :: "string \<Rightarrow> string option"
  hExists :: "string \<Rightarrow> bool"
  hEnv :: "string \<Rightarrow> string"
  hCPU :: int

abbreviation MiB :: "nat \<Rightarrow> nat" where
  "MiB n \<equiv> n * 1048576"

record runtime_tuning =
  rtProfile :: string
  rtClass :: string
  rtVirtualization :: string
  rtContainer :: bool
  rtSystem :: nat
  rtCgroup :: nat
  rtEffective :: nat
  rtProcs :: int
  rtGC :: int
  rtLimit :: int

definition kernelLargeMemoryThreshold :: nat where
  "kernelLargeMemoryThreshold = MiB 512"

subsection \<open>Reading the host\<close>

fun content :: "string option \<Rightarrow> string" where
  "content None = []"
| "content (Some s) = s"

definition readFile :: "host \<Rightarrow> string \<Rightarrow> string" where
  "readFile h path = content (hFile h path)"

definition readInt64File :: "host \<Rightarrow> string \<Rightarrow> int" where
  "readInt64File h path = the_default 0 (parse_int (trim_space (readFile h path)))"

definition cgroupQuotaToProcs :: "int \<Rightarrow> int \<Rightarrow> int" where
  "cgroupQuotaToProcs quota period =
     (if quota \<le> 0 \<or> period \<le> 0 then 0
      else let procs = quo (i64 (quota + period - 1)) period in if procs < 1 then 1 else procs)"

text \<open>The quota of a line of \<^verbatim>\<open>cpu.max\<close>; \<open>None\<close> falls through to the files of cgroup v1.\<close>

fun quota_pair :: "int option \<Rightarrow> int option \<Rightarrow> int option" where
  "quota_pair (Some quota) (Some period) =
     (if 0 < quota \<and> 0 < period then Some (cgroupQuotaToProcs quota period) else None)"
| "quota_pair _ _ = None"

fun cpu_max :: "string list \<Rightarrow> int option" where
  "cpu_max (q # p # rest) = (if q = ''max'' then None else quota_pair (parse_int q) (parse_int p))"
| "cpu_max _ = None"

fun or_v1 :: "int option \<Rightarrow> host \<Rightarrow> int" where
  "or_v1 (Some n) h = n"
| "or_v1 None h =
     (let quota = readInt64File h ''/sys/fs/cgroup/cpu/cpu.cfs_quota_us'';
          period = readInt64File h ''/sys/fs/cgroup/cpu/cpu.cfs_period_us''
      in if 0 < quota \<and> 0 < period then cgroupQuotaToProcs quota period else 0)"

definition detectedCgroupCPUQuota :: "host \<Rightarrow> int" where
  "detectedCgroupCPUQuota h = or_v1 (cpu_max (str_fields (readFile h ''/sys/fs/cgroup/cpu.max''))) h"

definition availableCPUCount :: "host \<Rightarrow> int" where
  "availableCPUCount h =
     (let cpu = (if hCPU h < 1 then 1 else hCPU h); quota = detectedCgroupCPUQuota h
      in if 0 < quota \<and> quota < cpu then quota else cpu)"

fun mem_total :: "string list list \<Rightarrow> nat" where
  "mem_total [] = 0"
| "mem_total (fs # rest) = (if 2 \<le> length fs \<and> fs ! 0 = ''MemTotal:''
     then u64 (parse_uint64 (fs ! 1) * 1024) else mem_total rest)"

definition linuxTotalMemory :: "host \<Rightarrow> nat" where
  "linuxTotalMemory h = mem_total (map str_fields (split_on (CHR 0x0A) (readFile h ''/proc/meminfo'')))"

definition usable_limit :: "string \<Rightarrow> int option" where
  "usable_limit raw = (let v = trim_space raw in
     if v = [] \<or> v = ''max'' then None else in_range 1 1152921504606846975 (parse_int v))"

fun first_limit :: "int option list \<Rightarrow> int" where
  "first_limit [] = 0"
| "first_limit (None # rest) = first_limit rest"
| "first_limit (Some n # rest) = n"

definition detectedCgroupMemoryLimit :: "host \<Rightarrow> int" where
  "detectedCgroupMemoryLimit h = first_limit (map (\<lambda>path. usable_limit (readFile h path))
     [''/sys/fs/cgroup/memory.max'', ''/sys/fs/cgroup/memory/memory.limit_in_bytes''])"

definition positiveInt64ToUint64 :: "int \<Rightarrow> nat" where
  "positiveInt64ToUint64 v = (if v \<le> 0 then 0 else nat v)"

definition effectiveMemory :: "nat \<Rightarrow> nat \<Rightarrow> nat" where
  "effectiveMemory systemMemory cgroupLimit =
     (if systemMemory = 0 then cgroupLimit
      else if 0 < cgroupLimit \<and> cgroupLimit < systemMemory then cgroupLimit
      else systemMemory)"

fun first_marker :: "string \<Rightarrow> (string \<times> string) list \<Rightarrow> string option" where
  "first_marker s [] = None"
| "first_marker s ((marker, name) # ms) = (if contains s marker then Some name else first_marker s ms)"

definition container_markers :: "(string \<times> string) list" where
  "container_markers = map (\<lambda>m. (m, m))
     [''incus'', ''lxc'', ''docker'', ''podman'', ''libpod'', ''kubepods'', ''containerd'']"

definition product_markers :: "(string \<times> string) list" where
  "product_markers = [(''kvm'', ''kvm''), (''qemu'', ''kvm''), (''vmware'', ''vmware''),
     (''virtualbox'', ''virtualbox''), (''microsoft corporation'', ''hyperv''), (''xen'', ''xen''),
     (''openstack'', ''kvm'')]"

fun or_product :: "string option \<Rightarrow> host \<Rightarrow> string \<times> bool" where
  "or_product (Some m) h = (m, True)"
| "or_product None h = (the_default ''physical'' (first_marker
     (to_lower (readFile h ''/sys/class/dmi/id/product_name'' @ '' '' @ readFile h ''/sys/class/dmi/id/sys_vendor''))
     product_markers), False)"

definition detectVirtualization :: "host \<Rightarrow> string \<times> bool" where
  "detectVirtualization h =
     (let a = trim_space (readFile h ''/run/systemd/container''); b = trim_space (hEnv h ''container'') in
      if a \<noteq> [] then (to_lower a, True)
      else if b \<noteq> [] then (to_lower b, True)
      else if hExists h ''/.dockerenv'' then (''docker'', True)
      else if hExists h ''/run/.containerenv'' then (''podman'', True)
      else or_product (first_marker
             (to_lower (readFile h ''/proc/1/cgroup'' @ [CHR 0x0A] @ readFile h ''/proc/1/environ''))
             container_markers) h)"

subsection \<open>Memory budgets\<close>

record host_reserves =
  hrAgent :: nat
  hrSocket :: nat
  hrOS :: nat

definition reserves_total :: "host_reserves \<Rightarrow> nat" where
  "reserves_total r = u64 (hrAgent r + hrSocket r + hrOS r)"

definition classifyHostReserves :: "nat \<Rightarrow> host_reserves" where
  "classifyHostReserves memory =
     (if memory \<le> MiB 96 then \<lparr>hrAgent = MiB 12, hrSocket = MiB 20, hrOS = MiB 8\<rparr>
      else if memory \<le> MiB 128 then \<lparr>hrAgent = MiB 16, hrSocket = MiB 36, hrOS = MiB 12\<rparr>
      else if memory \<le> MiB 192 then \<lparr>hrAgent = MiB 20, hrSocket = MiB 48, hrOS = MiB 16\<rparr>
      else if memory \<le> MiB 256 then \<lparr>hrAgent = MiB 24, hrSocket = MiB 64, hrOS = MiB 20\<rparr>
      else if memory < MiB 512 then \<lparr>hrAgent = MiB 32, hrSocket = MiB 80, hrOS = MiB 24\<rparr>
      else if memory < MiB 1024 then \<lparr>hrAgent = MiB 64, hrSocket = MiB 96, hrOS = MiB 32\<rparr>
      else if memory < MiB 2048 then \<lparr>hrAgent = MiB 96, hrSocket = MiB 128, hrOS = MiB 48\<rparr>
      else if memory < MiB 4096 then \<lparr>hrAgent = MiB 128, hrSocket = MiB 192, hrOS = MiB 96\<rparr>
      else \<lparr>hrAgent = MiB 128, hrSocket = MiB 256, hrOS = memory div 16\<rparr>)"

definition clampInt64 :: "int \<Rightarrow> int \<Rightarrow> int \<Rightarrow> int" where
  "clampInt64 v lo hi = (if v < lo then lo else if hi < v then hi else v)"

definition saturatedUint64ToInt64 :: "nat \<Rightarrow> int" where
  "saturatedUint64ToInt64 v = (if max_i64 < int v then max_i64 else int v)"

definition fillableGoLimit :: "nat \<Rightarrow> int \<Rightarrow> int \<Rightarrow> int" where
  "fillableGoLimit memory lo hi =
     (if memory = 0 then lo
      else let total = reserves_total (classifyHostReserves memory) in
        if memory \<le> total then clampInt64 (saturatedUint64ToInt64 (u64 (memory * 75) div 100)) lo hi
        else clampInt64 (saturatedUint64ToInt64 (memory - total)) lo hi)"

record budget =
  bgClass :: string
  bgProcs :: int
  bgGC :: int
  bgLimit :: int

definition smallKernelBudget :: "nat \<Rightarrow> int \<Rightarrow> budget" where
  "smallKernelBudget memory cpu0 =
     (let cpu = (if cpu0 < 1 then 1 else cpu0) in
      if memory = 0 then \<lparr>bgClass = ''unknown'', bgProcs = 1, bgGC = 70, bgLimit = int (MiB 40)\<rparr>
      else if memory \<le> MiB 96 then \<lparr>bgClass = ''micro'', bgProcs = 1, bgGC = 50,
        bgLimit = fillableGoLimit memory (int (MiB 20)) (int (MiB 48))\<rparr>
      else if memory \<le> MiB 128 then \<lparr>bgClass = ''micro'', bgProcs = 1, bgGC = 70,
        bgLimit = fillableGoLimit memory (int (MiB 40)) (int (MiB 72))\<rparr>
      else if memory \<le> MiB 192 then \<lparr>bgClass = ''compact'', bgProcs = 1, bgGC = 70,
        bgLimit = fillableGoLimit memory (int (MiB 48)) (int (MiB 120))\<rparr>
      else if memory \<le> MiB 256 then \<lparr>bgClass = ''compact'', bgProcs = 1, bgGC = 80,
        bgLimit = fillableGoLimit memory (int (MiB 64)) (int (MiB 160))\<rparr>
      else \<lparr>bgClass = ''small'', bgProcs = (if 2 \<le> cpu then 2 else 1), bgGC = 90,
        bgLimit = fillableGoLimit memory (int (MiB 80)) (int (MiB 280))\<rparr>)"

definition largeKernelBudget :: "nat \<Rightarrow> int \<Rightarrow> budget" where
  "largeKernelBudget memory cpu0 =
     (let cpu = (if cpu0 < 1 then 1 else cpu0) in
      if MiB 4096 \<le> memory then \<lparr>bgClass = ''high'', bgProcs = cpu, bgGC = 150,
        bgLimit = fillableGoLimit memory (int (MiB 192)) (int (MiB 4096))\<rparr>
      else if MiB 2048 \<le> memory then \<lparr>bgClass = ''performance'', bgProcs = min cpu 8, bgGC = 120,
        bgLimit = fillableGoLimit memory (int (MiB 192)) (int (MiB 2048))\<rparr>
      else if MiB 1024 \<le> memory then \<lparr>bgClass = ''performance'', bgProcs = min cpu 6, bgGC = 100,
        bgLimit = fillableGoLimit memory (int (MiB 192)) (int (MiB 1536))\<rparr>
      else \<lparr>bgClass = ''standard'', bgProcs = min cpu 2, bgGC = 100,
        bgLimit = fillableGoLimit memory (int (MiB 192)) (int (MiB 512))\<rparr>)"

definition selectResourceProfile :: "nat \<Rightarrow> bool \<Rightarrow> string" where
  "selectResourceProfile memory container =
     (if 0 < memory \<and> memory < kernelLargeMemoryThreshold then ''small''
      else if memory = 0 then ''small''
      else ''large'')"

definition with_budget :: "budget \<Rightarrow> runtime_tuning \<Rightarrow> runtime_tuning" where
  "with_budget b t = t\<lparr>rtClass := bgClass b, rtProcs := bgProcs b, rtGC := bgGC b, rtLimit := bgLimit b\<rparr>"

definition kernelRuntimeTuning :: "host \<Rightarrow> runtime_tuning \<Rightarrow> runtime_tuning" where
  "kernelRuntimeTuning h t =
     (if rtProfile t = ''small'' then with_budget (smallKernelBudget (rtEffective t) (availableCPUCount h)) t
      else with_budget (largeKernelBudget (rtEffective t) (availableCPUCount h)) t)"

text \<open>What \<^verbatim>\<open>ApplyRuntimeDefaults\<close> asks of the Go runtime, unless the environment overrides it.\<close>

record go_settings =
  gsProcs :: "int option"
  gsGC :: "int option"
  gsLimit :: "int option"

definition unless_env :: "host \<Rightarrow> string \<Rightarrow> int \<Rightarrow> int option" where
  "unless_env h var v = (if hEnv h var = [] then Some v else None)"

definition requested_profile :: "host \<Rightarrow> string \<Rightarrow> string" where
  "requested_profile h requested =
     (let e = trim_space (hEnv h ''OBOARD_RESOURCE_PROFILE'');
          r = (if (requested = [] \<or> requested = ''auto'') \<and> e \<noteq> [] then e else requested);
          p = to_lower (trim_space r)
      in if p = [] then ''auto'' else p)"

definition final_profile :: "string \<Rightarrow> string \<Rightarrow> string" where
  "final_profile profile detected =
     (if profile = ''auto'' then detected
      else if profile = ''large'' \<and> detected = ''small'' then detected
      else profile)"

definition ApplyRuntimeDefaults :: "host \<Rightarrow> string \<Rightarrow> int \<Rightarrow> int \<Rightarrow> (runtime_tuning \<times> go_settings) option" where
  "ApplyRuntimeDefaults h requested procs memoryLimit =
     (let profile = requested_profile h requested in
      if profile \<noteq> ''auto'' \<and> profile \<noteq> ''small'' \<and> profile \<noteq> ''large'' then None
      else
        let system = linuxTotalMemory h;
            cgroup = positiveInt64ToUint64 (detectedCgroupMemoryLimit h);
            effective = effectiveMemory system cgroup;
            virt = detectVirtualization h;
            t = kernelRuntimeTuning h \<lparr>rtProfile = final_profile profile (selectResourceProfile effective (snd virt)),
                  rtClass = [], rtVirtualization = fst virt, rtContainer = snd virt, rtSystem = system,
                  rtCgroup = cgroup, rtEffective = effective, rtProcs = 0, rtGC = 0, rtLimit = 0\<rparr>;
            t = (if 0 < procs then t\<lparr>rtProcs := procs\<rparr> else t);
            t = (if 0 < memoryLimit then t\<lparr>rtLimit := memoryLimit\<rparr> else t)
        in Some (t, \<lparr>gsProcs = unless_env h ''GOMAXPROCS'' (rtProcs t), gsGC = unless_env h ''GOGC'' (rtGC t),
                     gsLimit = unless_env h ''GOMEMLIMIT'' (rtLimit t)\<rparr>))"

subsection \<open>The budget leaves the reserves free\<close>

lemma saturated_le: "saturatedUint64ToInt64 v \<le> int v"
  by (simp add: saturatedUint64ToInt64_def)

lemma reserves_total_eq:
  assumes "m < 2 ^ 64"
  shows "reserves_total (classifyHostReserves m) =
    (if m \<le> MiB 96 then MiB 40 else if m \<le> MiB 128 then MiB 64 else if m \<le> MiB 192 then MiB 84
     else if m \<le> MiB 256 then MiB 108 else if m < MiB 512 then MiB 136 else if m < MiB 1024 then MiB 192
     else if m < MiB 2048 then MiB 272 else if m < MiB 4096 then MiB 416 else MiB 384 + m div 16)"
proof -
  have "MiB 384 + m div 16 < 2 ^ 64" using assms by simp
  then show ?thesis by (simp add: classifyHostReserves_def reserves_total_def u64_def)
qed

lemma fillable_fits:
  assumes "reserves_total (classifyHostReserves m) < m"
    and "lo + int (reserves_total (classifyHostReserves m)) \<le> int m" "lo \<le> hi"
  shows "lo \<le> fillableGoLimit m lo hi \<and> fillableGoLimit m lo hi \<le> hi \<and>
    fillableGoLimit m lo hi + int (reserves_total (classifyHostReserves m)) \<le> int m"
  using assms saturated_le [of "m - reserves_total (classifyHostReserves m)"]
  by (auto simp: fillableGoLimit_def clampInt64_def Let_def)

lemma small_budget_fits:
  assumes "MiB 132 \<le> m" "m < 2 ^ 64"
  shows "0 < bgLimit (smallKernelBudget m cpu) \<and>
    bgLimit (smallKernelBudget m cpu) + int (reserves_total (classifyHostReserves m)) \<le> int m"
proof -
  have "0 < fillableGoLimit m lo hi \<and> fillableGoLimit m lo hi + int (reserves_total (classifyHostReserves m)) \<le> int m"
    if "0 < lo" "lo \<le> hi" "lo + int (reserves_total (classifyHostReserves m)) \<le> int m" for lo hi
    using fillable_fits [of m lo hi] that by linarith
  then show ?thesis
    using assms by (auto simp: smallKernelBudget_def Let_def reserves_total_eq [OF assms(2)])
qed

lemma large_budget_fits:
  assumes "MiB 512 \<le> m" "m < 2 ^ 64"
  shows "0 < bgLimit (largeKernelBudget m cpu) \<and>
    bgLimit (largeKernelBudget m cpu) + int (reserves_total (classifyHostReserves m)) \<le> int m"
proof -
  have "0 < fillableGoLimit m lo hi \<and> fillableGoLimit m lo hi + int (reserves_total (classifyHostReserves m)) \<le> int m"
    if "0 < lo" "lo \<le> hi" "lo + int (reserves_total (classifyHostReserves m)) \<le> int m" for lo hi
    using fillable_fits [of m lo hi] that by linarith
  then show ?thesis
    using assms by (auto simp: largeKernelBudget_def Let_def reserves_total_eq [OF assms(2)])
qed

lemma usable_limit_bound: "usable_limit raw = Some n \<Longrightarrow> n < 2 ^ 60"
proof -
  have "in_range 1 1152921504606846975 r = Some n \<Longrightarrow> n < 2 ^ 60" for r by (cases r) (auto split: if_splits)
  then show "usable_limit raw = Some n \<Longrightarrow> n < 2 ^ 60" by (auto simp: usable_limit_def Let_def split: if_splits)
qed

lemma first_limit_bound: "(\<And>n. Some n \<in> set rs \<Longrightarrow> n < 2 ^ 60) \<Longrightarrow> first_limit rs < 2 ^ 60"
  by (induction rs rule: first_limit.induct) auto

lemma effective_bound:
  "effectiveMemory (linuxTotalMemory h) (positiveInt64ToUint64 (detectedCgroupMemoryLimit h)) < 2 ^ 64"
proof -
  have "mem_total ls < 2 ^ 64" for ls by (induction ls) (simp_all add: u64_def)
  then have "linuxTotalMemory h < 2 ^ 64" by (simp add: linuxTotalMemory_def)
  moreover have "detectedCgroupMemoryLimit h < 2 ^ 60"
    unfolding detectedCgroupMemoryLimit_def
    by (rule first_limit_bound) (auto dest: usable_limit_bound [OF sym])
  ultimately show ?thesis by (auto simp: effectiveMemory_def positiveInt64ToUint64_def)
qed

lemma final_profile_cases:
  "final_profile p (selectResourceProfile m c) = ''large'' \<Longrightarrow> p = ''auto'' \<or> p = ''small'' \<or> p = ''large''
     \<Longrightarrow> MiB 512 \<le> m"
  by (auto simp: final_profile_def selectResourceProfile_def kernelLargeMemoryThreshold_def split: if_splits)

text \<open>C35: The runtime budget. On a host with at least 132 MiB of effective memory the soft limit
  given to Go is positive and leaves the reserves for agent, sockets and system free, the
  large profile is only chosen with at least 512 MiB, whatever profile was requested, and
  the settings applied are those of the tuning.\<close>

theorem runtime_budget_fits:
  assumes "ApplyRuntimeDefaults h requested procs 0 = Some (t, g)" "MiB 132 \<le> rtEffective t"
  shows "0 < rtLimit t \<and>
    rtLimit t + int (reserves_total (classifyHostReserves (rtEffective t))) \<le> int (rtEffective t) \<and>
    (rtProfile t = ''small'' \<or> rtProfile t = ''large'' \<and> MiB 512 \<le> rtEffective t) \<and>
    gsLimit g \<in> {None, Some (rtLimit t)}"
proof -
  define m where "m = effectiveMemory (linuxTotalMemory h) (positiveInt64ToUint64 (detectedCgroupMemoryLimit h))"
  define p where "p = final_profile (requested_profile h requested) (selectResourceProfile m (snd (detectVirtualization h)))"
  have m: "m < 2 ^ 64" unfolding m_def by (rule effective_bound)
  have req: "requested_profile h requested \<in> {''auto'', ''small'', ''large''}"
    using assms(1) by (auto simp: ApplyRuntimeDefaults_def Let_def split: if_splits)
  then have p: "p = ''small'' \<or> p = ''large''"
    by (auto simp: p_def final_profile_def selectResourceProfile_def)
  have large: "MiB 512 \<le> m" if "p = ''large''"
    using final_profile_cases that req unfolding p_def by blast
  have t: "rtEffective t = m" "rtProfile t = p"
    "rtLimit t = bgLimit (if p = ''small'' then smallKernelBudget m (availableCPUCount h)
       else largeKernelBudget m (availableCPUCount h))" "gsLimit g = unless_env h ''GOMEMLIMIT'' (rtLimit t)"
    using assms(1) req
    by (auto simp: ApplyRuntimeDefaults_def Let_def m_def [symmetric] p_def [symmetric] kernelRuntimeTuning_def
        with_budget_def split: if_splits)
  show ?thesis
    using p large assms(2) m small_budget_fits [of m] large_budget_fits [of m]
    unfolding t by (auto simp: unless_env_def)
qed

definition meminfo_host :: "string \<Rightarrow> host" where
  "meminfo_host kb = \<lparr>hFile = (\<lambda>p. if p = ''/proc/meminfo'' then Some (''MemTotal: '' @ kb @ '' kB'') else None),
     hExists = (\<lambda>_. False), hEnv = (\<lambda>_. []), hCPU = 1\<rparr>"

theorem runtime_budget_fits_witness:
  "\<exists>t g. ApplyRuntimeDefaults (meminfo_host ''262144'') ''large'' 0 0 = Some (t, g) \<and> rtEffective t = MiB 256 \<and>
    rtLimit t + int (reserves_total (classifyHostReserves (rtEffective t))) \<le> int (rtEffective t)"
proof -
  define r where "r = the (ApplyRuntimeDefaults (meminfo_host ''262144'') ''large'' 0 0)"
  have "ApplyRuntimeDefaults (meminfo_host ''262144'') ''large'' 0 0 \<noteq> None" "rtEffective (fst r) = MiB 256"
    unfolding r_def by code_simp+
  then have e: "ApplyRuntimeDefaults (meminfo_host ''262144'') ''large'' 0 0 = Some (fst r, snd r)" "rtEffective (fst r) = MiB 256"
    by (simp_all add: r_def)
  have "MiB 132 \<le> rtEffective (fst r)" using e by simp
  from runtime_budget_fits [OF e(1) this] e show ?thesis by blast
qed

text \<open>Floors eat the reserves. On a host with 100 MiB the floor of 40 MiB is given to Go although
  only 36 MiB remain after the reserves that have to stay free.\<close>

theorem tight_host_overcommits:
  "map_option (\<lambda>(t, _). (rtEffective t, rtLimit t, reserves_total (classifyHostReserves (rtEffective t))))
     (ApplyRuntimeDefaults (meminfo_host ''102400'') ''auto'' 0 0) = Some (MiB 100, int (MiB 40), MiB 64)"
  by code_simp

end
