(* ===== verification/Governor.thy ===== *)
theory Governor
  imports Resources
begin

text \<open>
  The socket buffer governor and the memory reclaimer of the kernel
  (\<^verbatim>\<open>minibox/socket_governor.go\<close>, \<^verbatim>\<open>minibox/memory_reclaimer.go\<close>). The two procfs files the
  governor writes are part of its state; \<open>w\<close> tells which writes succeed, and the clock
  and the memory reading are arguments.
\<close>

subsection \<open>The kernel's buffer limits\<close>

datatype cap_error = CapUnreadable | CapBadLine | CapBadValue | CapUnwritable

type_synonym sysctl = "(string, string) gomap"

definition tcp_paths :: "string list" where
  "tcp_paths = [''/proc/sys/net/ipv4/tcp_rmem'', ''/proc/sys/net/ipv4/tcp_wmem'']"

definition positive :: "int option \<Rightarrow> bool" where
  "positive r \<longleftrightarrow> 0 < the_default 0 r"

definition capped_line :: "int \<Rightarrow> string list \<Rightarrow> string" where
  "capped_line cap fs = (let v0 = the_default 0 (parse_int (fs ! 0)); v1 = the_default 0 (parse_int (fs ! 1))
     in join '' '' [format_int v0, format_int (if cap < v1 then cap else v1), format_int cap])"

definition cap_fields :: "bool \<Rightarrow> int \<Rightarrow> string \<Rightarrow> string list \<Rightarrow> sysctl \<Rightarrow> cap_error option \<times> sysctl" where
  "cap_fields writable cap path fs sys =
     (if length fs \<noteq> 3 then (Some CapBadLine, sys)
      else if \<not> list_all (\<lambda>f. positive (parse_int f)) fs then (Some CapBadValue, sys)
      else if join '' '' fs = capped_line cap fs then (None, sys)
      else if writable then (None, gm_put path (capped_line cap fs) sys)
      else (Some CapUnwritable, sys))"

fun cap_content :: "string option \<Rightarrow> bool \<Rightarrow> int \<Rightarrow> string \<Rightarrow> sysctl \<Rightarrow> cap_error option \<times> sysctl" where
  "cap_content None writable cap path sys = (Some CapUnreadable, sys)"
| "cap_content (Some s) writable cap path sys = cap_fields writable cap path (str_fields s) sys"

fun cap_paths :: "(string \<Rightarrow> bool) \<Rightarrow> int \<Rightarrow> string list \<Rightarrow> sysctl \<Rightarrow> cap_error option \<times> sysctl" where
  "cap_paths w cap [] sys = (None, sys)"
| "cap_paths w cap (path # rest) sys =
     (let r = cap_content (gm_get sys path) (w path) cap path sys in
      if fst r \<noteq> None then r else cap_paths w cap rest (snd r))"

definition setLinuxTCPBufferCap :: "(string \<Rightarrow> bool) \<Rightarrow> int \<Rightarrow> sysctl \<Rightarrow> cap_error option \<times> sysctl" where
  "setLinuxTCPBufferCap w cap sys = (if cap \<le> 0 then (None, sys) else cap_paths w cap tcp_paths sys)"

subsection \<open>Profiles\<close>

record gov_profile =
  gpPeak :: int
  gpBalanced :: int
  gpSafe :: int
  gpBalancedMark :: int
  gpHighMark :: int
  gpInterval :: duration

definition no_profile :: gov_profile where
  "no_profile = \<lparr>gpPeak = 0, gpBalanced = 0, gpSafe = 0, gpBalancedMark = 0, gpHighMark = 0, gpInterval = 0\<rparr>"

abbreviation KiB :: "int \<Rightarrow> int" where
  "KiB n \<equiv> n * 1024"

definition millis :: "int \<Rightarrow> duration" where
  "millis n = n * 1000000"

definition adaptiveSocketGovernorProfile :: "nat \<Rightarrow> gov_profile" where
  "adaptiveSocketGovernorProfile memory =
     (if memory = 0 then no_profile
      else if memory \<le> MiB 96 then \<lparr>gpPeak = 1677722, gpBalanced = KiB 512, gpSafe = KiB 128,
        gpBalancedMark = 3, gpHighMark = 6, gpInterval = millis 250\<rparr>
      else if memory \<le> MiB 128 then \<lparr>gpPeak = 1677722, gpBalanced = KiB 768, gpSafe = KiB 256,
        gpBalancedMark = 6, gpHighMark = 12, gpInterval = millis 250\<rparr>
      else if memory \<le> MiB 192 then \<lparr>gpPeak = KiB 6144, gpBalanced = KiB 2048, gpSafe = KiB 512,
        gpBalancedMark = 8, gpHighMark = 20, gpInterval = millis 500\<rparr>
      else if memory \<le> MiB 256 then \<lparr>gpPeak = KiB 8192, gpBalanced = KiB 2048, gpSafe = KiB 1024,
        gpBalancedMark = 12, gpHighMark = 32, gpInterval = millis 500\<rparr>
      else if memory < MiB 512 then \<lparr>gpPeak = KiB 12288, gpBalanced = KiB 4096, gpSafe = 1677722,
        gpBalancedMark = 20, gpHighMark = 64, gpInterval = secs 1\<rparr>
      else if memory < MiB 1024 then \<lparr>gpPeak = KiB 16384, gpBalanced = KiB 4096, gpSafe = KiB 2048,
        gpBalancedMark = 32, gpHighMark = 128, gpInterval = secs 1\<rparr>
      else no_profile)"

text \<open>\<^verbatim>\<open>memoryReclaimThreshold\<close>; the product stays below 2^64 because the limit is below 1 GiB.\<close>

definition class_percent :: "string \<Rightarrow> nat" where
  "class_percent c = (if c = ''micro'' then 85 else if c = ''compact'' then 88
     else if c = ''small'' \<or> c = ''standard'' then 90 else 0)"

definition memoryReclaimThreshold :: "runtime_tuning \<Rightarrow> nat" where
  "memoryReclaimThreshold t =
     (let limit = rtCgroup t in
      if limit = 0 \<or> MiB 1024 \<le> limit then 0
      else if rtProfile t \<noteq> ''small'' \<and> MiB 1024 \<le> rtEffective t then 0
      else limit * class_percent (rtClass t) div 100)"

subsection \<open>The governor\<close>

record governor =
  gvEnabled :: bool
  gvProfile :: gov_profile
  gvPressure :: nat
  gvActive :: int
  gvMode :: string
  gvCap :: int
  gvStable :: instant
  gvChanged :: instant
  gvError :: "cap_error option"
  gvSys :: sysctl

fun mode_result :: "cap_error option \<times> sysctl \<Rightarrow> instant \<Rightarrow> string \<Rightarrow> int \<Rightarrow> governor \<Rightarrow> governor" where
  "mode_result (Some e, sys) at mode cap g = g\<lparr>gvError := Some e, gvSys := sys\<rparr>"
| "mode_result (None, sys) at mode cap g = g\<lparr>gvMode := mode, gvCap := cap, gvChanged := at, gvError := None,
     gvStable := (if mode = ''peak'' then zero_time else gvStable g), gvSys := sys\<rparr>"

definition setMode :: "(string \<Rightarrow> bool) \<Rightarrow> instant \<Rightarrow> string \<Rightarrow> int \<Rightarrow> governor \<Rightarrow> governor" where
  "setMode w at mode cap g =
     (if \<not> gvEnabled g \<or> gvMode g = mode \<and> gvCap g = cap then g
      else mode_result (setLinuxTCPBufferCap w cap (gvSys g)) at mode cap g)"

definition new_governor :: "sysctl \<Rightarrow> runtime_tuning \<Rightarrow> governor" where
  "new_governor sys t =
     (let p = adaptiveSocketGovernorProfile (rtEffective t)
      in \<lparr>gvEnabled = (0 < gpPeak p \<and> 0 < gpBalanced p \<and> 0 < gpSafe p), gvProfile = p,
          gvPressure = memoryReclaimThreshold t, gvActive = 0, gvMode = [], gvCap = 0,
          gvStable = zero_time, gvChanged = zero_time, gvError = None, gvSys = sys\<rparr>)"

definition StartAdaptiveSocketGovernor :: "(string \<Rightarrow> bool) \<Rightarrow> instant \<Rightarrow> sysctl \<Rightarrow> runtime_tuning \<Rightarrow> governor" where
  "StartAdaptiveSocketGovernor w at sys t =
     (let g = new_governor sys t
      in if \<not> gvEnabled g then g else setMode w at ''peak'' (gpPeak (gvProfile g)) g)"

definition ObserveConnections :: "(string \<Rightarrow> bool) \<Rightarrow> instant \<Rightarrow> int \<Rightarrow> governor \<Rightarrow> governor" where
  "ObserveConnections w at active0 g =
     (if \<not> gvEnabled g then g
      else let active = (if active0 < 0 then 0 else active0); p = gvProfile g; g1 = g\<lparr>gvActive := active\<rparr> in
        if gpHighMark p \<le> active then setMode w at ''safe'' (gpSafe p) g1
        else if gpBalancedMark p \<le> active then setMode w at ''balanced'' (gpBalanced p) g1
        else g1)"

definition settle :: "(string \<Rightarrow> bool) \<Rightarrow> instant \<Rightarrow> instant \<Rightarrow> string \<Rightarrow> int \<Rightarrow> governor \<Rightarrow> governor" where
  "settle w at now mode cap g =
     (if gvMode g = mode \<and> gvCap g = cap then g
      else if gvStable g = zero_time then g\<lparr>gvStable := now\<rparr>
      else if secs 10 \<le> now - gvStable g then setMode w at mode cap g
      else g)"

definition evaluate :: "(string \<Rightarrow> bool) \<Rightarrow> instant \<Rightarrow> instant \<Rightarrow> nat \<Rightarrow> governor \<Rightarrow> governor" where
  "evaluate w at now mem g =
     (let p = gvProfile g; active = gvActive g; pressure = gvPressure g in
      if gpHighMark p \<le> active \<or> 0 < pressure \<and> pressure \<le> mem
      then setMode w at ''safe'' (gpSafe p) (g\<lparr>gvStable := zero_time\<rparr>)
      else if 0 < pressure \<and> pressure * 95 div 100 < mem then g\<lparr>gvStable := zero_time\<rparr>
      else if gpBalancedMark p \<le> active then settle w at now ''balanced'' (gpBalanced p) g
      else settle w at now ''peak'' (gpPeak p) g)"

record gov_snapshot =
  gsnEnabled :: bool
  gsnMode :: string
  gsnActive :: int
  gsnProfile :: gov_profile
  gsnCap :: int
  gsnChanged :: string
  gsnError :: "cap_error option"

definition gov_Snapshot :: "governor option \<Rightarrow> gov_snapshot" where
  "gov_Snapshot go = (case go of
       None \<Rightarrow> \<lparr>gsnEnabled = False, gsnMode = [], gsnActive = 0, gsnProfile = no_profile, gsnCap = 0,
               gsnChanged = [], gsnError = None\<rparr>
     | Some g \<Rightarrow> \<lparr>gsnEnabled = gvEnabled g, gsnMode = gvMode g, gsnActive = gvActive g, gsnProfile = gvProfile g,
               gsnCap = gvCap g,
               gsnChanged = (if gvChanged g = zero_time then [] else format_rfc3339 (gvChanged g)),
               gsnError = gvError g\<rparr>)"

subsection \<open>The memory reclaimer\<close>

record reclaimer =
  rcEnabled :: bool
  rcThreshold :: nat
  rcCurrent :: nat
  rcAfter :: nat
  rcCount :: "64 word"
  rcLast :: int

definition StartMemoryReclaimer :: "runtime_tuning \<Rightarrow> reclaimer" where
  "StartMemoryReclaimer t = (let n = memoryReclaimThreshold t in
     \<lparr>rcEnabled = (0 < n), rcThreshold = n, rcCurrent = 0, rcAfter = 0, rcCount = 0, rcLast = 0\<rparr>)"

definition checkInterval :: "reclaimer \<Rightarrow> duration" where
  "checkInterval r = (if 0 < rcThreshold r \<and> rcThreshold r \<le> MiB 128 then millis 250
     else if rcThreshold r \<le> MiB 256 then millis 500 else secs 1)"

definition reclaimReady :: "instant \<Rightarrow> reclaimer \<Rightarrow> bool" where
  "reclaimReady now r \<longleftrightarrow> rcLast r = 0 \<or> secs 5 \<le> now - rcLast r"

text \<open>One tick of \<^verbatim>\<open>MemoryReclaimer.run\<close>: the readings before and after the reclaim, the clock at
  the check and after it.\<close>

definition reclaim_tick :: "nat \<Rightarrow> instant \<Rightarrow> nat \<Rightarrow> instant \<Rightarrow> reclaimer \<Rightarrow> reclaimer" where
  "reclaim_tick current now after now' r0 =
     (let r = r0\<lparr>rcCurrent := current\<rparr> in
      if current < rcThreshold r \<or> \<not> reclaimReady now r then r
      else r\<lparr>rcAfter := after, rcCount := rcCount r + 1, rcLast := i64 now'\<rparr>)"

record reclaimer_snapshot =
  rsnEnabled :: bool
  rsnThreshold :: nat
  rsnCurrent :: nat
  rsnAfter :: nat
  rsnCount :: "64 word"
  rsnLast :: string

definition reclaimer_Snapshot :: "reclaimer \<Rightarrow> reclaimer_snapshot" where
  "reclaimer_Snapshot r = \<lparr>rsnEnabled = rcEnabled r, rsnThreshold = rcThreshold r, rsnCurrent = rcCurrent r,
     rsnAfter = rcAfter r, rsnCount = rcCount r,
     rsnLast = (if 0 < rcLast r then format_rfc3339 (rcLast r) else [])\<rparr>"

fun first_uint :: "nat option list \<Rightarrow> nat" where
  "first_uint [] = 0"
| "first_uint (None # rest) = first_uint rest"
| "first_uint (Some n # rest) = n"

definition currentCgroupMemory :: "host \<Rightarrow> nat" where
  "currentCgroupMemory h = first_uint (map (\<lambda>p. parse_uint (trim_space (readFile h p)))
     [''/sys/fs/cgroup/memory.current'', ''/sys/fs/cgroup/memory/memory.usage_in_bytes''])"

subsection \<open>What a successful write leaves behind\<close>

text \<open>A file whose third value is the cap and whose default does not exceed it.\<close>

definition capped :: "int \<Rightarrow> string option \<Rightarrow> bool" where
  "capped cap r \<longleftrightarrow> (\<exists>s lo mid. r = Some s \<and> map parse_int (str_fields s) = [Some lo, Some mid, Some cap] \<and> mid \<le> cap)"

lemma three_fields: "str_fields (join '' '' [format_int a, format_int b, format_int c]) =
    [format_int a, format_int b, format_int c]"
  by (rule str_fields_join) (simp add: format_int_word)

lemma parse_int_range: "parse_int s = Some x \<Longrightarrow> in_i64 x"
  by (cases "parse_signed (parse_sign s)") (auto simp: parse_int_def in_i64_def split: if_splits)

lemma length_3: "length fs = 3 \<Longrightarrow> \<exists>a b c. fs = [a, b, c]"
  by (cases fs; cases "tl fs"; cases "tl (tl fs)") auto

lemma positiveD: "positive r \<Longrightarrow> \<exists>x. r = Some x \<and> 0 < x"
  by (cases r) (auto simp: positive_def)

text \<open>The rewritten line, whether it was written or already there.\<close>

lemma capped_line_capped:
  assumes "fs = [a, b, c]" "list_all (\<lambda>f. positive (parse_int f)) fs" "in_i64 cap"
  shows "map parse_int [format_int (the (parse_int a)), format_int (min cap (the (parse_int b))), format_int cap] =
      [Some (the (parse_int a)), Some (min cap (the (parse_int b))), Some cap]"
    and "capped_line cap fs = join '' '' [format_int (the (parse_int a)), format_int (min cap (the (parse_int b))), format_int cap]"
proof -
  obtain x y where xy: "parse_int a = Some x" "parse_int b = Some y" "0 < x" "0 < y"
    using assms(1,2) by (auto dest!: positiveD)
  have r: "in_i64 x" "in_i64 y" using xy parse_int_range by blast+
  then have "in_i64 (min cap y)" using assms(3) by (auto simp: min_def)
  then show "map parse_int [format_int (the (parse_int a)), format_int (min cap (the (parse_int b))), format_int cap] =
      [Some (the (parse_int a)), Some (min cap (the (parse_int b))), Some cap]"
    using r assms(3) xy by (simp add: parse_format_int)
  show "capped_line cap fs = join '' '' [format_int (the (parse_int a)), format_int (min cap (the (parse_int b))), format_int cap]"
    using xy assms(1) by (auto simp: capped_line_def Let_def min_def)
qed

lemma undigits_only: "undigits acc s = Some n \<Longrightarrow> c \<in> set s \<Longrightarrow> is_digit c"
  by (induction acc s rule: undigits.induct) (auto split: if_splits)

lemma parse_int_no_space:
  assumes "positive (parse_int f)"
  shows "CHR '' '' \<notin> set f"
proof (cases f)
  case (Cons c s)
  obtain x where "parse_int f = Some x" using assms positiveD by blast
  then have "\<exists>y. parse_signed (parse_sign f) = Some y"
    by (cases "parse_signed (parse_sign f)") (auto simp: parse_int_def)
  then have "\<exists>n. parse_nat (snd (parse_sign f)) = Some n"
    by (cases "parse_sign f"; cases "parse_nat (snd (parse_sign f))") auto
  then have "\<forall>c \<in> set (snd (parse_sign f)). is_digit c"
    by (auto simp: parse_nat_def split: if_splits dest: undigits_only)
  moreover have "set f \<subseteq> {CHR ''-'', CHR ''+''} \<union> set (snd (parse_sign f))"
    by (auto simp: Cons)
  moreover have "\<not> is_digit (CHR '' '')" by (simp add: is_digit_def)
  ultimately show ?thesis by auto
qed simp

lemma cap_fields_capped:
  assumes "cap_fields w cap path (str_fields s) sys = (None, sys')" "gm_get sys path = Some s" "in_i64 cap"
  shows "capped cap (gm_get sys' path)"
proof -
  let ?fs = "str_fields s"
  have ok: "length ?fs = 3" "list_all (\<lambda>f. positive (parse_int f)) ?fs"
    using assms(1) by (auto simp: cap_fields_def split: if_splits)
  then obtain a b c where fs: "?fs = [a, b, c]" using length_3 by blast
  let ?new = "[format_int (the (parse_int a)), format_int (min cap (the (parse_int b))), format_int cap]"
  note line = capped_line_capped [OF fs ok(2) assms(3)]
  have cap: "capped cap (Some t)" if "str_fields t = ?new" for t
    unfolding capped_def
    by (intro exI conjI, rule refl, unfold that, rule line(1), simp)
  have "gm_get sys' path = Some (join '' '' ?new) \<or> gm_get sys' path = Some s \<and> join '' '' ?fs = join '' '' ?new"
    using assms(1,2) ok line(2) by (auto simp: cap_fields_def simp del: join.simps split: if_splits)
  then show ?thesis
  proof
    assume same: "gm_get sys' path = Some s \<and> join '' '' ?fs = join '' '' ?new"
    have "split_on (CHR '' '') (join '' '' ?fs) = ?fs"
      using ok fs by (intro split_join) (auto simp: list_all_iff dest: parse_int_no_space)
    moreover have "split_on (CHR '' '') (join '' '' ?new) = ?new"
      by (rule split_join) (auto dest!: format_int_chars simp: is_digit_def)
    ultimately have "?fs = ?new" using same by metis
    then show ?thesis using cap same by simp
  next
    assume "gm_get sys' path = Some (join '' '' ?new)"
    then show ?thesis using cap [OF three_fields] by (simp only:)
  qed
qed

lemma cap_content_other:
  "path \<noteq> other \<Longrightarrow> gm_get (snd (cap_content r wr cap path sys)) other = gm_get sys other"
  by (cases r) (auto simp: cap_fields_def)

lemma cap_content_capped:
  assumes "cap_content (gm_get sys path) wr cap path sys = (None, sys')" "in_i64 cap"
  shows "capped cap (gm_get sys' path)"
  using assms cap_fields_capped [of wr cap path _ sys sys'] by (cases "gm_get sys path") auto

lemma cap_paths_capped:
  assumes "cap_paths w cap paths sys = (None, sys')" "in_i64 cap" "distinct paths"
  shows "(\<forall>p \<in> set paths. capped cap (gm_get sys' p)) \<and> (\<forall>p. p \<notin> set paths \<longrightarrow> gm_get sys' p = gm_get sys p)"
  using assms
proof (induction paths arbitrary: sys)
  case (Cons path rest)
  obtain e s1 where r: "cap_content (gm_get sys path) (w path) cap path sys = (e, s1)"
    by (cases "cap_content (gm_get sys path) (w path) cap path sys")
  then have "e = None" "cap_paths w cap rest s1 = (None, sys')"
    using Cons.prems(1) by (auto simp: Let_def split: if_splits)
  then show ?case
    using Cons.IH [of s1] Cons.prems r cap_content_capped [of sys path "w path" cap s1]
      cap_content_other [of path _ "gm_get sys path" "w path" cap sys]
    by (metis distinct.simps(2) set_ConsD list.set_intros snd_conv)
qed simp

lemma set_cap_capped:
  assumes "setLinuxTCPBufferCap w cap sys = (None, sys')" "0 < cap" "in_i64 cap"
  shows "\<forall>p \<in> set tcp_paths. capped cap (gm_get sys' p)"
  using assms cap_paths_capped [of w cap tcp_paths sys sys']
  by (auto simp: setLinuxTCPBufferCap_def tcp_paths_def)

text \<open>Files the governor can parse, and writes that all succeed.\<close>

definition line_ok :: "string option \<Rightarrow> bool" where
  "line_ok r \<longleftrightarrow> r \<noteq> None \<and> length (str_fields (content r)) = 3 \<and>
     list_all (\<lambda>f. positive (parse_int f)) (str_fields (content r))"

definition sys_ok :: "sysctl \<Rightarrow> bool" where
  "sys_ok sys \<longleftrightarrow> list_all (\<lambda>p. line_ok (gm_get sys p)) tcp_paths"

lemma capped_line_ok:
  assumes "length fs = 3" "list_all (\<lambda>f. positive (parse_int f)) fs" "0 < cap" "in_i64 cap"
  shows "line_ok (Some (capped_line cap fs))"
proof -
  obtain a b c where fs: "fs = [a, b, c]" using assms(1) length_3 by blast
  then have "0 < the (parse_int a)" "0 < the (parse_int b)" using assms(2) by (auto dest!: positiveD)
  then show ?thesis
    using capped_line_capped [OF fs assms(2,4)] assms(3) three_fields
    by (simp add: line_ok_def positive_def del: join.simps)
qed

lemma cap_content_line_ok:
  assumes "0 < cap" "in_i64 cap" "line_ok (gm_get sys p)"
  shows "line_ok (gm_get (snd (cap_content r wr cap path sys)) p)"
proof (cases r)
  case (Some s)
  show ?thesis
    using assms capped_line_ok [of "str_fields s" cap] unfolding Some
    by (cases "p = path") (auto simp: cap_fields_def)
qed (use assms in simp)

lemma cap_paths_sys_ok:
  assumes "0 < cap" "in_i64 cap" "sys_ok sys"
  shows "sys_ok (snd (cap_paths w cap paths sys))"
  using assms(3)
proof (induction paths arbitrary: sys)
  case (Cons path rest)
  have "sys_ok (snd (cap_content (gm_get sys path) (w path) cap path sys))"
    using Cons.prems cap_content_line_ok [OF assms(1,2)] by (auto simp: sys_ok_def list_all_iff)
  then show ?case using Cons.IH by (simp add: Let_def)
qed simp

lemma cap_paths_succeed:
  assumes "0 < cap" "in_i64 cap" "\<forall>p \<in> set paths. line_ok (gm_get sys p)"
  shows "fst (cap_paths (\<lambda>_. True) cap paths sys) = None"
  using assms(3)
proof (induction paths arbitrary: sys)
  case (Cons path rest)
  obtain s where s: "gm_get sys path = Some s" "length (str_fields s) = 3"
    "list_all (\<lambda>f. positive (parse_int f)) (str_fields s)"
    using Cons.prems by (auto simp: line_ok_def)
  then have "fst (cap_content (gm_get sys path) True cap path sys) = None"
    by (simp add: cap_fields_def)
  moreover have "\<forall>p \<in> set rest. line_ok (gm_get (snd (cap_content (gm_get sys path) True cap path sys)) p)"
    using Cons.prems cap_content_line_ok [OF assms(1,2)] by (metis list.set_intros(2))
  ultimately show ?case using Cons.IH by (simp add: Let_def)
qed simp

subsection \<open>Histories\<close>

definition profile_ok :: "gov_profile \<Rightarrow> bool" where
  "profile_ok p \<longleftrightarrow> 0 < gpSafe p \<and> gpSafe p < gpBalanced p \<and> gpBalanced p < gpPeak p \<and> gpPeak p \<le> KiB 16384 \<and>
     0 < gpBalancedMark p \<and> gpBalancedMark p < gpHighMark p"

definition levels :: "gov_profile \<Rightarrow> (string \<times> int) set" where
  "levels p = {(''peak'', gpPeak p), (''balanced'', gpBalanced p), (''safe'', gpSafe p)}"

text \<open>Every state of a governor: a mode comes with its own cap, and after a clean write both
  files carry that cap.\<close>

definition gov_ok :: "governor \<Rightarrow> bool" where
  "gov_ok g \<longleftrightarrow> 0 \<le> gvActive g \<and>
     (gvMode g = [] \<and> gvCap g = 0 \<or> gvEnabled g \<and> (gvMode g, gvCap g) \<in> levels (gvProfile g)) \<and>
     (gvEnabled g \<longrightarrow> profile_ok (gvProfile g)) \<and>
     (gvError g = None \<and> gvMode g \<noteq> [] \<longrightarrow> (\<forall>p \<in> set tcp_paths. capped (gvCap g) (gm_get (gvSys g) p)))"

lemma level_cap: "profile_ok p \<Longrightarrow> (mode, cap) \<in> levels p \<Longrightarrow> 0 < cap \<and> in_i64 cap \<and> mode \<noteq> []"
  by (auto simp: profile_ok_def levels_def in_i64_def min_i64_def max_i64_def)

lemma setMode_change:
  "gvEnabled g \<Longrightarrow> \<not> (gvMode g = mode \<and> gvCap g = cap) \<Longrightarrow>
     setMode w at mode cap g = mode_result (setLinuxTCPBufferCap w cap (gvSys g)) at mode cap g"
  by (auto simp: setMode_def)

lemma setMode_ok:
  assumes "gov_ok g" "(mode, cap) \<in> levels (gvProfile g)"
  shows "gov_ok (setMode w at mode cap g)"
proof (cases "\<not> gvEnabled g \<or> gvMode g = mode \<and> gvCap g = cap")
  case False
  then have en: "gvEnabled g" by simp
  with assms(1) have p: "profile_ok (gvProfile g)" by (simp add: gov_ok_def)
  obtain e sys where r: "setLinuxTCPBufferCap w cap (gvSys g) = (e, sys)" by (cases "setLinuxTCPBufferCap w cap (gvSys g)")
  show ?thesis
  proof (cases e)
    case None
    then have "\<forall>p \<in> set tcp_paths. capped cap (gm_get sys p)"
      using set_cap_capped r level_cap [OF p assms(2)] by blast
    then show ?thesis using assms en False None setMode_change [of g mode cap w at] by (simp add: r gov_ok_def)
  next
    case (Some x)
    then show ?thesis using assms en False setMode_change [of g mode cap w at] by (simp add: r gov_ok_def)
  qed
qed (use assms in \<open>auto simp: setMode_def\<close>)

lemma update_ok [simp]:
  "gov_ok g \<Longrightarrow> gov_ok (g\<lparr>gvStable := t\<rparr>)" "gov_ok g \<Longrightarrow> 0 \<le> n \<Longrightarrow> gov_ok (g\<lparr>gvActive := n\<rparr>)"
  by (simp_all add: gov_ok_def)

lemma ObserveConnections_ok: "gov_ok g \<Longrightarrow> gov_ok (ObserveConnections w at n g)"
  by (auto simp: ObserveConnections_def Let_def levels_def intro!: setMode_ok)

lemma evaluate_ok: "gov_ok g \<Longrightarrow> gov_ok (evaluate w at now mem g)"
  by (auto simp: evaluate_def settle_def Let_def levels_def intro!: setMode_ok)

lemma profile_ok_table:
  "let p = adaptiveSocketGovernorProfile m in 0 < gpPeak p \<and> 0 < gpBalanced p \<and> 0 < gpSafe p \<longrightarrow> profile_ok p"
  by (auto simp: adaptiveSocketGovernorProfile_def no_profile_def profile_ok_def Let_def)

lemma new_governor_ok: "gov_ok (new_governor sys t)" "gvSys (new_governor sys t) = sys"
  using profile_ok_table [of "rtEffective t"] by (simp_all add: gov_ok_def new_governor_def Let_def)

lemma peak_level: "(''peak'', gpPeak p) \<in> levels p"
  by (simp add: levels_def)

lemma Start_ok: "gov_ok (StartAdaptiveSocketGovernor w at sys t)"
  by (simp add: StartAdaptiveSocketGovernor_def Let_def new_governor_ok setMode_ok peak_level)

datatype gov_op = GObserve "string \<Rightarrow> bool" instant int | GEvaluate "string \<Rightarrow> bool" instant instant nat

fun gov_step :: "gov_op \<Rightarrow> governor \<Rightarrow> governor" where
  "gov_step (GObserve w at n) g = ObserveConnections w at n g"
| "gov_step (GEvaluate w at now mem) g = evaluate w at now mem g"

definition gov_run :: "gov_op list \<Rightarrow> governor \<Rightarrow> governor" where
  "gov_run ops g = fold gov_step ops g"

lemma gov_step_ok: "gov_ok g \<Longrightarrow> gov_ok (gov_step op g)"
  by (cases op) (simp_all add: ObserveConnections_ok evaluate_ok)

lemma gov_run_ok: "gov_ok g \<Longrightarrow> gov_ok (gov_run ops g)"
  by (induction ops arbitrary: g) (simp_all add: gov_run_def gov_step_ok)

text \<open>The files stay readable, whichever writes fail.\<close>

lemma setMode_sys_ok:
  assumes "gov_ok g" "(mode, cap) \<in> levels (gvProfile g)" "sys_ok (gvSys g)"
  shows "sys_ok (gvSys (setMode w at mode cap g))"
proof (cases "\<not> gvEnabled g \<or> gvMode g = mode \<and> gvCap g = cap")
  case False
  then have en: "gvEnabled g" "\<not> (gvMode g = mode \<and> gvCap g = cap)" by auto
  with assms(1) have "profile_ok (gvProfile g)" by (simp add: gov_ok_def)
  note c = level_cap [OF this assms(2)]
  have "sys_ok (snd (setLinuxTCPBufferCap w cap (gvSys g)))"
    using c cap_paths_sys_ok [of cap "gvSys g"] assms(3) by (simp add: setLinuxTCPBufferCap_def)
  moreover have "gvSys (mode_result r at mode cap g) = snd r" for r
    by (cases "(r, at, mode, cap, g)" rule: mode_result.cases) auto
  ultimately show ?thesis using en setMode_change [of g mode cap w at] by simp
qed (use assms in \<open>auto simp: setMode_def\<close>)

lemma gov_step_sys_ok: "gov_ok g \<Longrightarrow> sys_ok (gvSys g) \<Longrightarrow> sys_ok (gvSys (gov_step op g))"
  by (cases op) (auto simp: ObserveConnections_def evaluate_def settle_def Let_def levels_def intro!: setMode_sys_ok)

lemma gov_run_sys_ok: "gov_ok g \<Longrightarrow> sys_ok (gvSys g) \<Longrightarrow> sys_ok (gvSys (gov_run ops g))"
  by (induction ops arbitrary: g) (simp_all add: gov_run_def gov_step_sys_ok gov_step_ok)

lemma Start_sys_ok: "sys_ok sys \<Longrightarrow> sys_ok (gvSys (StartAdaptiveSocketGovernor w at sys t))"
  by (simp add: StartAdaptiveSocketGovernor_def Let_def new_governor_ok setMode_sys_ok peak_level)

lemma setMode_reaches:
  assumes "gov_ok g" "gvEnabled g" "(mode, cap) \<in> levels (gvProfile g)" "sys_ok (gvSys g)" "gvError g = None"
  shows "gvMode (setMode (\<lambda>_. True) at mode cap g) = mode \<and> gvCap (setMode (\<lambda>_. True) at mode cap g) = cap \<and>
    (\<forall>p \<in> set tcp_paths. capped cap (gm_get (gvSys (setMode (\<lambda>_. True) at mode cap g)) p))"
proof (cases "gvMode g = mode \<and> gvCap g = cap")
  case True
  then show ?thesis using assms level_cap [of "gvProfile g" mode cap] by (simp add: setMode_def gov_ok_def)
next
  case False
  have "profile_ok (gvProfile g)" using assms by (simp add: gov_ok_def)
  note c = level_cap [OF this assms(3)]
  obtain sys where r: "setLinuxTCPBufferCap (\<lambda>_. True) cap (gvSys g) = (None, sys)"
    using cap_paths_succeed [of cap tcp_paths "gvSys g"] c assms(4)
    by (cases "setLinuxTCPBufferCap (\<lambda>_. True) cap (gvSys g)")
      (auto simp: setLinuxTCPBufferCap_def sys_ok_def list_all_iff)
  show ?thesis using set_cap_capped [OF r] c setMode_change [OF assms(2) False] by (simp add: r)
qed

lemma overload_step:
  assumes "gov_ok g" "gvEnabled g"
    and "g' = ObserveConnections (\<lambda>_. True) at n g \<and> gpHighMark (gvProfile g) \<le> n
      \<or> g' = evaluate (\<lambda>_. True) at now mem g \<and> 0 < gvPressure g \<and> gvPressure g \<le> mem"
  shows "\<exists>n t. 0 \<le> n \<and> g' = setMode (\<lambda>_. True) at ''safe'' (gpSafe (gvProfile g)) (g\<lparr>gvActive := n, gvStable := t\<rparr>)"
proof -
  have high: "0 < gpHighMark (gvProfile g)" using assms(1,2) by (auto simp: gov_ok_def profile_ok_def)
  from assms(3) show ?thesis
  proof
    assume "g' = ObserveConnections (\<lambda>_. True) at n g \<and> gpHighMark (gvProfile g) \<le> n"
    then show ?thesis
      using high assms(2) by (intro exI [of _ n] exI [of _ "gvStable g"]) (simp add: ObserveConnections_def Let_def)
  next
    assume "g' = evaluate (\<lambda>_. True) at now mem g \<and> 0 < gvPressure g \<and> gvPressure g \<le> mem"
    then show ?thesis
      using assms(1) by (intro exI [of _ "gvActive g"] exI [of _ zero_time]) (simp add: evaluate_def Let_def gov_ok_def)
  qed
qed

text \<open>C36: Overload is capped. After any history with arbitrary write failures, the mode of the governor
  comes with its own cap and no other. If the last change was clean, a connection count at
  the high watermark, or memory at the pressure threshold, puts it in safe mode and both
  kernel files at the safe cap.\<close>

theorem overload_is_capped:
  assumes "sys_ok sys" "g = gov_run ops (StartAdaptiveSocketGovernor w at sys t)" "gvEnabled g" "gvError g = None"
    and "g' = ObserveConnections (\<lambda>_. True) at' n g \<and> gpHighMark (gvProfile g) \<le> n
      \<or> g' = evaluate (\<lambda>_. True) at' now mem g \<and> 0 < gvPressure g \<and> gvPressure g \<le> mem"
  shows "(gvMode g = [] \<and> gvCap g = 0 \<or> (gvMode g, gvCap g) \<in> levels (gvProfile g)) \<and>
    gvMode g' = ''safe'' \<and> gvCap g' = gpSafe (gvProfile g) \<and>
    (\<forall>p \<in> set tcp_paths. capped (gpSafe (gvProfile g)) (gm_get (gvSys g') p))"
proof -
  have ok: "gov_ok g" "sys_ok (gvSys g)"
    unfolding assms(2) using Start_ok Start_sys_ok assms(1) by (auto intro: gov_run_ok gov_run_sys_ok)
  obtain n t where h: "0 \<le> n"
      "g' = setMode (\<lambda>_. True) at' ''safe'' (gpSafe (gvProfile g)) (g\<lparr>gvActive := n, gvStable := t\<rparr>)"
    using overload_step [OF ok(1) assms(3,5)] by blast
  let ?h = "g\<lparr>gvActive := n, gvStable := t\<rparr>"
  have "gov_ok ?h" "gvEnabled ?h" "(''safe'', gpSafe (gvProfile g)) \<in> levels (gvProfile ?h)" "sys_ok (gvSys ?h)" "gvError ?h = None"
    using ok assms(3,4) h(1) by (simp_all add: levels_def)
  from setMode_reaches [OF this, of at'] ok(1) assms(3) show ?thesis unfolding h(2) by (simp add: gov_ok_def)
qed

subsection \<open>Concrete runs\<close>

definition ex_tuning :: runtime_tuning where
  "ex_tuning = \<lparr>rtProfile = ''small'', rtClass = ''compact'', rtVirtualization = ''docker'', rtContainer = True,
     rtSystem = MiB 1024, rtCgroup = MiB 256, rtEffective = MiB 256, rtProcs = 1, rtGC = 80, rtLimit = 0\<rparr>"

definition ex_sys :: sysctl where
  "ex_sys = [(''/proc/sys/net/ipv4/tcp_rmem'', ''4096 131072 6291456''), (''/proc/sys/net/ipv4/tcp_wmem'', ''4096 16384 4194304'')]"

definition all_writes :: "string \<Rightarrow> bool" where
  "all_writes p = True"

definition only_rmem :: "string \<Rightarrow> bool" where
  "only_rmem p = has_suffix ''rmem'' p"

definition ex_governor :: governor where
  "ex_governor = StartAdaptiveSocketGovernor all_writes (secs 1) ex_sys ex_tuning"

theorem overload_is_capped_witness:
  "gvMode (ObserveConnections (\<lambda>_. True) (secs 2) 40 ex_governor) = ''safe'' \<and>
   list_all (\<lambda>p. capped (KiB 1024) (gm_get (gvSys (ObserveConnections (\<lambda>_. True) (secs 2) 40 ex_governor)) p)) tcp_paths"
proof -
  have e: "sys_ok ex_sys" "gvEnabled ex_governor" "gvError ex_governor = None"
    "gpHighMark (gvProfile ex_governor) \<le> 40" "gpSafe (gvProfile ex_governor) = KiB 1024" by code_simp+
  have "ex_governor = gov_run [] (StartAdaptiveSocketGovernor all_writes (secs 1) ex_sys ex_tuning)"
    by (simp add: gov_run_def ex_governor_def)
  from overload_is_capped [OF e(1) this e(2,3) disjI1, OF conjI [OF refl e(4)]] e(5) show ?thesis by (simp add: list_all_iff)
qed

text \<open>A failed raise sticks. When raising the caps fails at the second file, the first keeps the peak
  cap while the mode stays safe; the next overload finds the mode already safe and leaves
  the large buffer in place.\<close>

theorem failed_raise_sticks:
  "let g = gov_run [GObserve all_writes (secs 2) 40, GObserve all_writes (secs 3) 0,
                    GEvaluate all_writes (secs 100) (secs 100) 0, GEvaluate only_rmem (secs 111) (secs 111) 0,
                    GObserve all_writes (secs 120) 40] ex_governor in
   gvMode g = ''safe'' \<and> gvCap g = KiB 1024 \<and> gvError g = Some CapUnwritable \<and>
   gvSys g = [(''/proc/sys/net/ipv4/tcp_rmem'', ''4096 131072 8388608''), (''/proc/sys/net/ipv4/tcp_wmem'', ''4096 16384 1048576'')]"
  by code_simp

text \<open>Raising without settling. The start of a quiet spell is forgotten only on the way to peak mode
  or under pressure: here the load is back for almost twenty seconds, and the first check
  after it drops raises the caps to the peak at once instead of after ten quiet seconds.\<close>

theorem raised_without_settling:
  "let g = gov_run [GObserve all_writes (secs 2) 12, GObserve all_writes (secs 3) 0,
                    GEvaluate all_writes (secs 4) (secs 4) 0, GObserve all_writes (secs 5) 20,
                    GEvaluate all_writes (secs 24) (secs 24) 0, GObserve all_writes (secs 24) 11] ex_governor in
   gvMode g = ''balanced'' \<and> gvMode (evaluate all_writes (secs 25) (secs 25) 0 g) = ''peak''"
  by code_simp

end
