(* ===== verification/Sha256.thy ===== *)
theory Sha256
  imports Prelude
begin

text \<open>
  Go's \<^verbatim>\<open>crypto/sha256.Sum256\<close> on byte strings (FIPS 180-4), which the sources use to
  compare credentials and to name documents.
\<close>

unbundle bit_operations_syntax

type_synonym w32 = "32 word"

definition rotr :: "nat \<Rightarrow> w32 \<Rightarrow> w32" where
  "rotr n x = drop_bit n x OR push_bit (32 - n) x"

definition sha_k :: "w32 list" where
  "sha_k = [
    1116352408, 1899447441, 3049323471, 3921009573, 961987163, 1508970993, 2453635748, 2870763221,
    3624381080, 310598401, 607225278, 1426881987, 1925078388, 2162078206, 2614888103, 3248222580, 3835390401,
    4022224774, 264347078, 604807628, 770255983, 1249150122, 1555081692, 1996064986, 2554220882, 2821834349,
    2952996808, 3210313671, 3336571891, 3584528711, 113926993, 338241895, 666307205, 773529912, 1294757372,
    1396182291, 1695183700, 1986661051, 2177026350, 2456956037, 2730485921, 2820302411, 3259730800,
    3345764771, 3516065817, 3600352804, 4094571909, 275423344, 430227734, 506948616, 659060556, 883997877,
    958139571, 1322822218, 1537002063, 1747873779, 1955562222, 2024104815, 2227730452, 2361852424,
    2428436474, 2756734187, 3204031479, 3329325298]"

definition sha_h0 :: "w32 list" where
  "sha_h0 = [
    1779033703, 3144134277, 1013904242, 2773480762, 1359893119, 2600822924, 528734635, 1541459225]"

text \<open>Padding to a multiple of 64 bytes, with the bit length in the last eight.\<close>

definition be_bytes :: "nat \<Rightarrow> nat \<Rightarrow> nat list" where
  "be_bytes n x = rev (map (\<lambda>i. x div 256 ^ i mod 256) [0..<n])"

definition sha_pad :: "nat list \<Rightarrow> nat list" where
  "sha_pad bs = (let n = length bs; z = (119 - n mod 64) mod 64
     in bs @ [128] @ replicate z 0 @ be_bytes 8 (n * 8))"

fun be_words :: "nat list \<Rightarrow> w32 list" where
  "be_words (a # b # c # d # rest) = of_nat (((a * 256 + b) * 256 + c) * 256 + d) # be_words rest"
| "be_words _ = []"

definition schedule_next :: "w32 list \<Rightarrow> w32" where
  "schedule_next ws = (let n = length ws; a = ws ! (n - 2); b = ws ! (n - 15)
     in (rotr 17 a XOR rotr 19 a XOR drop_bit 10 a) + ws ! (n - 7)
        + (rotr 7 b XOR rotr 18 b XOR drop_bit 3 b) + ws ! (n - 16))"

fun schedule :: "nat \<Rightarrow> w32 list \<Rightarrow> w32 list" where
  "schedule 0 ws = ws"
| "schedule (Suc n) ws = schedule n (ws @ [schedule_next ws])"

fun sha_round :: "w32 list \<Rightarrow> w32 \<times> w32 \<Rightarrow> w32 list" where
  "sha_round [a, b, c, d, e, f, g, h] (k, w) =
     (let t1 = h + (rotr 6 e XOR rotr 11 e XOR rotr 25 e) + ((e AND f) XOR (NOT e AND g)) + k + w;
          t2 = (rotr 2 a XOR rotr 13 a XOR rotr 22 a) + ((a AND b) XOR (a AND c) XOR (b AND c))
      in [t1 + t2, a, b, c, d + t1, e, f, g])"
| "sha_round st kw = st"

definition sha_block :: "w32 list \<Rightarrow> w32 list \<Rightarrow> w32 list" where
  "sha_block hs block = map2 (+) hs (foldl sha_round hs (zip sha_k (schedule 48 block)))"

fun chunks16 :: "nat \<Rightarrow> w32 list \<Rightarrow> w32 list list" where
  "chunks16 0 ws = []"
| "chunks16 (Suc n) ws = take 16 ws # chunks16 n (drop 16 ws)"

definition byte_values :: "string \<Rightarrow> nat list" where
  "byte_values s = map of_char s"

definition sum256 :: "string \<Rightarrow> string" where
  "sum256 s = (let ws = be_words (sha_pad (byte_values s))
     in bytes (concat (map (\<lambda>w. be_bytes 4 (unat w)) (foldl sha_block sha_h0 (chunks16 (length ws div 16) ws)))))"

lemma length_sha_pad: "length (sha_pad bs) mod 64 = 0"
proof -
  have "(n + 9 + (119 - n mod 64) mod 64) mod 64 = 0" for n :: nat
  proof -
    have "(n mod 64 + 9 + (119 - n mod 64)) mod 64 = 0" by simp
    then show ?thesis by (metis (no_types, opaque_lifting) mod_add_left_eq mod_add_right_eq add.assoc)
  qed
  then show ?thesis by (simp add: sha_pad_def be_bytes_def Let_def algebra_simps)
qed

end
