(* ===== verification/Tracker.thy ===== *)
theory Tracker
  imports Lease Activity Quota ConnAudit Governor Sha256
begin

text \<open>
  The connection tracker of the kernel: \<^verbatim>\<open>RateLimitTracker\<close> with its tracked connections
  (\<^verbatim>\<open>minibox/ratelimit.go\<close>), the authorization paths (\<^verbatim>\<open>minibox/authorization.go\<close>) and Snell
  admission (\<^verbatim>\<open>minibox/snell_admission.go\<close>). It composes the lease store, the quota states,
  the activity collector, the connection audit and the socket governor.

  Runtime states, connections and Snell parents are objects with identity: they live in
  lists and are named by their position. The lists only grow. A call runs at one instant;
  clock, zone database, fresh counter epochs and the outcome of procfs writes come with an
  environment \<open>env\<close>, and what the wrapped network connection does is an argument of the call.
\<close>

subsection \<open>State\<close>

record env =
  eNow :: instant
  eZones :: "string \<Rightarrow> location option"
  eEp :: "nat \<Rightarrow> string"
  eProc :: "string \<Rightarrow> bool"

record conn_identity =
  idKey :: string
  idEpoch :: int
  idUser :: int

record conn =
  cnState :: nat
  cnIdent :: conn_identity
  cnAdmitted :: bool
  cnAudit :: string
  cnActivity :: identity
  cnPacket :: bool
  cnClosed :: bool

record parent =
  paState :: "nat option"
  paIdent :: conn_identity
  paClosed :: bool
  paScope :: string
  paCred :: string

type_synonym index = "(string, nat list) gomap"

record tracker =
  tkHeap :: "rt_state list"
  tkFresh :: nat
  tkUsages :: usages
  tkStates :: "(string, nat) gomap"
  tkConns :: "conn list"
  tkActive :: index
  tkActivePacket :: index
  tkByCred :: index
  tkByCredPacket :: index
  tkTCP :: int
  tkGovernor :: "governor option"
  tkAuth :: store
  tkWake :: bool
  tkActivity :: collector
  tkAudit :: audit
  tkParents :: "parent list"
  tkSnell :: "nat list"
  tkSnellUsers :: "(string, string \<times> string) gomap"
  tkRetired :: "string list"
  tkUsersFailed :: bool

definition blank_state :: rt_state where
  "blank_state = newRuntimeState [] [] [] [] zero_limit"

definition state_at :: "nat \<Rightarrow> tracker \<Rightarrow> rt_state" where
  "state_at a t = (if a < length (tkHeap t) then tkHeap t ! a else blank_state)"

definition set_state :: "nat \<Rightarrow> rt_state \<Rightarrow> tracker \<Rightarrow> tracker" where
  "set_state a s t = t\<lparr>tkHeap := (tkHeap t)[a := s]\<rparr>"

definition no_identity :: conn_identity where
  "no_identity = \<lparr>idKey = [], idEpoch = 0, idUser = 0\<rparr>"

definition blank_conn :: conn where
  "blank_conn = \<lparr>cnState = 0, cnIdent = no_identity, cnAdmitted = False, cnAudit = [],
     cnActivity = \<lparr>iUser = 0, iInbound = 0, iPath = 0, iSource = None\<rparr>, cnPacket = False, cnClosed = True\<rparr>"

definition conn_at :: "nat \<Rightarrow> tracker \<Rightarrow> conn" where
  "conn_at c t = (if c < length (tkConns t) then tkConns t ! c else blank_conn)"

definition blank_parent :: parent where
  "blank_parent = \<lparr>paState = None, paIdent = no_identity, paClosed = False, paScope = [], paCred = []\<rparr>"

definition parent_at :: "nat \<Rightarrow> tracker \<Rightarrow> parent" where
  "parent_at p t = (if p < length (tkParents t) then tkParents t ! p else blank_parent)"

subsection \<open>Indexes\<close>

text \<open>Go's \<^verbatim>\<open>map[string]map[*trackedConn]struct{}\<close>, with empty inner maps removed.\<close>

definition idx_get :: "index \<Rightarrow> string \<Rightarrow> nat list" where
  "idx_get m k = the_default [] (gm_get m k)"

definition idx_add :: "string \<Rightarrow> nat \<Rightarrow> index \<Rightarrow> index" where
  "idx_add k c m = gm_put k (List.insert c (idx_get m k)) m"

definition idx_del :: "string \<Rightarrow> nat \<Rightarrow> index \<Rightarrow> index" where
  "idx_del k c m = (let l = removeAll c (idx_get m k) in if l = [] then gm_del k m else gm_put k l m)"

definition cred_add :: "string \<Rightarrow> nat \<Rightarrow> index \<Rightarrow> index" where
  "cred_add k c m = (if k \<noteq> [] then idx_add k c m else m)"

definition cred_del :: "string \<Rightarrow> nat \<Rightarrow> index \<Rightarrow> index" where
  "cred_del k c m = (if k \<noteq> [] then idx_del k c m else m)"

subsection \<open>Verdicts\<close>

text \<open>\<^verbatim>\<open>currentConfig\<close> on the state at an address.\<close>

definition refresh :: "env \<Rightarrow> nat \<Rightarrow> tracker \<Rightarrow> tracker" where
  "refresh x a t = (set_state a (currentConfig (eZones x) (eNow x) (eEp x (tkFresh t)) (state_at a t)) t)
     \<lparr>tkFresh := tkFresh t + 1\<rparr>"

definition state_identity :: "rt_state \<Rightarrow> conn_identity" where
  "state_identity s = (let l = rsPolicy s in \<lparr>idKey = qAuthKey l, idEpoch = qEpoch l, idUser = qUser l\<rparr>)"

definition authorizationRevokedFor :: "store \<Rightarrow> instant \<Rightarrow> conn_identity \<Rightarrow> rt_state \<Rightarrow> bool" where
  "authorizationRevokedFor auth now i s =
     (let l = rsPolicy s in
      if qUser l \<le> 0 \<and> qAuthKey l = [] \<and> idKey i = [] then False
      else if \<not> store_allows auth (if idKey i = [] then qAuthKey l else idKey i) now then True
      else idKey i \<noteq> [] \<and> qAuthKey l \<noteq> [] \<and>
        (idKey i \<noteq> qAuthKey l \<or> 0 < idEpoch i \<and> 0 < qEpoch l \<and> idEpoch i \<noteq> qEpoch l))"

definition revoked_at :: "env \<Rightarrow> conn_identity \<Rightarrow> nat \<Rightarrow> tracker \<Rightarrow> bool" where
  "revoked_at x i a t = authorizationRevokedFor (tkAuth t) (eNow x) i (state_at a t)"

text \<open>\<^verbatim>\<open>runtimeState.denied\<close>.\<close>

definition denied :: "env \<Rightarrow> nat \<Rightarrow> tracker \<Rightarrow> bool \<times> tracker" where
  "denied x a t =
     (if revoked_at x (state_identity (state_at a t)) a t then (True, t)
      else let t1 = refresh x a t; s = state_at a t1
           in (runtimeConfigDenied (rsPolicy s) (unacknowledged (tkUsages t1) s), t1))"

definition quota_denied :: "env \<Rightarrow> bool \<Rightarrow> nat \<Rightarrow> tracker \<Rightarrow> bool \<times> tracker" where
  "quota_denied x admitted a t =
     (let t1 = refresh x a t in (quotaDeniedFor (tkUsages t1) admitted (state_at a t1), t1))"

definition deniedForConnection :: "env \<Rightarrow> bool \<Rightarrow> nat \<Rightarrow> tracker \<Rightarrow> bool \<times> tracker" where
  "deniedForConnection x admitted a t =
     (if revoked_at x (state_identity (state_at a t)) a t then (True, t) else quota_denied x admitted a t)"

text \<open>\<^verbatim>\<open>trackedConn.deny\<close> and \<^verbatim>\<open>trackedPacketConn.deny\<close>.\<close>

definition conn_revoked :: "env \<Rightarrow> nat \<Rightarrow> tracker \<Rightarrow> bool" where
  "conn_revoked x c t = revoked_at x (cnIdent (conn_at c t)) (cnState (conn_at c t)) t"

definition conn_deny :: "env \<Rightarrow> nat \<Rightarrow> tracker \<Rightarrow> bool \<times> tracker" where
  "conn_deny x c t =
     (if conn_revoked x c t then (True, t)
      else quota_denied x (cnAdmitted (conn_at c t)) (cnState (conn_at c t)) t)"

subsection \<open>Registration and closing\<close>

definition observe_tcp :: "env \<Rightarrow> tracker \<Rightarrow> tracker" where
  "observe_tcp x t = t\<lparr>tkGovernor := map_option (ObserveConnections (eProc x) (eNow x) (tkTCP t)) (tkGovernor t)\<rparr>"

definition conn_key :: "nat \<Rightarrow> tracker \<Rightarrow> string" where
  "conn_key c t = rsKey (state_at (cnState (conn_at c t)) t)"

definition unregisterConn :: "env \<Rightarrow> nat \<Rightarrow> tracker \<Rightarrow> tracker" where
  "unregisterConn x c t =
     (let key = conn_key c t; cred = idKey (cnIdent (conn_at c t)) in
      observe_tcp x (t\<lparr>tkActive := idx_del key c (tkActive t), tkByCred := cred_del cred c (tkByCred t),
        tkTCP := (if tkTCP t - 1 < 0 then 0 else tkTCP t - 1)\<rparr>))"

definition unregisterPacketConn :: "nat \<Rightarrow> tracker \<Rightarrow> tracker" where
  "unregisterPacketConn c t =
     (let key = conn_key c t; cred = idKey (cnIdent (conn_at c t)) in
      t\<lparr>tkActivePacket := idx_del key c (tkActivePacket t), tkByCredPacket := cred_del cred c (tkByCredPacket t)\<rparr>)"

text \<open>\<^verbatim>\<open>Close\<close> of both kinds of connection; a second call changes nothing.\<close>

definition close_conn :: "env \<Rightarrow> nat \<Rightarrow> tracker \<Rightarrow> tracker" where
  "close_conn x c t =
     (if cnClosed (conn_at c t) then t
      else let n = conn_at c t;
               t1 = t\<lparr>tkConns := (tkConns t)[c := n\<lparr>cnClosed := True\<rparr>],
                      tkAudit := recordConnectionEnd (eNow x) (cnAudit n) (tkAudit t)\<rparr>
           in if cnPacket n then unregisterPacketConn c t1 else unregisterConn x c t1)"

fun close_if :: "env \<Rightarrow> nat \<Rightarrow> bool \<times> tracker \<Rightarrow> tracker" where
  "close_if x c (d, t) = (if d then close_conn x c t else t)"

definition close_denied :: "env \<Rightarrow> nat \<Rightarrow> tracker \<Rightarrow> tracker" where
  "close_denied x c t = close_if x c (conn_deny x c t)"

definition registerConn :: "env \<Rightarrow> nat \<Rightarrow> tracker \<Rightarrow> tracker" where
  "registerConn x c t =
     (let key = conn_key c t; cred = idKey (cnIdent (conn_at c t)) in
      if key = [] then t
      else close_denied x c (observe_tcp x (t\<lparr>tkActive := idx_add key c (tkActive t),
             tkByCred := cred_add cred c (tkByCred t), tkTCP := tkTCP t + 1\<rparr>)))"

definition registerPacketConn :: "env \<Rightarrow> nat \<Rightarrow> tracker \<Rightarrow> tracker" where
  "registerPacketConn x c t =
     (let key = conn_key c t; cred = idKey (cnIdent (conn_at c t)) in
      if key = [] then t
      else close_denied x c (t\<lparr>tkActivePacket := idx_add key c (tkActivePacket t),
             tkByCredPacket := cred_add cred c (tkByCredPacket t)\<rparr>))"

definition close_all :: "env \<Rightarrow> nat list \<Rightarrow> tracker \<Rightarrow> tracker" where
  "close_all x cs t = fold (close_conn x) cs t"

subsection \<open>New connections\<close>

record metadata =
  mdUser :: string
  mdInbound :: string
  mdSource :: addr
  mdNetwork :: string
  mdGeo :: string

definition stateForKey :: "string \<Rightarrow> tracker \<Rightarrow> nat option" where
  "stateForKey key t = (if key = [] then None else gm_get (tkStates t) key)"

definition runtimeFor :: "metadata \<Rightarrow> tracker \<Rightarrow> nat option" where
  "runtimeFor md t =
     (let u = (if mdUser md \<noteq> [] then stateForKey (''user:'' @ mdUser md) t else None) in
      if u \<noteq> None then u
      else if mdInbound md \<noteq> [] then stateForKey (''inbound:'' @ mdInbound md) t
      else None)"

definition audit_start :: "env \<Rightarrow> nat \<Rightarrow> metadata \<Rightarrow> string \<Rightarrow> bool \<Rightarrow> tracker \<Rightarrow> string \<times> tracker" where
  "audit_start x a md network admitted t =
     (if \<not> aEnabled (tkAudit t) \<or> \<not> aDiagnostics (tkAudit t) then ([], t)
      else let t1 = refresh x a t; s = state_at a t1;
               r = recordConnectionStart (eNow x) (rsKey s) (rsPolicy s) (mdSource md) (mdGeo md) (mdNetwork md)
                     network admitted (tkAudit t1)
           in (fst r, t1\<lparr>tkAudit := snd r\<rparr>))"

datatype routed = Untracked | Counted nat | Tracked nat

definition new_conn :: "env \<Rightarrow> nat \<Rightarrow> metadata \<Rightarrow> bool \<Rightarrow> bool \<times> tracker \<Rightarrow> tracker" where
  "new_conn x a md packet r =
     (let admitted = (\<not> fst r); t = snd r; s = state_at a t; l = rsPolicy s;
          u = audit_start x a md (if packet then ''udp'' else ''tcp'') admitted t
      in (snd u)\<lparr>tkConns := tkConns (snd u) @ [\<lparr>cnState = a, cnIdent = state_identity s, cnAdmitted = admitted,
           cnAudit = fst u, cnActivity = bind_identity (qUser l) (qInbound l) (qPath l) (mdSource md),
           cnPacket = packet, cnClosed = False\<rparr>]\<rparr>)"

definition route :: "env \<Rightarrow> nat \<Rightarrow> metadata \<Rightarrow> bool \<Rightarrow> tracker \<Rightarrow> routed \<times> tracker" where
  "route x a md packet t =
     (let t1 = refresh x a t; s = state_at a t1; c = length (tkConns t) in
      if rsLimiter s = None \<and> \<not> qBillable (rsPolicy s) then (Untracked, t1)
      else let t2 = new_conn x a md packet (denied x a t1);
               t3 = (if packet then registerPacketConn x c t2 else registerConn x c t2);
               t4 = close_denied x c t3
           in (if rsLimiter s = None \<and> \<not> packet then Counted c else Tracked c, t4))"

fun route_to :: "nat option \<Rightarrow> env \<Rightarrow> metadata \<Rightarrow> bool \<Rightarrow> tracker \<Rightarrow> routed \<times> tracker" where
  "route_to None x md packet t = (Untracked, t)"
| "route_to (Some a) x md packet t = route x a md packet t"

definition RoutedConnection :: "env \<Rightarrow> metadata \<Rightarrow> tracker \<Rightarrow> routed \<times> tracker" where
  "RoutedConnection x md t = route_to (runtimeFor md t) x md False t"

definition RoutedPacketConnection :: "env \<Rightarrow> metadata \<Rightarrow> tracker \<Rightarrow> routed \<times> tracker" where
  "RoutedPacketConnection x md t = route_to (runtimeFor md t) x md True t"

subsection \<open>Traffic of a connection\<close>

definition bytes64 :: "int \<Rightarrow> 64 word" where
  "bytes64 n = word_of_int n"

text \<open>\<^verbatim>\<open>trackedConn.addTraffic\<close>: activity, quota and audit see the same bytes.\<close>

definition record_activity :: "env \<Rightarrow> nat \<Rightarrow> int \<Rightarrow> int \<Rightarrow> tracker \<Rightarrow> tracker" where
  "record_activity x c upload download t =
     (let n = conn_at c t in
      if aEnabled (tkAudit t) \<and> cnAdmitted n then
        (let t1 = refresh x (cnState n) t in
         if qBillable (rsPolicy (state_at (cnState n) t1)) \<and> 0 \<le> upload \<and> 0 \<le> download
         then t1\<lparr>tkActivity := Record (cnActivity n) (unix_of (eNow x)) (bytes64 upload) (bytes64 download) (tkActivity t1)\<rparr>
         else t1)
      else t)"

definition state_traffic :: "env \<Rightarrow> nat \<Rightarrow> int \<Rightarrow> int \<Rightarrow> tracker \<Rightarrow> tracker" where
  "state_traffic x a upload download t =
     (let w = addTraffic (eZones x) (eNow x) (eEp x (tkFresh t)) upload download (tkUsages t, state_at a t)
      in (set_state a (snd w) t)\<lparr>tkUsages := fst w, tkFresh := tkFresh t + 1\<rparr>)"

definition audit_payload :: "env \<Rightarrow> nat \<Rightarrow> int \<Rightarrow> int \<Rightarrow> tracker \<Rightarrow> tracker" where
  "audit_payload x c upload download t =
     t\<lparr>tkAudit := recordConnectionPayload (eNow x) (cnAudit (conn_at c t)) upload download (tkAudit t)\<rparr>"

definition conn_traffic :: "env \<Rightarrow> nat \<Rightarrow> int \<Rightarrow> int \<Rightarrow> tracker \<Rightarrow> tracker" where
  "conn_traffic x c upload download t =
     audit_payload x c upload download
       (state_traffic x (cnState (conn_at c t)) upload download (record_activity x c upload download t))"

text \<open>The result of a call: bytes and whether an error is returned.\<close>

datatype io_result = QuotaExceeded | IO int bool

definition limited :: "nat \<Rightarrow> tracker \<Rightarrow> bool" where
  "limited c t \<longleftrightarrow> rsLimiter (state_at (cnState (conn_at c t)) t) \<noteq> None"

text \<open>\<^verbatim>\<open>currentReadLimiter\<close> and \<^verbatim>\<open>currentWriteLimiter\<close> roll the period over as well.\<close>

definition look_limiter :: "env \<Rightarrow> nat \<Rightarrow> tracker \<Rightarrow> tracker" where
  "look_limiter x c t = refresh x (cnState (conn_at c t)) t"

definition count_and_check :: "env \<Rightarrow> nat \<Rightarrow> int \<Rightarrow> int \<Rightarrow> tracker \<Rightarrow> tracker" where
  "count_and_check x c upload download t = close_denied x c (conn_traffic x c upload download t)"

fun conn_read_some :: "env \<Rightarrow> nat \<Rightarrow> bool \<Rightarrow> int \<times> bool \<Rightarrow> tracker \<Rightarrow> io_result \<times> tracker" where
  "conn_read_some x c wait_fails (n, err) t =
     (if 0 < n then (IO n (err \<or> wait_fails \<and> limited c (look_limiter x c t)),
                     count_and_check x c n 0 (look_limiter x c t))
      else (IO n err, t))"

text \<open>\<^verbatim>\<open>trackedConn.Read\<close>: \<open>rd\<close> is what the wrapped connection returns for a buffer length.\<close>

fun conn_Read_checked :: "env \<Rightarrow> nat \<Rightarrow> int \<Rightarrow> (int \<Rightarrow> int \<times> bool) \<Rightarrow> bool \<Rightarrow> bool \<times> tracker \<Rightarrow> io_result \<times> tracker" where
  "conn_Read_checked x c len rd wait_fails (d, t) =
     (if d then (QuotaExceeded, t)
      else let t1 = look_limiter x c t
           in conn_read_some x c wait_fails
                (rd (if limited c t1 \<and> rateLimitIOChunk < len then rateLimitIOChunk else len)) t1)"

definition conn_Read :: "env \<Rightarrow> nat \<Rightarrow> int \<Rightarrow> (int \<Rightarrow> int \<times> bool) \<Rightarrow> bool \<Rightarrow> tracker \<Rightarrow> io_result \<times> tracker" where
  "conn_Read x c len rd wait_fails t = conn_Read_checked x c len rd wait_fails (conn_deny x c t)"

text \<open>The chunks of a limited write. For each chunk \<open>io\<close> gives whether the wait failed and what
  the wrapped connection returned.\<close>

record chunk_io =
  chWaitFails :: bool
  chBytes :: int
  chFails :: bool

function write_chunks :: "env \<Rightarrow> nat \<Rightarrow> int \<Rightarrow> (int \<Rightarrow> chunk_io) \<Rightarrow> int \<Rightarrow> tracker \<Rightarrow> io_result \<times> tracker" where
  "write_chunks x c len io tot t =
     (if len \<le> tot then (IO tot False, close_denied x c t)
      else let chunk = min rateLimitIOChunk (len - tot); o1 = io tot; n = chBytes o1 in
        if chWaitFails o1 then (IO tot True, t)
        else let t1 = (if 0 < n then conn_traffic x c 0 n t else t) in
          if chFails o1 then (IO (tot + n) True, t1)
          else if n \<noteq> chunk then (IO (tot + n) True, t1)
          else write_chunks x c len io (tot + n) t1)"
  by pat_completeness auto

termination write_chunks
  by (relation "measure (\<lambda>(x, c, len, io, tot, t). nat (len - tot))")
    (auto simp: rateLimitIOChunk_def min_def)

declare write_chunks.simps [simp del]

fun conn_write_once :: "env \<Rightarrow> nat \<Rightarrow> chunk_io \<Rightarrow> tracker \<Rightarrow> io_result \<times> tracker" where
  "conn_write_once x c o1 t =
     (IO (chBytes o1) (chFails o1), if 0 < chBytes o1 then count_and_check x c 0 (chBytes o1) t else t)"

fun conn_Write_checked :: "env \<Rightarrow> nat \<Rightarrow> int \<Rightarrow> (int \<Rightarrow> chunk_io) \<Rightarrow> bool \<times> tracker \<Rightarrow> io_result \<times> tracker" where
  "conn_Write_checked x c len io (d, t) =
     (if d then (QuotaExceeded, t)
      else let t1 = look_limiter x c t in
        if \<not> limited c t1 then conn_write_once x c (io 0) t1
        else write_chunks x c len io 0 t1)"

definition conn_Write :: "env \<Rightarrow> nat \<Rightarrow> int \<Rightarrow> (int \<Rightarrow> chunk_io) \<Rightarrow> tracker \<Rightarrow> io_result \<times> tracker" where
  "conn_Write x c len io t = conn_Write_checked x c len io (conn_deny x c t)"

text \<open>\<^verbatim>\<open>ReadBuffer\<close>: a failed wait returns before the bytes are counted.\<close>

fun conn_ReadBuffer_checked :: "env \<Rightarrow> nat \<Rightarrow> int \<times> bool \<Rightarrow> bool \<Rightarrow> bool \<times> tracker \<Rightarrow> io_result \<times> tracker" where
  "conn_ReadBuffer_checked x c (n, err) wait_fails (d, t) =
     (if d then (QuotaExceeded, t)
      else if \<not> 0 < n then (IO n err, t)
      else let t1 = look_limiter x c t in
        if wait_fails \<and> limited c t1 \<and> \<not> err then (IO n True, t1)
        else (IO n err, count_and_check x c n 0 t1))"

definition conn_ReadBuffer :: "env \<Rightarrow> nat \<Rightarrow> int \<times> bool \<Rightarrow> bool \<Rightarrow> tracker \<Rightarrow> io_result \<times> tracker" where
  "conn_ReadBuffer x c r wait_fails t = conn_ReadBuffer_checked x c r wait_fails (conn_deny x c t)"

text \<open>\<^verbatim>\<open>WriteBuffer\<close>: chunks while more than one is left, then the rest in one call.\<close>

function buffer_chunks :: "env \<Rightarrow> nat \<Rightarrow> int \<Rightarrow> (int \<Rightarrow> chunk_io) \<Rightarrow> int \<Rightarrow> tracker \<Rightarrow> io_result \<times> tracker" where
  "buffer_chunks x c len io tot t =
     (let o1 = io tot; n = chBytes o1 in
      if chWaitFails o1 then (IO tot True, t)
      else let t1 = (if 0 < n then conn_traffic x c 0 n t else t) in
        if len - tot \<le> rateLimitIOChunk then (IO (tot + n) (chFails o1), close_denied x c t1)
        else if chFails o1 then (IO (tot + n) True, t1)
        else if n \<noteq> rateLimitIOChunk then (IO (tot + n) True, t1)
        else buffer_chunks x c len io (tot + n) t1)"
  by pat_completeness auto

termination buffer_chunks
  by (relation "measure (\<lambda>(x, c, len, io, tot, t). nat (len - tot))") (auto simp: rateLimitIOChunk_def)

declare buffer_chunks.simps [simp del]

fun conn_WriteBuffer_checked :: "env \<Rightarrow> nat \<Rightarrow> int \<Rightarrow> (int \<Rightarrow> chunk_io) \<Rightarrow> bool \<times> tracker \<Rightarrow> io_result \<times> tracker" where
  "conn_WriteBuffer_checked x c len io (d, t) =
     (if d then (QuotaExceeded, t)
      else if len = 0 then (IO 0 (chFails (io 0)), t)
      else let t1 = look_limiter x c t in
        if \<not> limited c t1 then conn_write_once x c (io 0) t1
        else buffer_chunks x c len io 0 t1)"

definition conn_WriteBuffer :: "env \<Rightarrow> nat \<Rightarrow> int \<Rightarrow> (int \<Rightarrow> chunk_io) \<Rightarrow> tracker \<Rightarrow> io_result \<times> tracker" where
  "conn_WriteBuffer x c len io t = conn_WriteBuffer_checked x c len io (conn_deny x c t)"

text \<open>The callbacks of \<^verbatim>\<open>trackedCounterConn\<close>.\<close>

definition countUpload :: "env \<Rightarrow> nat \<Rightarrow> int \<Rightarrow> tracker \<Rightarrow> tracker" where
  "countUpload x c n t = (if n \<le> 0 then t else count_and_check x c n 0 t)"

definition countDownload :: "env \<Rightarrow> nat \<Rightarrow> int \<Rightarrow> tracker \<Rightarrow> tracker" where
  "countDownload x c n t = (if n \<le> 0 then t else count_and_check x c 0 n t)"

text \<open>Packets: \<open>room\<close> tells whether the token bucket had room; a packet without room is dropped.\<close>

fun ReadPacket_checked :: "env \<Rightarrow> nat \<Rightarrow> int \<times> bool \<Rightarrow> bool \<Rightarrow> bool \<times> tracker \<Rightarrow> io_result \<times> tracker" where
  "ReadPacket_checked x c (n, err) room (d, t) =
     (if d then (QuotaExceeded, t)
      else if err \<or> \<not> 0 < n then (IO n err, t)
      else let t1 = look_limiter x c t in
        if limited c t1 \<and> \<not> room then (IO 0 False, t1)
        else (IO n False, count_and_check x c n 0 t1))"

definition ReadPacket :: "env \<Rightarrow> nat \<Rightarrow> int \<times> bool \<Rightarrow> bool \<Rightarrow> tracker \<Rightarrow> io_result \<times> tracker" where
  "ReadPacket x c r room t = ReadPacket_checked x c r room (conn_deny x c t)"

fun WritePacket_checked :: "env \<Rightarrow> nat \<Rightarrow> int \<Rightarrow> bool \<Rightarrow> bool \<Rightarrow> bool \<times> tracker \<Rightarrow> io_result \<times> tracker" where
  "WritePacket_checked x c len room err (d, t) =
     (if d then (QuotaExceeded, t)
      else let t1 = (if 0 < len then look_limiter x c t else t) in
        if 0 < len \<and> limited c t1 \<and> \<not> room then (IO 0 False, t1)
        else if err then (IO 0 True, t1)
        else (IO len False, if 0 < len then count_and_check x c 0 len t1 else t1))"

definition WritePacket :: "env \<Rightarrow> nat \<Rightarrow> int \<Rightarrow> bool \<Rightarrow> bool \<Rightarrow> tracker \<Rightarrow> io_result \<times> tracker" where
  "WritePacket x c len room err t = WritePacket_checked x c len room err (conn_deny x c t)"

subsection \<open>Snell parents\<close>

definition parent_close :: "nat \<Rightarrow> tracker \<Rightarrow> tracker" where
  "parent_close p t = t\<lparr>tkParents := (tkParents t)[p := (parent_at p t)\<lparr>paClosed := True\<rparr>],
     tkSnell := removeAll p (tkSnell t)\<rparr>"

definition settled_counters :: "rt_state \<Rightarrow> bool" where
  "settled_counters s \<longleftrightarrow> ctUp (rsCounters s) = ctAckUp (rsCounters s) \<and> ctDown (rsCounters s) = ctAckDown (rsCounters s)"

fun prune_key :: "nat option \<Rightarrow> string \<Rightarrow> tracker \<Rightarrow> tracker" where
  "prune_key None key t = t\<lparr>tkRetired := removeAll key (tkRetired t)\<rparr>"
| "prune_key (Some a) key t =
     (if idx_get (tkActive t) key \<noteq> [] \<or> idx_get (tkActivePacket t) key \<noteq> []
         \<or> list_ex (\<lambda>p. paState (parent_at p t) = Some a) (tkSnell t)
         \<or> \<not> settled_counters (state_at a t) then t
      else t\<lparr>tkStates := gm_del key (tkStates t), tkRetired := removeAll key (tkRetired t)\<rparr>)"

definition pruneSnellCounters :: "tracker \<Rightarrow> tracker" where
  "pruneSnellCounters t = fold (\<lambda>key t. prune_key (gm_get (tkStates t) key) key t) (tkRetired t) t"

text \<open>Whether a registered parent has to go; the quota verdict may roll its period over.\<close>

fun parent_verdict :: "env \<Rightarrow> nat option \<Rightarrow> conn_identity \<Rightarrow> tracker \<Rightarrow> bool \<times> tracker" where
  "parent_verdict x None i t = (False, t)"
| "parent_verdict x (Some a) i t = (if revoked_at x i a t then (True, t) else quota_denied x True a t)"

definition parent_gone :: "env \<Rightarrow> bool \<Rightarrow> nat \<Rightarrow> tracker \<Rightarrow> bool \<times> tracker" where
  "parent_gone x force p t =
     (let q = parent_at p t in
      if force \<or> map_option snd (gm_get (tkSnellUsers t) (paScope q)) \<noteq> Some (paCred q) then (True, t)
      else parent_verdict x (paState q) (paIdent q) t)"

fun closing_parents :: "env \<Rightarrow> bool \<Rightarrow> nat list \<Rightarrow> tracker \<Rightarrow> nat list \<times> tracker" where
  "closing_parents x force [] t = ([], t)"
| "closing_parents x force (p # ps) t =
     (let r = parent_gone x force p t; rest = closing_parents x force ps (snd r)
      in (if fst r then p # fst rest else fst rest, snd rest))"

definition reapSnellParents :: "env \<Rightarrow> bool \<Rightarrow> tracker \<Rightarrow> nat \<times> tracker" where
  "reapSnellParents x force t =
     (let r = closing_parents x force (tkSnell t) t
      in (length (fst r), pruneSnellCounters (fold parent_close (fst r) (snd r))))"

definition CloseSnellInbound :: "string \<Rightarrow> tracker \<Rightarrow> tracker" where
  "CloseSnellInbound tag t = fold parent_close (filter (\<lambda>p. has_prefix (tag @ nul) (paScope (parent_at p t))) (tkSnell t)) t"

definition WrapParent :: "tracker \<Rightarrow> nat \<times> tracker" where
  "WrapParent t = (length (tkParents t), t\<lparr>tkParents := tkParents t @ [blank_parent]\<rparr>)"

text \<open>\<^verbatim>\<open>Admit\<close>, once the users barrier is held: \<open>p\<close> is the parent of the connection, if it has one.
  The result is \<open>None\<close> when the stream is refused.\<close>

definition bound_ok :: "env \<Rightarrow> nat \<Rightarrow> string \<Rightarrow> parent \<Rightarrow> tracker \<Rightarrow> bool" where
  "bound_ok x a cred q t \<longleftrightarrow> paState q = None \<or>
     paState q = Some a \<and> \<not> revoked_at x (paIdent q) a t \<and> paCred q = cred"

fun admit_second :: "env \<Rightarrow> nat \<Rightarrow> string \<Rightarrow> string \<Rightarrow> nat \<Rightarrow> bool \<times> tracker \<Rightarrow> nat option \<times> tracker" where
  "admit_second x a scope cred p (d, t) =
     (let q = parent_at p t in
      if d \<or> \<not> bound_ok x a cred q t then (None, t)
      else (Some p, t\<lparr>tkParents := (tkParents t)[p := q\<lparr>paState := Some a, paIdent := state_identity (state_at a t),
               paScope := scope, paCred := cred\<rparr>], tkSnell := List.insert p (tkSnell t)\<rparr>))"

fun admit_installed :: "env \<Rightarrow> nat \<Rightarrow> string \<Rightarrow> (string \<times> string) option \<Rightarrow> nat \<Rightarrow> tracker \<Rightarrow> nat option \<times> tracker" where
  "admit_installed x a scope None p t = (None, t)"
| "admit_installed x a scope (Some (key, cred)) p t =
     (if key \<noteq> qAuthKey (rsPolicy (state_at a t)) \<or> paClosed (parent_at p t) then (None, t)
      else admit_second x a scope cred p (denied x a t))"

fun admit_first :: "env \<Rightarrow> nat \<Rightarrow> string \<Rightarrow> nat option \<Rightarrow> bool \<times> tracker \<Rightarrow> nat option \<times> tracker" where
  "admit_first x a scope None (d, t) = (None, t)"
| "admit_first x a scope (Some p) (d, t) =
     (if d then (None, t) else admit_installed x a scope (gm_get (tkSnellUsers t) scope) p t)"

fun admit_state :: "env \<Rightarrow> nat option \<Rightarrow> string \<Rightarrow> nat option \<Rightarrow> tracker \<Rightarrow> nat option \<times> tracker" where
  "admit_state x None scope p t = (None, t)"
| "admit_state x (Some a) scope p t =
     (if qAuthKey (rsPolicy (state_at a t)) = [] then (None, t) else admit_first x a scope p (denied x a t))"

definition Admit :: "env \<Rightarrow> string \<Rightarrow> string \<Rightarrow> nat option \<Rightarrow> tracker \<Rightarrow> nat option \<times> tracker" where
  "Admit x inbound user p t =
     (if tkUsersFailed t then (None, t)
      else admit_state x (runtimeFor \<lparr>mdUser = user, mdInbound = inbound, mdSource = NoAddr, mdNetwork = [], mdGeo = []\<rparr> t)
             (inbound @ nul @ user) p t)"

subsection \<open>Closing by user, credential and verdict\<close>

definition closeActive :: "env \<Rightarrow> string \<Rightarrow> tracker \<Rightarrow> tracker" where
  "closeActive x key t = snd (reapSnellParents x False
     (close_all x (idx_get (tkActive t) key @ idx_get (tkActivePacket t) key) t))"

definition closeByCredential :: "env \<Rightarrow> string \<Rightarrow> tracker \<Rightarrow> nat \<times> tracker" where
  "closeByCredential x cred t =
     (if cred = [] then (0, t)
      else let cs = idx_get (tkByCred t) cred @ idx_get (tkByCredPacket t) cred in (length cs, close_all x cs t))"

definition all_active :: "tracker \<Rightarrow> nat list" where
  "all_active t = concat (map snd (tkActive t)) @ concat (map snd (tkActivePacket t))"

definition revokedConnections :: "env \<Rightarrow> tracker \<Rightarrow> nat list" where
  "revokedConnections x t = filter (\<lambda>c. conn_revoked x c t) (all_active t)"

text \<open>States whose credential status closes sessions; \<^verbatim>\<open>currentPolicy\<close> rolls each period over.\<close>

definition status_revoked :: "rt_state \<Rightarrow> bool" where
  "status_revoked s \<longleftrightarrow> normalizeCredentialStatus (qStatus (rsPolicy s)) \<noteq> ''active'' \<and>
     normalizeCredentialStatus (qStatus (rsPolicy s)) \<noteq> ''reject_new''"

fun revoked_keys :: "env \<Rightarrow> (string, nat) gomap \<Rightarrow> tracker \<Rightarrow> string list \<times> tracker" where
  "revoked_keys x [] t = ([], t)"
| "revoked_keys x ((key, a) # m) t =
     (let t1 = refresh x a t; rest = revoked_keys x m t1
      in (if status_revoked (state_at a t1) then key # fst rest else fst rest, snd rest))"

definition ReapAuthorization :: "env \<Rightarrow> tracker \<Rightarrow> nat \<times> tracker" where
  "ReapAuthorization x t =
     (let cs = revokedConnections x t; t1 = close_all x cs t; r = revoked_keys x (tkStates t1) t1
      in (length cs, snd (reapSnellParents x False (fold (closeActive x) (fst r) (snd r)))))"

subsection \<open>Authorization\<close>

record auth_write =
  awDeny :: write_outcome
  awLease :: write_outcome
  awWatermark :: write_outcome

fun deny_result :: "update_error option \<times> bool \<times> store \<Rightarrow> tracker \<Rightarrow> update_error option \<times> tracker" where
  "deny_result (e, changed, s) t = (e, t\<lparr>tkAuth := s, tkWake := (tkWake t \<or> changed)\<rparr>)"

fun update_result_of :: "(update_error + update_result) \<times> bool \<times> store \<Rightarrow> tracker \<Rightarrow> update_error option \<times> tracker" where
  "update_result_of (Inl e, changed, s) t = (Some e, t\<lparr>tkAuth := s, tkWake := (tkWake t \<or> changed)\<rparr>)"
| "update_result_of (Inr r, changed, s) t = (None, t\<lparr>tkAuth := s, tkWake := (tkWake t \<or> changed)\<rparr>)"

definition auth_deny :: "env \<Rightarrow> auth_write \<Rightarrow> string list \<Rightarrow> int \<Rightarrow> tracker \<Rightarrow> update_error option \<times> tracker" where
  "auth_deny x w keys rv t = deny_result (deny (eNow x) (awDeny w) keys rv (tkAuth t)) t"

definition auth_update :: "env \<Rightarrow> auth_write \<Rightarrow> lease option \<Rightarrow> tracker \<Rightarrow> update_error option \<times> tracker" where
  "auth_update x w l t = update_result_of (update_locked (eNow x) (awLease w) (awWatermark w) l (tkAuth t)) t"

fun lease_revision :: "lease option \<Rightarrow> int" where
  "lease_revision None = 0"
| "lease_revision (Some l) = lRevision l"

fun reap_after :: "env \<Rightarrow> update_error option \<times> tracker \<Rightarrow> update_error option \<times> tracker" where
  "reap_after x (Some e, t) = (Some e, t)"
| "reap_after x (None, t) = (None, snd (ReapAuthorization x t))"

fun update_after :: "env \<Rightarrow> auth_write \<Rightarrow> lease option \<Rightarrow> update_error option \<times> tracker \<Rightarrow> update_error option \<times> tracker" where
  "update_after x w l (Some e, t) = (Some e, t)"
| "update_after x w l (None, t) = (if l \<noteq> None then auth_update x w l t else (None, t))"

definition ApplyAuthorization :: "env \<Rightarrow> auth_write \<Rightarrow> lease option \<Rightarrow> string list \<Rightarrow> tracker \<Rightarrow> update_error option \<times> tracker" where
  "ApplyAuthorization x w l keys t =
     reap_after x (update_after x w l
       (if keys \<noteq> [] then auth_deny x w keys (lease_revision l) t else (None, t)))"

fun close_creds :: "env \<Rightarrow> string list \<Rightarrow> tracker \<Rightarrow> nat \<times> tracker" where
  "close_creds x [] t = (0, t)"
| "close_creds x (k # ks) t =
     (let r = closeByCredential x k t; rest = close_creds x ks (snd r) in (fst r + fst rest, snd rest))"

fun close_after :: "env \<Rightarrow> string list \<Rightarrow> update_error option \<times> tracker \<Rightarrow> (update_error + nat) \<times> tracker" where
  "close_after x keys (Some e, t) = (Inl e, t)"
| "close_after x keys (None, t) = (let r = close_creds x keys t in (Inr (fst r), snd r))"

definition DenyAuthorization :: "env \<Rightarrow> auth_write \<Rightarrow> string list \<Rightarrow> int \<Rightarrow> tracker \<Rightarrow> (update_error + nat) \<times> tracker" where
  "DenyAuthorization x w keys rv t = close_after x keys (auth_deny x w keys rv t)"

text \<open>\<^verbatim>\<open>InitializeAuthorization\<close>: \<open>fresh\<close> is the new store over the files at its path.\<close>

fun install_store :: "(update_error + update_result) \<times> bool \<times> store \<Rightarrow> tracker \<Rightarrow> update_error option \<times> tracker" where
  "install_store (Inl e, changed, s) t = (Some e, t)"
| "install_store (Inr r, changed, s) t = (None, t\<lparr>tkAuth := s\<rparr>)"

definition InitializeAuthorization :: "env \<Rightarrow> auth_write \<Rightarrow> store \<Rightarrow> lease option \<Rightarrow> tracker \<Rightarrow> update_error option option \<times> tracker" where
  "InitializeAuthorization x w fresh l t =
     (if l = None \<and> list_ex (\<lambda>(_, a). qAuthKey (rsPolicy (state_at a t)) \<noteq> []) (tkStates t) then (None, t)
      else map_prod Some id (install_store (update_locked (eNow x) (awLease w) (awWatermark w) l fresh) t))"

definition authorizationReaperMaxWait :: duration where
  "authorizationReaperMaxWait = secs 5"

fun wait_for :: "lease option \<Rightarrow> store_error option \<Rightarrow> instant \<Rightarrow> duration" where
  "wait_for (Some l) None now =
     (let nxt = next_expiry (Some l) now; until = nxt - now + millis 10 in
      if nxt = zero_time then authorizationReaperMaxWait
      else if until < authorizationReaperMaxWait then max until (millis 10)
      else authorizationReaperMaxWait)"
| "wait_for _ _ now = authorizationReaperMaxWait"

definition nextAuthorizationWait :: "env \<Rightarrow> tracker \<Rightarrow> duration" where
  "nextAuthorizationWait x t = wait_for (fst (snapshot (tkAuth t))) (snd (snapshot (tkAuth t))) (eNow x)"

text \<open>One round of \<^verbatim>\<open>RunAuthorizationReaper\<close>, woken by the store or by the timer.\<close>

definition reaper_round :: "env \<Rightarrow> tracker \<Rightarrow> duration \<times> tracker" where
  "reaper_round x t = (let t1 = snd (ReapAuthorization x (t\<lparr>tkWake := False\<rparr>)) in (nextAuthorizationWait x t1, t1))"

subsection \<open>Users and policies\<close>

record install_entry =
  ueTag :: string
  ueAuthUser :: string
  uePSK :: string
  ueAuthKey :: string
  ueUser :: int
  ueInbound :: int
  uePath :: int
  ueDevice :: string
  ueEpoch :: int
  ueStatus :: string
  uePolicy :: limit

definition entry_policy :: "install_entry \<Rightarrow> limit" where
  "entry_policy e =
     (let l = uePolicy e;
          l = (if ueAuthKey e \<noteq> [] then l\<lparr>qAuthKey := ueAuthKey e\<rparr> else l);
          l = (if 0 < ueUser e then l\<lparr>qUser := ueUser e\<rparr> else l);
          l = (if 0 < ueInbound e then l\<lparr>qInbound := ueInbound e\<rparr> else l);
          l = l\<lparr>qPath := uePath e, qDevice := ueDevice e, qEpoch := ueEpoch e, qStatus := ueStatus e\<rparr>
      in if \<not> qBillable l \<and> 0 < qUser l then l\<lparr>qBillable := True\<rparr> else l)"

text \<open>The usage object a new state of a user shares with an existing one.\<close>

fun shared_usage :: "int \<Rightarrow> (string, nat) gomap \<Rightarrow> tracker \<Rightarrow> nat option" where
  "shared_usage user [] t = None"
| "shared_usage user ((_, a) # m) t =
     (if qUser (rsPolicy (state_at a t)) = user \<and> rsUsage (state_at a t) \<noteq> None
      then rsUsage (state_at a t) else shared_usage user m t)"

definition new_usage :: "tracker \<Rightarrow> nat \<times> tracker" where
  "new_usage t = (let u = gm_len (tkUsages t) in (u, t\<lparr>tkUsages := tkUsages t @ [(u, [])]\<rparr>))"

fun usage_or_new :: "nat option \<Rightarrow> tracker \<Rightarrow> nat option \<times> tracker" where
  "usage_or_new (Some u) t = (Some u, t)"
| "usage_or_new None t = (Some (fst (new_usage t)), snd (new_usage t))"

definition usage_for :: "int \<Rightarrow> tracker \<Rightarrow> nat option \<times> tracker" where
  "usage_for user t = (if user \<le> 0 then (None, t) else usage_or_new (shared_usage user (tkStates t) t) t)"

definition add_state :: "env \<Rightarrow> string \<Rightarrow> string \<Rightarrow> string \<Rightarrow> limit \<Rightarrow> tracker \<Rightarrow> tracker" where
  "add_state x key user inbound l t =
     (let r = usage_for (qUser l) t; t1 = snd r;
          s = (newRuntimeState (eEp x (tkFresh t1)) key user inbound l)\<lparr>rsUsage := fst r\<rparr>
      in t1\<lparr>tkHeap := tkHeap t1 @ [s], tkStates := gm_put key (length (tkHeap t1)) (tkStates t1),
            tkFresh := tkFresh t1 + 1\<rparr>)"

definition state_policy :: "env \<Rightarrow> nat \<Rightarrow> limit \<Rightarrow> tracker \<Rightarrow> tracker" where
  "state_policy x a l t = (set_state a (updatePolicy (eEp x (tkFresh t)) l (state_at a t)) t)\<lparr>tkFresh := tkFresh t + 1\<rparr>"

fun upsert_user :: "env \<Rightarrow> nat option \<Rightarrow> string \<Rightarrow> limit \<Rightarrow> tracker \<Rightarrow> tracker" where
  "upsert_user x (Some a) user l t = state_policy x a (mergeRuntimeIdentity (rsPolicy (state_at a t)) l) t"
| "upsert_user x None user l t = add_state x (''user:'' @ user) user [] l t"

definition install_user :: "env \<Rightarrow> install_entry \<Rightarrow> tracker \<Rightarrow> tracker" where
  "install_user x e t =
     (let user = trim_space (ueAuthUser e) in
      if user = [] then t else upsert_user x (gm_get (tkStates t) (''user:'' @ user)) user (entry_policy e) t)"

definition ReplaceScopedUsers :: "env \<Rightarrow> install_entry list \<Rightarrow> tracker \<Rightarrow> tracker" where
  "ReplaceScopedUsers x es t = fold (install_user x) es t"

text \<open>\<^verbatim>\<open>publishSnellUsers\<close>: the users of the inbounds in scope are retired, then those of the
  snapshot are published.\<close>

definition in_scope :: "string list \<Rightarrow> string \<Rightarrow> bool" where
  "in_scope scope key = list_ex (\<lambda>tag. has_prefix (tag @ nul) key) scope"

definition after_nul :: "string \<Rightarrow> string" where
  "after_nul key = drop 1 (dropWhile (\<lambda>c. c \<noteq> CHR 0x00) key)"

definition retire_user :: "string list \<Rightarrow> string \<Rightarrow> tracker \<Rightarrow> tracker" where
  "retire_user scope key t = (if in_scope scope key
     then t\<lparr>tkRetired := List.insert (''user:'' @ after_nul key) (tkRetired t), tkSnellUsers := gm_del key (tkSnellUsers t)\<rparr>
     else t)"

definition publish_user :: "install_entry \<Rightarrow> tracker \<Rightarrow> tracker" where
  "publish_user e t = (if uePSK e \<noteq> []
     then t\<lparr>tkRetired := removeAll (''user:'' @ ueAuthUser e) (tkRetired t),
            tkSnellUsers := gm_put (ueTag e @ nul @ ueAuthUser e) (ueAuthKey e, sum256 (uePSK e)) (tkSnellUsers t)\<rparr>
     else t)"

definition publishSnellUsers :: "string list \<Rightarrow> install_entry list \<Rightarrow> tracker \<Rightarrow> tracker" where
  "publishSnellUsers scope es t = fold publish_user es (fold (retire_user scope) (gm_keys (tkSnellUsers t)) t)"

text \<open>\<^verbatim>\<open>UpdatePolicies\<close>: the policies merged from what each state had before the call.\<close>

fun keyed_update :: "nat option \<Rightarrow> limit \<Rightarrow> tracker \<Rightarrow> (nat, limit) gomap \<Rightarrow> (nat, limit) gomap" where
  "keyed_update None l t m = m"
| "keyed_update (Some a) l t m = gm_put a (mergeRuntimePolicy (rsPolicy (state_at a t)) l) m"

definition user_update :: "limit \<Rightarrow> tracker \<Rightarrow> string \<times> nat \<Rightarrow> (nat, limit) gomap \<Rightarrow> (nat, limit) gomap" where
  "user_update l t g m = (if qUser (rsPolicy (state_at (snd g) t)) = qUser l
     then gm_put (snd g) (mergeRuntimePolicy (rsPolicy (state_at (snd g) t)) l) m else m)"

definition policy_update :: "tracker \<Rightarrow> string \<times> limit \<Rightarrow> (nat, limit) gomap \<Rightarrow> (nat, limit) gomap" where
  "policy_update t g m =
     (let l = snd g; m1 = keyed_update (gm_get (tkStates t) (fst g)) l t m
      in if qUser l \<le> 0 then m1 else fold (user_update l t) (tkStates t) m1)"

fun close_key_if :: "env \<Rightarrow> string \<Rightarrow> bool \<times> tracker \<Rightarrow> tracker" where
  "close_key_if x key (d, t) = (if d then closeActive x key t else t)"

definition apply_policy :: "env \<Rightarrow> nat \<times> limit \<Rightarrow> tracker \<Rightarrow> tracker" where
  "apply_policy x g t =
     (let t1 = state_policy x (fst g) (snd g) t
      in close_key_if x (rsKey (state_at (fst g) t1)) (deniedForConnection x True (fst g) t1))"

definition UpdatePolicies :: "env \<Rightarrow> (string, limit) gomap \<Rightarrow> tracker \<Rightarrow> tracker" where
  "UpdatePolicies x policies t = fold (apply_policy x) (fold (policy_update t) policies []) t"

subsection \<open>Acknowledgement and snapshot\<close>

fun ack_state :: "nat option \<Rightarrow> checkpoint \<Rightarrow> tracker \<Rightarrow> tracker" where
  "ack_state None k t = t"
| "ack_state (Some a) k t =
     (let w = acknowledge k (tkUsages t, state_at a t) in (set_state a (snd w) t)\<lparr>tkUsages := fst w\<rparr>)"

definition ack_key :: "string \<times> checkpoint \<Rightarrow> tracker \<Rightarrow> tracker" where
  "ack_key g t = ack_state (gm_get (tkStates t) (fst g)) (snd g) t"

definition AcknowledgeTraffic :: "(string, checkpoint) gomap \<Rightarrow> tracker \<Rightarrow> tracker" where
  "AcknowledgeTraffic ks t = pruneSnellCounters (fold ack_key ks t)"

fun option_list :: "'a option \<Rightarrow> 'a list" where
  "option_list None = []"
| "option_list (Some y) = [y]"

fun snapshot_states :: "env \<Rightarrow> nat list \<Rightarrow> tracker \<Rightarrow> traffic_counter list \<times> tracker" where
  "snapshot_states x [] t = ([], t)"
| "snapshot_states x (a # as) t =
     (let t1 = refresh x a t; rest = snapshot_states x as t1
      in (option_list (state_snapshot (state_at a t1)) @ fst rest, snd rest))"

definition tracker_Snapshot :: "env \<Rightarrow> tracker \<Rightarrow> traffic_counter list \<times> tracker" where
  "tracker_Snapshot x t = snapshot_states x (map snd (tkStates t)) t"

subsection \<open>Start\<close>

record runtime_meta =
  rmLease :: "lease option"
  rmAudit :: bool
  rmUsers :: "(string, limit) gomap"
  rmInbounds :: "(string, limit) gomap"

definition empty_tracker :: "env \<Rightarrow> string \<Rightarrow> bool \<Rightarrow> tracker" where
  "empty_tracker x boot on = \<lparr>tkHeap = [], tkFresh = 0, tkUsages = [], tkStates = [], tkConns = [], tkActive = [],
     tkActivePacket = [], tkByCred = [], tkByCredPacket = [], tkTCP = 0, tkGovernor = None,
     tkAuth = new_store [] boot Missing Missing, tkWake = False, tkActivity = SetEnabled on new_collector,
     tkAudit = (if on then new_audit\<lparr>aEnabled := True, aWindowStart := eNow x\<rparr> else new_audit),
     tkParents = [], tkSnell = [], tkSnellUsers = [], tkRetired = [], tkUsersFailed = False\<rparr>"

definition start_user :: "env \<Rightarrow> string \<times> limit \<Rightarrow> tracker \<Rightarrow> tracker" where
  "start_user x g t =
     (let user = fst g; l = snd g; l = (if \<not> qBillable l \<and> 0 < qUser l then l\<lparr>qBillable := True\<rparr> else l)
      in if user = [] then t else add_state x (''user:'' @ user) user [] l t)"

definition start_inbound :: "env \<Rightarrow> string \<times> limit \<Rightarrow> tracker \<Rightarrow> tracker" where
  "start_inbound x g t = (if fst g = [] then t else add_state x (''inbound:'' @ fst g) [] (fst g) (snd g) t)"

definition newRateLimitTracker :: "env \<Rightarrow> auth_write \<Rightarrow> string \<Rightarrow> runtime_meta \<Rightarrow> tracker" where
  "newRateLimitTracker x w boot rm =
     fold (start_inbound x) (rmInbounds rm) (fold (start_user x) (rmUsers rm)
       (snd (auth_update x w (rmLease rm) (empty_tracker x boot (rmAudit rm)))))"

definition SetSocketGovernor :: "governor option \<Rightarrow> tracker \<Rightarrow> tracker" where
  "SetSocketGovernor g t = t\<lparr>tkGovernor := g\<rparr>"

definition tracker_audit :: "env \<Rightarrow> bool \<Rightarrow> tracker \<Rightarrow> tracker" where
  "tracker_audit x on t = t\<lparr>tkActivity := SetEnabled on (tkActivity t),
     tkAudit := SetConnectionAuditEnabled (eNow x) on (tkAudit t)\<rparr>"

end
