(* ===== verification/TrackerSafety.thy ===== *)
theory TrackerSafety
  imports Tracker
begin

text \<open>
  The tracker keeps its books: an invariant on objects, indexes and counters that every
  operation of \<^verbatim>\<open>RateLimitTracker\<close> preserves, the interfaces it relies on (an index of
  connections, an authorizer), and what follows for revocation and accounting.
\<close>

subsection \<open>Interfaces\<close>

text \<open>An index of connections: what the tracker relies on when it looks up the sessions of a user
  or of a credential.\<close>

locale conn_index =
  fixes get :: "'m \<Rightarrow> string \<Rightarrow> nat list"
    and add :: "string \<Rightarrow> nat \<Rightarrow> 'm \<Rightarrow> 'm"
    and del :: "string \<Rightarrow> nat \<Rightarrow> 'm \<Rightarrow> 'm"
  assumes get_add: "set (get (add k c m) j) = (if j = k then insert c (set (get m j)) else set (get m j))"
    and get_del: "set (get (del k c m) j) = (if j = k then set (get m j) - {c} else set (get m j))"
begin

definition indexed :: "'m \<Rightarrow> (nat \<Rightarrow> string option) \<Rightarrow> bool" where
  "indexed m f \<longleftrightarrow> (\<forall>k c. c \<in> set (get m k) \<longleftrightarrow> f c = Some k)"

lemma indexed_add: "indexed m f \<Longrightarrow> f c = None \<Longrightarrow> indexed (add k c m) (f(c := Some k))"
  by (auto simp: indexed_def get_add)

lemma indexed_del: "indexed m f \<Longrightarrow> f c = Some k \<or> f c = None \<Longrightarrow> indexed (del k c m) (f(c := None))"
  by (auto simp: indexed_def get_del)

lemma indexed_get: "indexed m f \<Longrightarrow> c \<in> set (get m k) \<longleftrightarrow> f c = Some k"
  by (simp add: indexed_def)

end

lemma idx_get_add: "set (idx_get (idx_add k c m) j) = (if j = k then insert c (set (idx_get m j)) else set (idx_get m j))"
  by (simp add: idx_get_def idx_add_def)

lemma idx_get_del: "set (idx_get (idx_del k c m) j) = (if j = k then set (idx_get m j) - {c} else set (idx_get m j))"
  by (auto simp: idx_get_def idx_del_def Let_def removeAll_filter_not_eq filter_empty_conv)

interpretation ci: conn_index idx_get idx_add idx_del
  by unfold_locales (rule idx_get_add, rule idx_get_del)

text \<open>What the tracker relies on from the authorization store: denying a key, or losing the
  store's state, refuses it at every time.\<close>

locale authorizer =
  fixes allows :: "'s \<Rightarrow> string \<Rightarrow> instant \<Rightarrow> bool"
    and cut :: "'s \<Rightarrow> string \<Rightarrow> bool"
  assumes cut_refuses: "cut s k \<Longrightarrow> \<not> allows s k now"
    and empty_refused: "\<not> allows s [] now"
begin

lemma allowed_not_cut: "allows s k now \<Longrightarrow> \<not> cut s k \<and> k \<noteq> []"
  using cut_refuses empty_refused by blast

end

interpretation sa: authorizer store_allows store_denied
  by unfold_locales (auto simp: store_allows_def store_denied_def Let_def)

subsection \<open>Invariant\<close>

definition live :: "conn \<Rightarrow> bool" where
  "live n \<longleftrightarrow> \<not> cnClosed n"

text \<open>The keys an index should hold a connection under.\<close>

definition user_key :: "bool \<Rightarrow> tracker \<Rightarrow> nat \<Rightarrow> string option" where
  "user_key packet t c = (if live (conn_at c t) \<and> cnPacket (conn_at c t) = packet then Some (conn_key c t) else None)"

definition opt_key :: "string \<Rightarrow> string option" where
  "opt_key k = (if k = [] then None else Some k)"

definition cred_key :: "bool \<Rightarrow> tracker \<Rightarrow> nat \<Rightarrow> string option" where
  "cred_key packet t c = (if live (conn_at c t) \<and> cnPacket (conn_at c t) = packet
     then opt_key (idKey (cnIdent (conn_at c t))) else None)"

definition live_tcp :: "tracker \<Rightarrow> nat" where
  "live_tcp t = length (filter (\<lambda>n. live n \<and> \<not> cnPacket n) (tkConns t))"

definition heap_ok :: "tracker \<Rightarrow> bool" where
  "heap_ok t \<longleftrightarrow> (\<forall>k a. gm_get (tkStates t) k = Some a \<longrightarrow> a < length (tkHeap t)) \<and>
     (\<forall>n \<in> set (tkConns t). cnState n < length (tkHeap t)) \<and> (\<forall>s \<in> set (tkHeap t). rsKey s \<noteq> []) \<and>
     (\<forall>p \<in> set (tkSnell t). p < length (tkParents t) \<and> \<not> paClosed (tkParents t ! p))"

definition tracker_ok :: "tracker \<Rightarrow> bool" where
  "tracker_ok t \<longleftrightarrow> heap_ok t \<and> audit_ok (tkAudit t) \<and> pred_option gov_ok (tkGovernor t) \<and>
     ci.indexed (tkActive t) (user_key False t) \<and> ci.indexed (tkActivePacket t) (user_key True t) \<and>
     ci.indexed (tkByCred t) (cred_key False t) \<and> ci.indexed (tkByCredPacket t) (cred_key True t) \<and>
     tkTCP t = int (live_tcp t)"

lemma fold_ok: "(\<And>y u. tracker_ok u \<Longrightarrow> tracker_ok (f y u)) \<Longrightarrow> tracker_ok t \<Longrightarrow> tracker_ok (fold f ys t)"
  by (induction ys arbitrary: t) simp_all

text \<open>Steps that leave connections, indexes and parents alone.\<close>

definition same_frame :: "tracker \<Rightarrow> tracker \<Rightarrow> bool" where
  "same_frame t t' \<longleftrightarrow> map rsKey (tkHeap t') = map rsKey (tkHeap t) \<and> tkStates t' = tkStates t \<and> tkConns t' = tkConns t \<and>
     tkActive t' = tkActive t \<and> tkActivePacket t' = tkActivePacket t \<and> tkByCred t' = tkByCred t \<and>
     tkByCredPacket t' = tkByCredPacket t \<and> tkTCP t' = tkTCP t \<and> tkParents t' = tkParents t \<and> tkSnell t' = tkSnell t \<and>
     tkGovernor t' = tkGovernor t \<and> (audit_ok (tkAudit t) \<longrightarrow> audit_ok (tkAudit t'))"

lemma same_frame_refl [simp]: "same_frame t t"
  by (simp add: same_frame_def)

lemma same_frame_trans: "same_frame t u \<Longrightarrow> same_frame u v \<Longrightarrow> same_frame t v"
  by (simp add: same_frame_def)

lemma keys_same:
  assumes "map rsKey (tkHeap t') = map rsKey (tkHeap t)"
  shows "rsKey (state_at a t') = rsKey (state_at a t)" "length (tkHeap t') = length (tkHeap t)"
    "(\<forall>s \<in> set (tkHeap t'). rsKey s \<noteq> []) = (\<forall>s \<in> set (tkHeap t). rsKey s \<noteq> [])"
proof -
  show len: "length (tkHeap t') = length (tkHeap t)" using assms map_eq_imp_length_eq by blast
  have "map rsKey (tkHeap t') ! a = map rsKey (tkHeap t) ! a" by (simp add: assms)
  then show "rsKey (state_at a t') = rsKey (state_at a t)"
    using len by (cases "a < length (tkHeap t)") (simp_all add: state_at_def)
  have "rsKey ` set (tkHeap t') = rsKey ` set (tkHeap t)" using assms by (metis set_map)
  moreover have "(\<forall>s \<in> A. rsKey s \<noteq> []) = ([] \<notin> rsKey ` A)" for A :: "rt_state set" by (auto simp: image_iff)
  ultimately show "(\<forall>s \<in> set (tkHeap t'). rsKey s \<noteq> []) = (\<forall>s \<in> set (tkHeap t). rsKey s \<noteq> [])" by simp
qed

lemma same_frame_keys:
  assumes "same_frame t t'"
  shows "user_key p t' = user_key p t" "cred_key p t' = cred_key p t" "conn_at c t' = conn_at c t"
    "conn_key c t' = conn_key c t"
  using assms keys_same [of t' t] by (auto simp: same_frame_def user_key_def cred_key_def conn_key_def conn_at_def fun_eq_iff)

lemma same_frame_ok: "tracker_ok t \<Longrightarrow> same_frame t t' \<Longrightarrow> tracker_ok t'"
  using same_frame_keys [of t t'] keys_same [of t' t]
  by (simp add: tracker_ok_def heap_ok_def same_frame_def live_tcp_def)

lemma set_state_frame:
  "rsKey s = rsKey (state_at a t) \<Longrightarrow> same_frame t (set_state a s t)"
proof (cases "a < length (tkHeap t)")
  case True
  assume "rsKey s = rsKey (state_at a t)"
  then have "map rsKey ((tkHeap t)[a := s]) = map rsKey (tkHeap t)"
    using True by (simp add: state_at_def map_update list_update_same_conv)
  then show ?thesis by (simp add: same_frame_def set_state_def)
qed (simp add: same_frame_def set_state_def list_update_beyond)

lemma currentConfig_key [simp]: "rsKey (currentConfig z n e s) = rsKey s"
  by (simp add: currentConfig_def storePolicy_def Let_def)

lemma fresh_frame: "same_frame t u \<Longrightarrow> same_frame t (u\<lparr>tkFresh := n\<rparr>)"
  by (simp add: same_frame_def)

lemma usages_frame: "same_frame t u \<Longrightarrow> same_frame t (u\<lparr>tkUsages := us, tkFresh := n\<rparr>)"
  by (simp add: same_frame_def)

lemma refresh_frame: "same_frame t (refresh x a t)"
  by (simp add: refresh_def fresh_frame set_state_frame)

lemma addTraffic_key [simp]: "rsKey (snd (addTraffic z n e up dn w)) = rsKey (snd w)"
  by (simp add: addTraffic_def Let_def count_traffic_def)

lemma state_traffic_frame: "same_frame t (state_traffic x a up dn t)"
  by (simp add: state_traffic_def Let_def usages_frame set_state_frame)

lemma audit_frame: "(audit_ok (tkAudit t) \<Longrightarrow> audit_ok au) \<Longrightarrow> same_frame t (t\<lparr>tkAudit := au\<rparr>)"
  by (simp add: same_frame_def)

lemma activity_frame: "same_frame t u \<Longrightarrow> same_frame t (u\<lparr>tkActivity := a\<rparr>)"
  by (simp add: same_frame_def)

lemma audit_payload_frame: "same_frame t (audit_payload x c up dn t)"
  by (simp add: audit_payload_def audit_frame recordConnectionPayload_ok)

lemma record_activity_frame: "same_frame t (record_activity x c up dn t)"
  by (simp add: record_activity_def Let_def refresh_frame activity_frame)

lemma conn_traffic_frame: "same_frame t (conn_traffic x c up dn t)"
  unfolding conn_traffic_def
  by (rule same_frame_trans [OF record_activity_frame same_frame_trans [OF state_traffic_frame audit_payload_frame]])

lemma quota_denied_frame: "same_frame t (snd (quota_denied x adm a t))"
  by (simp add: quota_denied_def Let_def refresh_frame)

lemma denied_frame: "same_frame t (snd (denied x a t))"
  by (simp add: denied_def Let_def refresh_frame)

lemma conn_deny_frame: "same_frame t (snd (conn_deny x c t))"
  by (simp add: conn_deny_def quota_denied_frame)

lemma deniedForConnection_frame: "same_frame t (snd (deniedForConnection x adm a t))"
  by (simp add: deniedForConnection_def quota_denied_frame)

lemma audit_start_frame: "same_frame t (snd (audit_start x a md net adm t))"
proof -
  have "same_frame t (u\<lparr>tkAudit := au\<rparr>)" if "same_frame t u" "audit_ok (tkAudit u) \<Longrightarrow> audit_ok au" for u au
    using that by (simp add: same_frame_def)
  then show ?thesis
    by (simp add: audit_start_def Let_def refresh_frame recordConnectionStart_ok)
qed

lemmas frames = refresh_frame conn_traffic_frame quota_denied_frame denied_frame conn_deny_frame
  deniedForConnection_frame audit_start_frame

subsection \<open>Closing\<close>

lemma conn_at_update:
  "conn_at c (t\<lparr>tkConns := (tkConns t)[d := n]\<rparr>) = (if c = d \<and> d < length (tkConns t) then n else conn_at c t)"
  by (simp add: conn_at_def)

lemma live_in_range: "live (conn_at c t) \<Longrightarrow> c < length (tkConns t)"
  by (simp add: conn_at_def live_def blank_conn_def split: if_splits)

lemma length_filter_update:
  assumes "i < length xs"
  shows "length (filter P (xs[i := y])) + (if P (xs ! i) then 1 else 0) = length (filter P xs) + (if P y then 1 else 0)"
proof -
  have "xs = take i xs @ xs ! i # drop (Suc i) xs" by (rule id_take_nth_drop [OF assms])
  then have "length (filter P xs) = length (filter P (take i xs @ xs ! i # drop (Suc i) xs))" by simp
  then show ?thesis using assms by (simp add: upd_conv_take_nth_drop)
qed

text \<open>The connection list with one connection closed.\<close>

definition mark_closed :: "nat \<Rightarrow> tracker \<Rightarrow> tracker" where
  "mark_closed c t = t\<lparr>tkConns := (tkConns t)[c := (conn_at c t)\<lparr>cnClosed := True\<rparr>]\<rparr>"

lemma mark_closed_at:
  assumes "live (conn_at c t)"
  shows "conn_at d (mark_closed c t) = (if d = c then (conn_at c t)\<lparr>cnClosed := True\<rparr> else conn_at d t)"
  using assms live_in_range [OF assms] by (auto simp: mark_closed_def conn_at_update)

lemma mark_closed_keys:
  assumes "live (conn_at c t)"
  shows "user_key p (mark_closed c t) = (user_key p t)(c := None)" "cred_key p (mark_closed c t) = (cred_key p t)(c := None)"
    "conn_key d (mark_closed c t) = conn_key d t"
  using mark_closed_at [OF assms]
  by (auto simp: user_key_def cred_key_def conn_key_def live_def fun_eq_iff state_at_def mark_closed_def)

lemma mark_closed_count:
  assumes "live (conn_at c t)"
  shows "int (live_tcp (mark_closed c t)) = int (live_tcp t) - (if cnPacket (conn_at c t) then 0 else 1)"
proof -
  have c: "c < length (tkConns t)" "conn_at c t = tkConns t ! c"
    using live_in_range [OF assms] by (simp_all add: conn_at_def)
  then show ?thesis
    using length_filter_update [OF c(1), of "\<lambda>n. live n \<and> \<not> cnPacket n" "(conn_at c t)\<lparr>cnClosed := True\<rparr>"] assms
    by (auto simp: live_tcp_def mark_closed_def live_def split: if_splits)
qed

lemma key_cong:
  assumes "tkConns t' = tkConns t" "tkHeap t' = tkHeap t"
  shows "user_key p t' = user_key p t" "cred_key p t' = cred_key p t" "conn_key c t' = conn_key c t"
    "conn_at c t' = conn_at c t" "live_tcp t' = live_tcp t"
  using assms by (auto simp: user_key_def cred_key_def conn_key_def conn_at_def state_at_def live_tcp_def fun_eq_iff)

lemma heap_cong:
  assumes "tkConns t' = tkConns t" "tkHeap t' = tkHeap t" "tkStates t' = tkStates t" "tkSnell t' = tkSnell t" "tkParents t' = tkParents t"
  shows "heap_ok t' = heap_ok t"
  using assms by (simp add: heap_ok_def)

lemma indexed_skip: "ci.indexed m f \<Longrightarrow> f c = None \<Longrightarrow> ci.indexed m (f(c := None))"
  by (metis fun_upd_triv)

lemma cred_del_indexed:
  assumes "ci.indexed m f" "f c = opt_key k"
  shows "ci.indexed (cred_del k c m) (f(c := None))"
  using assms by (cases "k = []") (simp_all add: cred_del_def opt_key_def indexed_skip ci.indexed_del)

text \<open>What is left of the invariant when one connection is marked closed.\<close>

lemma mark_closed_parts:
  assumes "tracker_ok t" "live (conn_at c t)"
  shows "heap_ok (mark_closed c t)" "cnPacket (conn_at c t) \<Longrightarrow> ci.indexed (tkActive t) (user_key False (mark_closed c t))"
    "\<not> cnPacket (conn_at c t) \<Longrightarrow> ci.indexed (tkActivePacket t) (user_key True (mark_closed c t))"
    "cnPacket (conn_at c t) \<Longrightarrow> ci.indexed (tkByCred t) (cred_key False (mark_closed c t))"
    "\<not> cnPacket (conn_at c t) \<Longrightarrow> ci.indexed (tkByCredPacket t) (cred_key True (mark_closed c t))"
    "\<not> cnPacket (conn_at c t) \<Longrightarrow> ci.indexed (idx_del (conn_key c t) c (tkActive t)) (user_key False (mark_closed c t))"
    "cnPacket (conn_at c t) \<Longrightarrow> ci.indexed (idx_del (conn_key c t) c (tkActivePacket t)) (user_key True (mark_closed c t))"
    "\<not> cnPacket (conn_at c t) \<Longrightarrow> ci.indexed (cred_del (idKey (cnIdent (conn_at c t))) c (tkByCred t)) (cred_key False (mark_closed c t))"
    "cnPacket (conn_at c t) \<Longrightarrow> ci.indexed (cred_del (idKey (cnIdent (conn_at c t))) c (tkByCredPacket t)) (cred_key True (mark_closed c t))"
proof -
  note keys = mark_closed_keys [OF assms(2)]
  have ok: "heap_ok t" "ci.indexed (tkActive t) (user_key False t)" "ci.indexed (tkActivePacket t) (user_key True t)"
    "ci.indexed (tkByCred t) (cred_key False t)" "ci.indexed (tkByCredPacket t) (cred_key True t)"
    using assms(1) by (simp_all add: tracker_ok_def)
  have "cnState n < length (tkHeap t)" if "n \<in> set ((tkConns t)[c := (conn_at c t)\<lparr>cnClosed := True\<rparr>])" for n
    using that ok(1) live_in_range [OF assms(2)] set_update_subset_insert [of "tkConns t" c "(conn_at c t)\<lparr>cnClosed := True\<rparr>"]
    by (auto simp: heap_ok_def conn_at_def)
  then show "heap_ok (mark_closed c t)" using ok(1) by (simp add: heap_ok_def mark_closed_def)
  have u: "user_key p t c = (if cnPacket (conn_at c t) = p then Some (conn_key c t) else None)"
    "cred_key p t c = (if cnPacket (conn_at c t) = p then opt_key (idKey (cnIdent (conn_at c t))) else None)" for p
    using assms(2) by (auto simp: user_key_def cred_key_def)
  show "cnPacket (conn_at c t) \<Longrightarrow> ci.indexed (tkActive t) (user_key False (mark_closed c t))"
    "\<not> cnPacket (conn_at c t) \<Longrightarrow> ci.indexed (tkActivePacket t) (user_key True (mark_closed c t))"
    "cnPacket (conn_at c t) \<Longrightarrow> ci.indexed (tkByCred t) (cred_key False (mark_closed c t))"
    "\<not> cnPacket (conn_at c t) \<Longrightarrow> ci.indexed (tkByCredPacket t) (cred_key True (mark_closed c t))"
    unfolding keys using ok u by (auto intro!: indexed_skip)
  show "\<not> cnPacket (conn_at c t) \<Longrightarrow> ci.indexed (idx_del (conn_key c t) c (tkActive t)) (user_key False (mark_closed c t))"
    "cnPacket (conn_at c t) \<Longrightarrow> ci.indexed (idx_del (conn_key c t) c (tkActivePacket t)) (user_key True (mark_closed c t))"
    unfolding keys using ok u by (auto intro!: ci.indexed_del)
  show "\<not> cnPacket (conn_at c t) \<Longrightarrow> ci.indexed (cred_del (idKey (cnIdent (conn_at c t))) c (tkByCred t)) (cred_key False (mark_closed c t))"
    "cnPacket (conn_at c t) \<Longrightarrow> ci.indexed (cred_del (idKey (cnIdent (conn_at c t))) c (tkByCredPacket t)) (cred_key True (mark_closed c t))"
    unfolding keys using ok u by (simp_all add: cred_del_indexed)
qed

lemma observe_gov: "pred_option gov_ok g \<Longrightarrow> pred_option gov_ok (map_option (ObserveConnections w at n) g)"
  by (cases g) (simp_all add: ObserveConnections_ok)

lemma close_conn_eq:
  assumes "live (conn_at c t)"
  shows "close_conn x c t = (let n = conn_at c t; key = conn_key c t; cred = idKey (cnIdent n);
      u = (mark_closed c t)\<lparr>tkAudit := recordConnectionEnd (eNow x) (cnAudit n) (tkAudit t)\<rparr> in
    if cnPacket n then u\<lparr>tkActivePacket := idx_del key c (tkActivePacket t), tkByCredPacket := cred_del cred c (tkByCredPacket t)\<rparr>
    else observe_tcp x (u\<lparr>tkActive := idx_del key c (tkActive t), tkByCred := cred_del cred c (tkByCred t),
        tkTCP := (if tkTCP t - 1 < 0 then 0 else tkTCP t - 1)\<rparr>))"
proof -
  define u where "u = (mark_closed c t)\<lparr>tkAudit := recordConnectionEnd (eNow x) (cnAudit (conn_at c t)) (tkAudit t)\<rparr>"
  have "conn_key c u = conn_key c t" "cnIdent (conn_at c u) = cnIdent (conn_at c t)"
    using mark_closed_keys(3) [OF assms, of c] mark_closed_at [OF assms, of c] key_cong(3,4) [of u "mark_closed c t" c]
    by (simp_all add: u_def)
  moreover have "tkActive u = tkActive t" "tkActivePacket u = tkActivePacket t" "tkByCred u = tkByCred t"
    "tkByCredPacket u = tkByCredPacket t" "tkTCP u = tkTCP t" by (simp_all add: u_def mark_closed_def)
  moreover have "close_conn x c t = (if cnPacket (conn_at c t) then unregisterPacketConn c u else unregisterConn x c u)"
    using assms by (simp add: close_conn_def u_def mark_closed_def live_def Let_def)
  ultimately show ?thesis
    by (simp add: unregisterConn_def unregisterPacketConn_def Let_def u_def)
qed

lemma close_conn_ok:
  assumes "tracker_ok t"
  shows "tracker_ok (close_conn x c t)"
proof (cases "live (conn_at c t)")
  case False
  then show ?thesis using assms by (simp add: close_conn_def live_def)
next
  case True
  let ?t' = "close_conn x c t"
  have same: "tkConns ?t' = tkConns (mark_closed c t)" "tkHeap ?t' = tkHeap (mark_closed c t)" "tkStates ?t' = tkStates (mark_closed c t)"
    "tkSnell ?t' = tkSnell (mark_closed c t)" "tkParents ?t' = tkParents (mark_closed c t)"
    "tkAudit ?t' = recordConnectionEnd (eNow x) (cnAudit (conn_at c t)) (tkAudit t)"
    by (simp_all add: close_conn_eq [OF True] Let_def observe_tcp_def mark_closed_def)
  have count: "tkTCP t = int (live_tcp t)" "audit_ok (tkAudit t)" "pred_option gov_ok (tkGovernor t)"
    "ci.indexed (tkActive t) (user_key False t)" using assms by (simp_all add: tracker_ok_def)
  have tcp: "\<not> cnPacket (conn_at c t) \<Longrightarrow> 0 < int (live_tcp t)"
    using mark_closed_count [OF True] by simp
  have idx: "ci.indexed (tkActive ?t') (user_key False (mark_closed c t))" "ci.indexed (tkActivePacket ?t') (user_key True (mark_closed c t))"
    "ci.indexed (tkByCred ?t') (cred_key False (mark_closed c t))" "ci.indexed (tkByCredPacket ?t') (cred_key True (mark_closed c t))"
    "tkTCP ?t' = int (live_tcp (mark_closed c t))" "pred_option gov_ok (tkGovernor ?t')"
    using mark_closed_parts [OF assms True] mark_closed_count [OF True] count tcp observe_gov [OF count(3)]
    by (auto simp: close_conn_eq [OF True] Let_def observe_tcp_def mark_closed_def split: if_splits)
  show ?thesis
    using idx mark_closed_parts(1) [OF assms True] recordConnectionEnd_ok [OF count(2)]
    by (simp add: tracker_ok_def key_cong [OF same(1,2)] heap_cong [OF same(1-5)] same(6))
qed

lemma close_denied_ok: "tracker_ok t \<Longrightarrow> tracker_ok (close_denied x c t)"
proof -
  assume "tracker_ok t"
  then have "tracker_ok (snd (conn_deny x c t))" using conn_deny_frame same_frame_ok by blast
  then show ?thesis by (cases "conn_deny x c t") (simp add: close_denied_def close_conn_ok)
qed

lemma close_all_ok: "tracker_ok t \<Longrightarrow> tracker_ok (close_all x cs t)"
  unfolding close_all_def by (rule fold_ok) (rule close_conn_ok)

subsection \<open>Opening\<close>

definition with_conn :: "conn \<Rightarrow> tracker \<Rightarrow> tracker" where
  "with_conn n t = t\<lparr>tkConns := tkConns t @ [n]\<rparr>"

lemma with_conn_at:
  "conn_at d (with_conn n t) = (if d = length (tkConns t) then n else conn_at d t)"
  by (auto simp: conn_at_def with_conn_def nth_append)

lemma fresh_closed: "conn_at (length (tkConns t)) t = blank_conn"
  by (simp add: conn_at_def)

lemma with_conn_keys:
  assumes "live n" "c = length (tkConns t)"
  shows "user_key p (with_conn n t) = (user_key p t)(c := (if cnPacket n = p then Some (rsKey (state_at (cnState n) t)) else None))"
    "cred_key p (with_conn n t) = (cred_key p t)(c := (if cnPacket n = p then opt_key (idKey (cnIdent n)) else None))"
    "conn_key c (with_conn n t) = rsKey (state_at (cnState n) t)"
  using assms with_conn_at [of _ n t]
  by (auto simp: user_key_def cred_key_def conn_key_def fun_eq_iff) (simp_all add: with_conn_def state_at_def)

lemma fresh_none: "user_key p t (length (tkConns t)) = None" "cred_key p t (length (tkConns t)) = None"
  by (simp_all add: user_key_def cred_key_def fresh_closed live_def blank_conn_def)

lemma with_conn_count: "live n \<Longrightarrow> live_tcp (with_conn n t) = live_tcp t + (if cnPacket n then 0 else 1)"
  by (simp add: live_tcp_def with_conn_def)

lemma with_conn_heap: "heap_ok t \<Longrightarrow> cnState n < length (tkHeap t) \<Longrightarrow> heap_ok (with_conn n t)"
  by (auto simp: heap_ok_def with_conn_def)

lemma cred_add_indexed:
  assumes "ci.indexed m f" "f c = None"
  shows "ci.indexed (cred_add k c m) (f(c := opt_key k))"
  using assms by (cases "k = []") (simp_all add: cred_add_def opt_key_def indexed_skip ci.indexed_add)

lemma rsKey_ne: "heap_ok t \<Longrightarrow> a < length (tkHeap t) \<Longrightarrow> rsKey (state_at a t) \<noteq> []"
  by (simp add: heap_ok_def state_at_def)

lemma registerConn_ok:
  assumes ok: "tracker_ok t" and n: "live n" "\<not> cnPacket n" "cnState n < length (tkHeap t)"
  shows "tracker_ok (registerConn x (length (tkConns t)) (with_conn n t))"
proof -
  let ?c = "length (tkConns t)" and ?u = "with_conn n t"
  note keys = with_conn_keys [OF n(1) refl, where t = t]
  have h: "heap_ok t" "ci.indexed (tkActive t) (user_key False t)" "ci.indexed (tkActivePacket t) (user_key True t)"
    "ci.indexed (tkByCred t) (cred_key False t)" "ci.indexed (tkByCredPacket t) (cred_key True t)"
    "tkTCP t = int (live_tcp t)" "audit_ok (tkAudit t)" "pred_option gov_ok (tkGovernor t)"
    using ok by (simp_all add: tracker_ok_def)
  define v where "v = observe_tcp x (?u\<lparr>tkActive := idx_add (conn_key ?c ?u) ?c (tkActive ?u),
             tkByCred := cred_add (idKey (cnIdent (conn_at ?c ?u))) ?c (tkByCred ?u), tkTCP := tkTCP ?u + 1\<rparr>)"
  have same: "tkConns v = tkConns ?u" "tkHeap v = tkHeap ?u" "tkStates v = tkStates ?u" "tkSnell v = tkSnell ?u"
    "tkParents v = tkParents ?u" by (simp_all add: v_def observe_tcp_def)
  have "tracker_ok v"
    unfolding tracker_ok_def key_cong [OF same(1,2)] heap_cong [OF same]
    using h n with_conn_heap [OF h(1) n(3)] with_conn_count [OF n(1), of t] observe_gov [OF h(8)]
      ci.indexed_add [OF h(2) fresh_none(1)] cred_add_indexed [OF h(4) fresh_none(2), where k = "idKey (cnIdent n)"]
      indexed_skip [OF h(3) fresh_none(1)] indexed_skip [OF h(5) fresh_none(2)]
    by (simp add: keys with_conn_at v_def observe_tcp_def) (simp add: with_conn_def)
  moreover have "registerConn x ?c ?u = close_denied x ?c v"
    using rsKey_ne [OF h(1) n(3)] by (simp add: registerConn_def Let_def v_def keys)
  ultimately show ?thesis by (simp add: close_denied_ok)
qed

lemma registerPacketConn_ok:
  assumes ok: "tracker_ok t" and n: "live n" "cnPacket n" "cnState n < length (tkHeap t)"
  shows "tracker_ok (registerPacketConn x (length (tkConns t)) (with_conn n t))"
proof -
  let ?c = "length (tkConns t)" and ?u = "with_conn n t"
  note keys = with_conn_keys [OF n(1) refl, where t = t]
  have h: "heap_ok t" "ci.indexed (tkActive t) (user_key False t)" "ci.indexed (tkActivePacket t) (user_key True t)"
    "ci.indexed (tkByCred t) (cred_key False t)" "ci.indexed (tkByCredPacket t) (cred_key True t)"
    "tkTCP t = int (live_tcp t)" "audit_ok (tkAudit t)" "pred_option gov_ok (tkGovernor t)"
    using ok by (simp_all add: tracker_ok_def)
  define v where "v = ?u\<lparr>tkActivePacket := idx_add (conn_key ?c ?u) ?c (tkActivePacket ?u),
             tkByCredPacket := cred_add (idKey (cnIdent (conn_at ?c ?u))) ?c (tkByCredPacket ?u)\<rparr>"
  have same: "tkConns v = tkConns ?u" "tkHeap v = tkHeap ?u" "tkStates v = tkStates ?u" "tkSnell v = tkSnell ?u"
    "tkParents v = tkParents ?u" by (simp_all add: v_def)
  have "tracker_ok v"
    unfolding tracker_ok_def key_cong [OF same(1,2)] heap_cong [OF same]
    using h n with_conn_heap [OF h(1) n(3)] with_conn_count [OF n(1), of t]
      ci.indexed_add [OF h(3) fresh_none(1)] cred_add_indexed [OF h(5) fresh_none(2), where k = "idKey (cnIdent n)"]
      indexed_skip [OF h(2) fresh_none(1)] indexed_skip [OF h(4) fresh_none(2)]
    by (simp add: keys with_conn_at v_def) (simp add: with_conn_def)
  moreover have "registerPacketConn x ?c ?u = close_denied x ?c v"
    using rsKey_ne [OF h(1) n(3)] by (simp add: registerPacketConn_def Let_def v_def keys)
  ultimately show ?thesis by (simp add: close_denied_ok)
qed

lemma same_frame_size: "same_frame t t' \<Longrightarrow> length (tkHeap t') = length (tkHeap t) \<and> tkConns t' = tkConns t"
proof -
  assume "same_frame t t'"
  then have "map rsKey (tkHeap t') = map rsKey (tkHeap t)" "tkConns t' = tkConns t" by (simp_all add: same_frame_def)
  then show ?thesis using keys_same(2) by blast
qed

lemma new_conn_split:
  assumes "same_frame t (snd r)"
  shows "\<exists>n u. new_conn x a md packet r = with_conn n u \<and> same_frame t u \<and> live n \<and> cnPacket n = packet \<and> cnState n = a"
proof -
  let ?u = "snd (audit_start x a md (if packet then ''udp'' else ''tcp'') (\<not> fst r) (snd r))"
  have "same_frame t ?u" using assms audit_start_frame same_frame_trans by blast
  then show ?thesis
    unfolding new_conn_def with_conn_def Let_def
    by - (intro exI conjI, rule refl, assumption, simp_all only: live_def conn.simps simp_thms)
qed

lemma route_ok:
  assumes "tracker_ok t" "a < length (tkHeap t)"
  shows "tracker_ok (snd (route x a md packet t))"
proof -
  let ?t1 = "refresh x a t"
  have f: "same_frame t (snd (denied x a ?t1))" using same_frame_trans [OF refresh_frame denied_frame] .
  obtain n u where n: "new_conn x a md packet (denied x a ?t1) = with_conn n u" "same_frame t u" "live n" "cnPacket n = packet" "cnState n = a"
    using new_conn_split [OF f] by blast
  have u: "tracker_ok u" "cnState n < length (tkHeap u)" "length (tkConns u) = length (tkConns t)"
    using same_frame_ok [OF assms(1) n(2)] same_frame_size [OF n(2)] assms(2) n(5) by simp_all
  then have "tracker_ok (if packet then registerPacketConn x (length (tkConns t)) (with_conn n u)
      else registerConn x (length (tkConns t)) (with_conn n u))"
    using registerConn_ok [OF u(1) n(3) _ u(2)] registerPacketConn_ok [OF u(1) n(3) _ u(2)] n(4) by simp
  then show ?thesis
    using same_frame_ok [OF assms(1) refresh_frame] n(1)
    by (simp add: route_def Let_def close_denied_ok)
qed

lemma stateForKey_range: "tracker_ok t \<Longrightarrow> stateForKey k t = Some a \<Longrightarrow> a < length (tkHeap t)"
  by (auto simp: stateForKey_def tracker_ok_def heap_ok_def split: if_splits)

lemma runtimeFor_range: "tracker_ok t \<Longrightarrow> runtimeFor md t = Some a \<Longrightarrow> a < length (tkHeap t)"
  by (auto simp: runtimeFor_def Let_def split: if_splits intro: stateForKey_range)

lemma routed_ok:
  assumes "tracker_ok t"
  shows "tracker_ok (snd (RoutedConnection x md t))" "tracker_ok (snd (RoutedPacketConnection x md t))"
proof -
  have "tracker_ok (snd (route_to (runtimeFor md t) x md packet t))" for packet
    using assms runtimeFor_range [OF assms] by (cases "runtimeFor md t") (simp_all add: route_ok)
  then show "tracker_ok (snd (RoutedConnection x md t))" "tracker_ok (snd (RoutedPacketConnection x md t))"
    by (simp_all add: RoutedConnection_def RoutedPacketConnection_def)
qed

subsection \<open>Every operation keeps the invariant\<close>

lemma frame_ok: "tracker_ok t \<Longrightarrow> same_frame t u \<Longrightarrow> tracker_ok u"
  by (rule same_frame_ok)

lemma look_limiter_ok [simp]: "tracker_ok t \<Longrightarrow> tracker_ok (look_limiter x c t)"
  by (simp add: look_limiter_def same_frame_ok [OF _ refresh_frame])

lemma conn_traffic_ok [simp]: "tracker_ok t \<Longrightarrow> tracker_ok (conn_traffic x c up dn t)"
  by (rule same_frame_ok [OF _ conn_traffic_frame])

lemma count_and_check_ok [simp]: "tracker_ok t \<Longrightarrow> tracker_ok (count_and_check x c up dn t)"
  by (simp add: count_and_check_def close_denied_ok)

lemma conn_deny_ok: "tracker_ok t \<Longrightarrow> tracker_ok (snd (conn_deny x c t))"
  by (rule same_frame_ok [OF _ conn_deny_frame])

lemma write_chunks_ok: "tracker_ok t \<Longrightarrow> tracker_ok (snd (write_chunks x c len io tot t))"
proof (induction x c len io tot t rule: write_chunks.induct)
  case (1 x c len io tot t)
  then show ?case
    by (subst write_chunks.simps) (auto simp: Let_def close_denied_ok)
qed

lemma buffer_chunks_ok: "tracker_ok t \<Longrightarrow> tracker_ok (snd (buffer_chunks x c len io tot t))"
proof (induction x c len io tot t rule: buffer_chunks.induct)
  case (1 x c len io tot t)
  then show ?case
    by (subst buffer_chunks.simps) (auto simp: Let_def close_denied_ok)
qed

lemma io_ok:
  assumes "tracker_ok t"
  shows "tracker_ok (snd (conn_Read x c len rd wfl t))" "tracker_ok (snd (conn_Write x c len io t))"
    "tracker_ok (snd (conn_ReadBuffer x c r wfl t))" "tracker_ok (snd (conn_WriteBuffer x c len io t))"
    "tracker_ok (snd (ReadPacket x c r room t))" "tracker_ok (snd (WritePacket x c len room err t))"
    "tracker_ok (countUpload x c n t)" "tracker_ok (countDownload x c n t)"
proof -
  obtain d u where d: "conn_deny x c t = (d, u)" by (cases "conn_deny x c t")
  then have u: "tracker_ok u" using conn_deny_ok [OF assms, of x c] by simp
  obtain m e where r: "r = (m, e)" by (cases r)
  have "tracker_ok (snd (conn_read_some x c wfl p (look_limiter x c u)))" for p
    using u by (cases p) simp
  then show "tracker_ok (snd (conn_Read x c len rd wfl t))"
    using u by (simp add: conn_Read_def d Let_def)
  show "tracker_ok (snd (conn_Write x c len io t))" "tracker_ok (snd (conn_WriteBuffer x c len io t))"
    using u by (simp_all add: conn_Write_def conn_WriteBuffer_def d Let_def write_chunks_ok buffer_chunks_ok)
  show "tracker_ok (snd (conn_ReadBuffer x c r wfl t))" "tracker_ok (snd (ReadPacket x c r room t))"
    "tracker_ok (snd (WritePacket x c len room err t))"
    using u by (simp_all add: conn_ReadBuffer_def ReadPacket_def WritePacket_def d r Let_def)
  show "tracker_ok (countUpload x c n t)" "tracker_ok (countDownload x c n t)"
    using assms by (simp_all add: countUpload_def countDownload_def)
qed

text \<open>Steps outside connections and indexes.\<close>

lemma tracker_ok_cong:
  assumes "tracker_ok t" "tkConns t' = tkConns t" "tkHeap t' = tkHeap t"
    and "\<And>k a. gm_get (tkStates t') k = Some a \<Longrightarrow> a < length (tkHeap t)"
    and "\<And>p. p \<in> set (tkSnell t') \<Longrightarrow> p < length (tkParents t') \<and> \<not> paClosed (tkParents t' ! p)"
    and "tkActive t' = tkActive t" "tkActivePacket t' = tkActivePacket t" "tkByCred t' = tkByCred t"
      "tkByCredPacket t' = tkByCredPacket t" "tkTCP t' = tkTCP t" "tkAudit t' = tkAudit t" "tkGovernor t' = tkGovernor t"
  shows "tracker_ok t'"
  using assms key_cong [OF assms(2,3)] by (simp add: tracker_ok_def heap_ok_def)

lemma ok_states: "tracker_ok t \<Longrightarrow> gm_get (tkStates t) k = Some a \<Longrightarrow> a < length (tkHeap t)"
  by (simp add: tracker_ok_def heap_ok_def)

lemma ok_snell: "tracker_ok t \<Longrightarrow> p \<in> set (tkSnell t) \<Longrightarrow> p < length (tkParents t) \<and> \<not> paClosed (tkParents t ! p)"
  by (simp add: tracker_ok_def heap_ok_def)

lemma parent_close_ok: "tracker_ok t \<Longrightarrow> tracker_ok (parent_close p t)"
  by (rule tracker_ok_cong [of t]) (auto simp: parent_close_def dest: ok_snell ok_states)

lemma parents_close_ok: "tracker_ok t \<Longrightarrow> tracker_ok (fold parent_close ps t)"
  by (rule fold_ok) (rule parent_close_ok)

lemma prune_key_ok: "tracker_ok t \<Longrightarrow> tracker_ok (prune_key ao key t)"
  by (rule tracker_ok_cong [of t]; cases ao) (auto dest: ok_snell ok_states split: if_splits)

lemma prune_ok: "tracker_ok t \<Longrightarrow> tracker_ok (pruneSnellCounters t)"
  unfolding pruneSnellCounters_def by (rule fold_ok) (rule prune_key_ok)

lemma parent_gone_frame: "same_frame t (snd (parent_gone x force p t))"
proof -
  have "same_frame t (snd (parent_verdict x ao i t))" for ao i
    by (cases ao) (simp_all add: quota_denied_frame)
  then show ?thesis by (simp add: parent_gone_def Let_def)
qed

lemma closing_parents_frame: "same_frame t (snd (closing_parents x force ps t))"
proof (induction ps arbitrary: t)
  case (Cons p ps)
  then show ?case using same_frame_trans [OF parent_gone_frame Cons] by (simp add: Let_def)
qed simp

lemma reapSnellParents_ok: "tracker_ok t \<Longrightarrow> tracker_ok (snd (reapSnellParents x force t))"
  using same_frame_ok [OF _ closing_parents_frame]
  by (simp add: reapSnellParents_def Let_def prune_ok parents_close_ok)

lemma closeActive_ok: "tracker_ok t \<Longrightarrow> tracker_ok (closeActive x key t)"
  by (simp add: closeActive_def reapSnellParents_ok close_all_ok)

lemma closeByCredential_ok: "tracker_ok t \<Longrightarrow> tracker_ok (snd (closeByCredential x k t))"
  by (simp add: closeByCredential_def Let_def close_all_ok)

lemma revoked_keys_frame: "same_frame t (snd (revoked_keys x m t))"
proof (induction x m t rule: revoked_keys.induct)
  case (2 x key a m t)
  then show ?case using same_frame_trans [OF refresh_frame] by (simp add: Let_def)
qed simp

lemma ReapAuthorization_ok: "tracker_ok t \<Longrightarrow> tracker_ok (snd (ReapAuthorization x t))"
proof -
  assume "tracker_ok t"
  then have "tracker_ok (snd (revoked_keys x m (close_all x cs t)))" for m cs
    using same_frame_ok [OF _ revoked_keys_frame] close_all_ok by blast
  moreover have "tracker_ok u \<Longrightarrow> tracker_ok (fold (closeActive x) ks u)" for ks u
    by (rule fold_ok) (rule closeActive_ok)
  ultimately show ?thesis by (simp add: ReapAuthorization_def Let_def reapSnellParents_ok)
qed

lemma auth_frame: "same_frame t (t\<lparr>tkAuth := s, tkWake := w\<rparr>)"
  by (simp add: same_frame_def)

lemma auth_deny_frame: "same_frame t (snd (auth_deny x w keys rv t))"
  unfolding auth_deny_def
  by (cases "deny (eNow x) (awDeny w) keys rv (tkAuth t)") (simp add: auth_frame)

lemma update_result_frame: "same_frame t (snd (update_result_of r t))"
  by (cases "(r, t)" rule: update_result_of.cases) (simp_all add: auth_frame)

lemma ApplyAuthorization_ok: "tracker_ok t \<Longrightarrow> tracker_ok (snd (ApplyAuthorization x w l keys t))"
proof -
  assume ok: "tracker_ok t"
  have "tracker_ok (snd r) \<Longrightarrow> tracker_ok (snd (update_after x w l r))" for r
    using same_frame_ok [OF _ update_result_frame] by (cases "(x, w, l, r)" rule: update_after.cases) (simp_all add: auth_update_def)
  moreover have "tracker_ok (snd r) \<Longrightarrow> tracker_ok (snd (reap_after x r))" for r
    by (cases "(x, r)" rule: reap_after.cases) (simp_all add: ReapAuthorization_ok)
  ultimately show ?thesis
    using ok same_frame_ok [OF ok auth_deny_frame] by (simp add: ApplyAuthorization_def)
qed

lemma DenyAuthorization_ok: "tracker_ok t \<Longrightarrow> tracker_ok (snd (DenyAuthorization x w keys rv t))"
proof -
  assume "tracker_ok t"
  then have "tracker_ok (snd (auth_deny x w keys rv t))" using same_frame_ok auth_deny_frame by blast
  moreover have "tracker_ok u \<Longrightarrow> tracker_ok (snd (close_creds x ks u))" for ks u
    by (induction ks arbitrary: u) (simp_all add: Let_def closeByCredential_ok)
  then have "tracker_ok (snd r) \<Longrightarrow> tracker_ok (snd (close_after x keys r))" for r
    by (cases "(x, keys, r)" rule: close_after.cases) (simp_all add: Let_def)
  ultimately show ?thesis by (simp add: DenyAuthorization_def)
qed

lemma InitializeAuthorization_ok: "tracker_ok t \<Longrightarrow> tracker_ok (snd (InitializeAuthorization x w fresh l t))"
proof -
  assume ok: "tracker_ok t"
  have "same_frame t (t\<lparr>tkAuth := s\<rparr>)" for s by (simp add: same_frame_def)
  then have "tracker_ok (snd (install_store r t))" for r
    using ok same_frame_ok by (cases "(r, t)" rule: install_store.cases) auto
  then show ?thesis using ok by (simp add: InitializeAuthorization_def)
qed

lemma state_policy_frame: "same_frame t (state_policy x a l t)"
proof -
  have "rsKey (updatePolicy e l s) = rsKey s" for e s by (simp add: updatePolicy_def storePolicy_def Let_def)
  then show ?thesis by (simp add: state_policy_def fresh_frame set_state_frame)
qed

lemma usage_for_same:
  "same_frame t (snd (usage_for user t)) \<and> tkHeap (snd (usage_for user t)) = tkHeap t"
  unfolding usage_for_def
  by (cases "shared_usage user (tkStates t) t") (auto simp: new_usage_def Let_def same_frame_def)

lemma grow_heap_ok:
  assumes ok: "tracker_ok t" and s: "rsKey s \<noteq> []"
    and t': "t' = t\<lparr>tkHeap := tkHeap t @ [s], tkStates := gm_put key (length (tkHeap t)) (tkStates t), tkFresh := n\<rparr>"
  shows "tracker_ok t'"
proof -
  have conns: "cnState m < length (tkHeap t)" if "m \<in> set (tkConns t)" for m
    using ok that by (simp add: tracker_ok_def heap_ok_def)
  have at: "conn_at c t' = conn_at c t" for c by (simp add: t' conn_at_def)
  have key: "conn_key c t' = conn_key c t" if "live (conn_at c t)" for c
    using conns [of "conn_at c t"] live_in_range [OF that] by (simp add: conn_key_def at state_at_def t' conn_at_def nth_append)
  have keys: "user_key p t' = user_key p t" "cred_key p t' = cred_key p t" for p
    using key by (auto simp: user_key_def cred_key_def at fun_eq_iff)
  have "heap_ok t'"
    using ok s conns by (auto simp: tracker_ok_def heap_ok_def t' less_Suc_eq split: if_splits)
  then show ?thesis
    using ok by (simp add: tracker_ok_def keys) (simp add: t' live_tcp_def)
qed

lemma add_state_ok:
  assumes "tracker_ok t" "key \<noteq> []"
  shows "tracker_ok (add_state x key user inbound l t)"
proof -
  let ?u = "snd (usage_for (qUser l) t)"
  have "tracker_ok ?u" using assms(1) usage_for_same same_frame_ok by blast
  then show ?thesis
    unfolding add_state_def Let_def
    by (rule grow_heap_ok [OF _ _ refl]) (simp add: newRuntimeState_def storePolicy_def assms(2))
qed

lemma install_user_ok: "tracker_ok t \<Longrightarrow> tracker_ok (install_user x e t)"
proof -
  assume ok: "tracker_ok t"
  have "tracker_ok (upsert_user x ao user l t)" for ao user l
    using ok same_frame_ok [OF ok state_policy_frame] add_state_ok [OF ok] by (cases ao) simp_all
  then show ?thesis using ok by (simp add: install_user_def Let_def)
qed

lemma ReplaceScopedUsers_ok: "tracker_ok t \<Longrightarrow> tracker_ok (ReplaceScopedUsers x es t)"
  unfolding ReplaceScopedUsers_def by (rule fold_ok) (rule install_user_ok)

lemma snell_frame: "same_frame t (t\<lparr>tkRetired := r, tkSnellUsers := u\<rparr>)"
  by (simp add: same_frame_def)

lemma retire_user_ok: "tracker_ok t \<Longrightarrow> tracker_ok (retire_user scope k t)"
  by (simp add: retire_user_def same_frame_ok [OF _ snell_frame])

lemma publish_user_ok: "tracker_ok t \<Longrightarrow> tracker_ok (publish_user e t)"
  by (simp add: publish_user_def same_frame_ok [OF _ snell_frame])

lemma publishSnellUsers_ok: "tracker_ok t \<Longrightarrow> tracker_ok (publishSnellUsers scope es t)"
  unfolding publishSnellUsers_def by (rule fold_ok, erule publish_user_ok, rule fold_ok, erule retire_user_ok)

lemma apply_policy_ok: "tracker_ok t \<Longrightarrow> tracker_ok (apply_policy x g t)"
proof -
  assume "tracker_ok t"
  let ?u = "state_policy x (fst g) (snd g) t"
  have "same_frame t (snd (deniedForConnection x True (fst g) ?u))"
    using same_frame_trans [OF state_policy_frame deniedForConnection_frame] .
  then have "tracker_ok (snd (deniedForConnection x True (fst g) ?u))"
    using \<open>tracker_ok t\<close> same_frame_ok by blast
  then have "tracker_ok (close_key_if x k (deniedForConnection x True (fst g) ?u))" for k
    by (cases "deniedForConnection x True (fst g) ?u") (simp add: closeActive_ok)
  then show ?thesis by (simp add: apply_policy_def Let_def)
qed

lemma UpdatePolicies_ok: "tracker_ok t \<Longrightarrow> tracker_ok (UpdatePolicies x ps t)"
  unfolding UpdatePolicies_def by (rule fold_ok) (rule apply_policy_ok)

lemma ack_state_frame: "same_frame t (ack_state ao k t)"
proof (cases ao)
  case (Some a)
  have "rsKey (snd (acknowledge k (us, s))) = rsKey s" for us s by (simp add: acknowledge_def Let_def)
  then show ?thesis using set_state_frame [of "snd (acknowledge k (tkUsages t, state_at a t))" a t]
    by (simp add: Some Let_def same_frame_def)
qed simp

lemma ack_key_ok: "tracker_ok t \<Longrightarrow> tracker_ok (ack_key g t)"
  unfolding ack_key_def by (rule same_frame_ok [OF _ ack_state_frame])

lemma AcknowledgeTraffic_ok: "tracker_ok t \<Longrightarrow> tracker_ok (AcknowledgeTraffic ks t)"
  unfolding AcknowledgeTraffic_def by (intro prune_ok fold_ok ack_key_ok)

lemma snapshot_frame: "same_frame t (snd (snapshot_states x as t))"
proof (induction as arbitrary: t)
  case (Cons a as)
  then show ?case using same_frame_trans [OF refresh_frame Cons] by (simp add: Let_def)
qed simp

lemma tracker_audit_frame: "same_frame t (tracker_audit x on t)"
  by (simp add: tracker_audit_def same_frame_def SetConnectionAuditEnabled_ok)

lemma admit_second_ok:
  assumes "tracker_ok u" "p < length (tkParents u)" "\<not> paClosed (parent_at p u)"
  shows "tracker_ok (snd (admit_second x a scope cred p (d, u)))"
proof -
  have "tracker_ok (u\<lparr>tkParents := (tkParents u)[p := q], tkSnell := List.insert p (tkSnell u)\<rparr>)" if "\<not> paClosed q" for q
    using that assms(2) by (intro tracker_ok_cong [OF assms(1)]) (auto simp: nth_list_update dest: ok_snell [OF assms(1)] ok_states [OF assms(1)])
  then show ?thesis using assms by (simp add: Let_def)
qed

lemma same_frame_parents: "same_frame t u \<Longrightarrow> tkParents u = tkParents t \<and> parent_at p u = parent_at p t"
  by (simp add: same_frame_def parent_at_def)

lemma admit_installed_ok:
  assumes "tracker_ok u" "p < length (tkParents u)"
  shows "tracker_ok (snd (admit_installed x a scope io p u))"
proof -
  obtain d v where r: "denied x a u = (d, v)" by (cases "denied x a u")
  have f: "same_frame u v" using denied_frame [of u x a] by (simp add: r)
  have "tracker_ok (snd (admit_second x a scope cred p (d, v)))" if "\<not> paClosed (parent_at p u)" for cred
    using same_frame_parents [OF f] that assms(2) by (intro admit_second_ok same_frame_ok [OF assms(1) f]) simp_all
  then show ?thesis
    using assms(1) by (cases "(x, a, scope, io, p, u)" rule: admit_installed.cases) (simp_all add: r)
qed

lemma Admit_ok:
  assumes ok: "tracker_ok t" and p: "pred_option (\<lambda>p. p < length (tkParents t)) po"
  shows "tracker_ok (snd (Admit x inb user po t))"
proof -
  have "tracker_ok (snd (admit_first x a scope po (denied x a t)))" for a scope
  proof -
    obtain d u where r: "denied x a t = (d, u)" by (cases "denied x a t")
    have f: "same_frame t u" using denied_frame [of t x a] by (simp add: r)
    show ?thesis
      using same_frame_ok [OF ok f] same_frame_parents [OF f] p
      by (cases po) (simp_all add: r admit_installed_ok)
  qed
  then have "tracker_ok (snd (admit_state x ao scope po t))" for ao scope
    using ok by (cases ao) simp_all
  then show ?thesis using ok by (simp add: Admit_def)
qed

lemma WrapParent_ok: "tracker_ok t \<Longrightarrow> tracker_ok (snd (WrapParent t))"
  by (rule tracker_ok_cong [of t]) (auto simp: WrapParent_def nth_append dest: ok_snell ok_states)

lemma CloseSnellInbound_ok: "tracker_ok t \<Longrightarrow> tracker_ok (CloseSnellInbound tag t)"
  by (simp add: CloseSnellInbound_def parents_close_ok)

lemma SetSocketGovernor_ok: "tracker_ok t \<Longrightarrow> pred_option gov_ok g \<Longrightarrow> tracker_ok (SetSocketGovernor g t)"
  using key_cong [of "SetSocketGovernor g t" t] heap_cong [of "SetSocketGovernor g t" t]
  by (simp add: tracker_ok_def SetSocketGovernor_def)

lemma newRateLimitTracker_ok: "tracker_ok (newRateLimitTracker x w boot rm)"
proof -
  have "audit_ok new_audit" by (simp add: audit_ok_def new_audit_def active_of_def live_sum_def gm_len_def)
  then have "audit_ok (tkAudit (empty_tracker x boot on))" for on
    by (simp add: empty_tracker_def audit_ok_def active_of_def)
  then have "tracker_ok (empty_tracker x boot on)" for on
    by (simp add: tracker_ok_def heap_ok_def ci.indexed_def)
      (simp add: empty_tracker_def idx_get_def user_key_def cred_key_def conn_at_def live_def blank_conn_def live_tcp_def)
  then have start: "tracker_ok (snd (auth_update x w l (empty_tracker x boot on)))" for l on
    using same_frame_ok [OF _ update_result_frame] by (simp add: auth_update_def)
  have "tracker_ok u \<Longrightarrow> tracker_ok (start_user x g u)" "tracker_ok u \<Longrightarrow> tracker_ok (start_inbound x g u)" for g u
    by (simp_all add: start_user_def start_inbound_def Let_def add_state_ok)
  then show ?thesis unfolding newRateLimitTracker_def by (intro fold_ok start)
qed

subsection \<open>Histories\<close>

datatype tracker_op =
  TRoute env metadata | TRoutePacket env metadata
| TRead env nat int "int \<Rightarrow> int \<times> bool" bool | TWrite env nat int "int \<Rightarrow> chunk_io"
| TReadBuffer env nat "int \<times> bool" bool | TWriteBuffer env nat int "int \<Rightarrow> chunk_io"
| TReadPacket env nat "int \<times> bool" bool | TWritePacket env nat int bool bool
| TUpload env nat int | TDownload env nat int | TClose env nat
| TReap env | TApply env auth_write "lease option" "string list" | TDeny env auth_write "string list" int
| TInitialize env auth_write store "lease option"
| TReplace env "install_entry list" | TPublish "string list" "install_entry list"
| TPolicies env "(string, limit) gomap" | TAcknowledge "(string, checkpoint) gomap" | TSnapshot env
| TAudit env bool | TWrap | TAdmit env string string "nat option" | TReapParents env bool | TCloseInbound string

fun tracker_step :: "tracker_op \<Rightarrow> tracker \<Rightarrow> tracker" where
  "tracker_step (TRoute x md) t = snd (RoutedConnection x md t)"
| "tracker_step (TRoutePacket x md) t = snd (RoutedPacketConnection x md t)"
| "tracker_step (TRead x c len rd wait) t = snd (conn_Read x c len rd wait t)"
| "tracker_step (TWrite x c len io) t = snd (conn_Write x c len io t)"
| "tracker_step (TReadBuffer x c r wait) t = snd (conn_ReadBuffer x c r wait t)"
| "tracker_step (TWriteBuffer x c len io) t = snd (conn_WriteBuffer x c len io t)"
| "tracker_step (TReadPacket x c r room) t = snd (ReadPacket x c r room t)"
| "tracker_step (TWritePacket x c len room err) t = snd (WritePacket x c len room err t)"
| "tracker_step (TUpload x c n) t = countUpload x c n t"
| "tracker_step (TDownload x c n) t = countDownload x c n t"
| "tracker_step (TClose x c) t = close_conn x c t"
| "tracker_step (TReap x) t = snd (reaper_round x t)"
| "tracker_step (TApply x w l ks) t = snd (ApplyAuthorization x w l ks t)"
| "tracker_step (TDeny x w ks rv) t = snd (DenyAuthorization x w ks rv t)"
| "tracker_step (TInitialize x w s l) t = snd (InitializeAuthorization x w s l t)"
| "tracker_step (TReplace x es) t = ReplaceScopedUsers x es t"
| "tracker_step (TPublish scope es) t = publishSnellUsers scope es t"
| "tracker_step (TPolicies x ps) t = UpdatePolicies x ps t"
| "tracker_step (TAcknowledge ks) t = AcknowledgeTraffic ks t"
| "tracker_step (TSnapshot x) t = snd (tracker_Snapshot x t)"
| "tracker_step (TAudit x on) t = tracker_audit x on t"
| "tracker_step TWrap t = snd (WrapParent t)"
| "tracker_step (TAdmit x inb user po) t =
     (if pred_option (\<lambda>p. p < length (tkParents t)) po then snd (Admit x inb user po t) else t)"
| "tracker_step (TReapParents x force) t = snd (reapSnellParents x force t)"
| "tracker_step (TCloseInbound tag) t = CloseSnellInbound tag t"

definition tracker_run :: "tracker_op list \<Rightarrow> tracker \<Rightarrow> tracker" where
  "tracker_run ops t = fold tracker_step ops t"

lemma reaper_round_ok: "tracker_ok t \<Longrightarrow> tracker_ok (snd (reaper_round x t))"
proof -
  assume "tracker_ok t"
  then have "tracker_ok (t\<lparr>tkWake := False\<rparr>)" by (rule same_frame_ok) (simp add: same_frame_def)
  then show ?thesis by (simp add: reaper_round_def Let_def ReapAuthorization_ok)
qed

lemma tracker_step_ok: "tracker_ok t \<Longrightarrow> tracker_ok (tracker_step op t)"
  by (cases op)
    (simp_all add: routed_ok io_ok close_conn_ok reaper_round_ok ApplyAuthorization_ok DenyAuthorization_ok
      InitializeAuthorization_ok ReplaceScopedUsers_ok publishSnellUsers_ok UpdatePolicies_ok AcknowledgeTraffic_ok
      tracker_Snapshot_def same_frame_ok [OF _ snapshot_frame] same_frame_ok [OF _ tracker_audit_frame] WrapParent_ok
      Admit_ok reapSnellParents_ok CloseSnellInbound_ok)

lemma tracker_run_ok: "tracker_ok t \<Longrightarrow> tracker_ok (tracker_run ops t)"
  unfolding tracker_run_def by (rule fold_ok) (rule tracker_step_ok)

subsection \<open>What closing leaves alone\<close>

definition auth_view :: "rt_state \<Rightarrow> int \<times> string \<times> int" where
  "auth_view s = (qUser (rsPolicy s), qAuthKey (rsPolicy s), qEpoch (rsPolicy s))"

text \<open>Steps that may close sessions and roll periods over, but change no identity, no credential
  and no grant.\<close>

definition evolves :: "tracker \<Rightarrow> tracker \<Rightarrow> bool" where
  "evolves t t' \<longleftrightarrow> tkAuth t' = tkAuth t \<and> (\<forall>a. auth_view (state_at a t') = auth_view (state_at a t)) \<and>
     (\<forall>c. cnIdent (conn_at c t') = cnIdent (conn_at c t) \<and> cnState (conn_at c t') = cnState (conn_at c t) \<and>
          (live (conn_at c t') \<longrightarrow> live (conn_at c t)))"

lemma evolves_refl [simp]: "evolves t t"
  by (simp add: evolves_def)

lemma evolves_trans: "evolves t u \<Longrightarrow> evolves u v \<Longrightarrow> evolves t v"
  by (simp add: evolves_def)

lemma revoked_view: "auth_view s = auth_view s' \<Longrightarrow> authorizationRevokedFor auth now i s = authorizationRevokedFor auth now i s'"
  by (simp add: auth_view_def authorizationRevokedFor_def Let_def)

lemma evolves_revoked: "evolves t t' \<Longrightarrow> conn_revoked x c t' = conn_revoked x c t"
  unfolding conn_revoked_def revoked_at_def evolves_def by (metis revoked_view)

lemma currentConfig_view [simp]: "auth_view (currentConfig z n e s) = auth_view s"
proof -
  have "auth_view (storePolicy e (roll_policy (rsPolicy s) w) r s) = auth_view s" for w r
    by (cases w) (simp add: auth_view_def storePolicy_def)
  then show ?thesis by (simp add: currentConfig_def Let_def)
qed

lemma refresh_evolves: "evolves t (refresh x a t)"
  by (auto simp: evolves_def refresh_def set_state_def state_at_def conn_at_def nth_list_update)

lemma state_at_same: "tkHeap t' = tkHeap t \<Longrightarrow> state_at a t' = state_at a t"
  by (simp add: state_at_def)

lemma conn_at_same: "tkConns t' = tkConns t \<Longrightarrow> conn_at a t' = conn_at a t"
  by (simp add: conn_at_def)

lemma same_evolves: "tkAuth t' = tkAuth t \<Longrightarrow> tkHeap t' = tkHeap t \<Longrightarrow> tkConns t' = tkConns t \<Longrightarrow> evolves t t'"
  by (simp add: evolves_def state_at_def conn_at_def)

lemma close_conn_evolves: "evolves t (close_conn x c t)"
proof (cases "live (conn_at c t)")
  case True
  have "evolves t (mark_closed c t)"
    using mark_closed_at [OF True] by (auto simp: evolves_def live_def state_at_def) (simp_all add: mark_closed_def)
  moreover have "evolves (mark_closed c t) (close_conn x c t)"
    by (rule same_evolves) (simp_all add: close_conn_eq [OF True] Let_def observe_tcp_def mark_closed_def)
  ultimately show ?thesis by (rule evolves_trans)
qed (simp add: close_conn_def live_def)

lemma close_conn_closes: "\<not> live (conn_at c (close_conn x c t))"
proof (cases "live (conn_at c t)")
  case True
  have "conn_at c (close_conn x c t) = conn_at c (mark_closed c t)"
    by (rule conn_at_same) (simp add: close_conn_eq [OF True] Let_def observe_tcp_def mark_closed_def)
  then show ?thesis using mark_closed_at [OF True, of c] by (simp add: live_def)
qed (simp add: close_conn_def live_def)

lemma evolves_closed: "evolves t t' \<Longrightarrow> \<not> live (conn_at c t) \<Longrightarrow> \<not> live (conn_at c t')"
  by (auto simp: evolves_def)

lemma fold_evolves: "(\<And>y u. evolves u (f y u)) \<Longrightarrow> evolves t (fold f ys t)"
proof (induction ys arbitrary: t)
  case (Cons y ys)
  then show ?case using evolves_trans [of t "f y t"] by simp
qed simp

lemma close_all_evolves: "evolves t (close_all x cs t)"
  unfolding close_all_def by (rule fold_evolves) (rule close_conn_evolves)

lemma close_all_closes: "c \<in> set cs \<Longrightarrow> \<not> live (conn_at c (close_all x cs t))"
proof (induction cs arbitrary: t)
  case (Cons d cs)
  show ?case
  proof (cases "c = d")
    case True
    have "\<not> live (conn_at c (close_all x cs (close_conn x c t)))"
      using evolves_closed [OF close_all_evolves close_conn_closes] .
    then show ?thesis using True by (simp add: close_all_def)
  next
    case False
    then show ?thesis using Cons by (simp add: close_all_def)
  qed
qed simp

lemma quota_denied_evolves: "evolves t (snd (quota_denied x adm a t))"
  by (simp add: quota_denied_def Let_def refresh_evolves)

lemma conn_deny_evolves: "evolves t (snd (conn_deny x c t))"
  by (simp add: conn_deny_def quota_denied_evolves)

lemma close_denied_evolves: "evolves t (close_denied x c t)"
proof -
  have "evolves t (close_if x c r)" if "evolves t (snd r)" for r
    using that evolves_trans [OF _ close_conn_evolves] by (cases r) simp
  then show ?thesis by (simp add: close_denied_def conn_deny_evolves)
qed

lemma parent_close_evolves: "evolves t (parent_close p t)"
  by (rule same_evolves) (simp_all add: parent_close_def)

lemma prune_key_evolves: "evolves t (prune_key ao key t)"
  by (rule same_evolves; cases ao) simp_all

lemma prune_evolves: "evolves t (pruneSnellCounters t)"
  unfolding pruneSnellCounters_def by (rule fold_evolves) (rule prune_key_evolves)

lemma parent_gone_evolves: "evolves t (snd (parent_gone x force p t))"
proof -
  have "evolves t (snd (parent_verdict x ao i t))" for ao i
    by (cases ao) (simp_all add: quota_denied_evolves)
  then show ?thesis by (simp add: parent_gone_def Let_def)
qed

lemma closing_parents_evolves: "evolves t (snd (closing_parents x force ps t))"
proof (induction ps arbitrary: t)
  case (Cons p ps)
  then show ?case using evolves_trans [OF parent_gone_evolves Cons] by (simp add: Let_def)
qed simp

lemma reapSnellParents_evolves: "evolves t (snd (reapSnellParents x force t))"
proof -
  have "evolves u (fold parent_close ps u)" for ps u by (rule fold_evolves) (rule parent_close_evolves)
  then have "evolves u (pruneSnellCounters (fold parent_close ps u))" for ps u
    by (rule evolves_trans [OF _ prune_evolves])
  then have "evolves t (pruneSnellCounters (fold parent_close ps (snd (closing_parents x force qs t))))" for ps qs
    by (rule evolves_trans [OF closing_parents_evolves])
  then show ?thesis by (simp add: reapSnellParents_def Let_def)
qed

lemma closeActive_evolves: "evolves t (closeActive x key t)"
  unfolding closeActive_def by (rule evolves_trans [OF close_all_evolves reapSnellParents_evolves])

lemma revoked_keys_evolves: "evolves t (snd (revoked_keys x m t))"
proof (induction x m t rule: revoked_keys.induct)
  case (2 x key a m t)
  have "evolves (refresh x a t) (snd (revoked_keys x m (refresh x a t)))" by (rule 2) simp
  from evolves_trans [OF refresh_evolves this] show ?case by (simp add: Let_def)
qed simp

lemma reap_tail_evolves:
  "evolves u (snd (reapSnellParents x False (fold (closeActive x) (fst (revoked_keys x m u)) (snd (revoked_keys x m u)))))"
proof -
  have "evolves (snd (revoked_keys x m u)) (fold (closeActive x) ks (snd (revoked_keys x m u)))" for ks
    by (rule fold_evolves) (rule closeActive_evolves)
  from evolves_trans [OF evolves_trans [OF revoked_keys_evolves this] reapSnellParents_evolves] show ?thesis .
qed

lemma live_is_active: "tracker_ok t \<Longrightarrow> live (conn_at c t) \<Longrightarrow> c \<in> set (all_active t)"
proof -
  assume ok: "tracker_ok t" and l: "live (conn_at c t)"
  have get: "set (idx_get m k) \<subseteq> set (concat (map snd m))" for m k
    by (cases "gm_get m k") (force simp: idx_get_def dest: map_of_SomeD)+
  have "c \<in> set (idx_get (tkActive t) (conn_key c t)) \<or> c \<in> set (idx_get (tkActivePacket t) (conn_key c t))"
    using ok l ci.indexed_get by (auto simp: tracker_ok_def user_key_def)
  then show ?thesis using get unfolding all_active_def by (metis Un_iff set_append subsetD)
qed

text \<open>C12: Reaping. After \<^verbatim>\<open>ReapAuthorization\<close> no open connection of a reachable tracker is revoked: each
  was admitted with a credential that is still granted and still current for its user.\<close>

theorem reap_closes_revoked:
  assumes "t = tracker_run ops (newRateLimitTracker x0 w boot rm)" "t' = snd (ReapAuthorization x t)"
    and "live (conn_at c t')"
  shows "\<not> conn_revoked x c t'"
proof -
  have ok: "tracker_ok t" unfolding assms(1) by (rule tracker_run_ok) (rule newRateLimitTracker_ok)
  let ?cs = "revokedConnections x t"
  let ?u = "close_all x ?cs t"
  have e: "evolves t ?u" "evolves ?u t'"
    unfolding assms(2) using close_all_evolves reap_tail_evolves by (simp_all add: ReapAuthorization_def Let_def)
  have "live (conn_at c t)" "live (conn_at c ?u)" using assms(3) e by (auto simp: evolves_def)
  then have "c \<notin> set ?cs" using close_all_closes by blast
  then have "\<not> conn_revoked x c t"
    using live_is_active [OF ok] \<open>live (conn_at c t)\<close> by (simp add: revokedConnections_def)
  then show ?thesis using evolves_revoked e by blast
qed

subsection \<open>Emergency denial\<close>

lemma closeByCredential_evolves: "evolves t (snd (closeByCredential x k t))"
  by (simp add: closeByCredential_def Let_def close_all_evolves)

lemma close_creds_evolves: "evolves t (snd (close_creds x ks t))"
proof (induction ks arbitrary: t)
  case (Cons k ks)
  from evolves_trans [OF closeByCredential_evolves Cons] show ?case by (simp add: Let_def)
qed simp

lemma closeByCredential_closes:
  assumes "tracker_ok t" "k \<noteq> []" "idKey (cnIdent (conn_at c t)) = k"
  shows "\<not> live (conn_at c (snd (closeByCredential x k t)))"
proof (cases "live (conn_at c t)")
  case True
  then have "cred_key (cnPacket (conn_at c t)) t c = Some k" using assms by (simp add: cred_key_def opt_key_def)
  then have "c \<in> set (idx_get (tkByCred t) k @ idx_get (tkByCredPacket t) k)"
    using assms(1) ci.indexed_get by (cases "cnPacket (conn_at c t)") (auto simp: tracker_ok_def)
  from close_all_closes [OF this] show ?thesis using assms(2) by (simp add: closeByCredential_def Let_def)
qed (rule evolves_closed [OF closeByCredential_evolves])

lemma close_creds_closes:
  assumes "tracker_ok t" "k \<in> set ks" "k \<noteq> []" "idKey (cnIdent (conn_at c t)) = k"
  shows "\<not> live (conn_at c (snd (close_creds x ks t)))"
  using assms
proof (induction ks arbitrary: t)
  case (Cons j ks)
  let ?u = "snd (closeByCredential x j t)"
  have u: "tracker_ok ?u" "idKey (cnIdent (conn_at c ?u)) = k"
    using closeByCredential_ok [OF Cons.prems(1)] closeByCredential_evolves [of t x j] Cons.prems(4) by (auto simp: evolves_def)
  show ?case
  proof (cases "j = k")
    case True
    then have "\<not> live (conn_at c ?u)" using closeByCredential_closes [OF Cons.prems(1,3,4)] by simp
    from evolves_closed [OF close_creds_evolves this] show ?thesis by (simp add: Let_def)
  next
    case False
    then show ?thesis using Cons.IH [OF u(1) _ Cons.prems(3) u(2)] Cons.prems(2) by (simp add: Let_def)
  qed
qed simp

lemma cut_is_revoked:
  assumes "store_denied (tkAuth t) k" "idKey (cnIdent (conn_at c t)) = k" "k \<noteq> []"
  shows "conn_revoked x c t"
  using assms sa.cut_refuses [OF assms(1)]
  by (simp add: conn_revoked_def revoked_at_def authorizationRevokedFor_def Let_def)

lemma revoked_closed: "conn_revoked x c t \<Longrightarrow> \<not> live (conn_at c (close_denied x c t))"
  by (simp add: close_denied_def conn_deny_def close_conn_closes)

lemma denied_evolves: "evolves t (snd (denied x a t))"
  by (simp add: denied_def Let_def refresh_evolves)

lemma audit_start_evolves: "evolves t (snd (audit_start x a md net adm t))"
proof -
  have "evolves t (u\<lparr>tkAudit := au\<rparr>)" if "evolves t u" for u au
    using evolves_trans [OF that] same_evolves [of "u\<lparr>tkAudit := au\<rparr>" u] by simp
  then show ?thesis by (simp add: audit_start_def Let_def refresh_evolves)
qed

lemma register_evolves:
  assumes "tkAuth v = tkAuth t" "tkHeap v = tkHeap t" "tkConns v = tkConns t"
  shows "evolves t (close_denied x c v)"
  by (rule evolves_trans [OF same_evolves close_denied_evolves]) (simp_all add: assms)

lemma registerConn_evolves: "evolves t (registerConn x c t)"
  by (simp add: registerConn_def Let_def observe_tcp_def register_evolves evolves_refl)

lemma registerPacketConn_evolves: "evolves t (registerPacketConn x c t)"
  by (simp add: registerPacketConn_def Let_def register_evolves evolves_refl)

text \<open>A new connection under a denied credential is closed before it is handed out.\<close>

lemma route_keeps_cut:
  assumes cut: "store_denied (tkAuth t) k" "k \<noteq> []"
    and old: "\<And>c. idKey (cnIdent (conn_at c t)) = k \<Longrightarrow> \<not> live (conn_at c t)"
    and new: "idKey (cnIdent (conn_at c (snd (route x a md packet t)))) = k"
  shows "\<not> live (conn_at c (snd (route x a md packet t)))"
proof -
  let ?t1 = "refresh x a t" and ?d = "length (tkConns t)"
  let ?r = "denied x a ?t1"
  let ?u = "snd (audit_start x a md (if packet then ''udp'' else ''tcp'') (\<not> fst ?r) (snd ?r))"
  let ?t2 = "new_conn x a md packet ?r"
  have e: "evolves t ?u"
    using evolves_trans [OF refresh_evolves evolves_trans [OF denied_evolves audit_start_evolves]] .
  have f: "same_frame t ?u"
    using same_frame_trans [OF refresh_frame same_frame_trans [OF denied_frame audit_start_frame]] .
  obtain n where n: "?t2 = with_conn n ?u" by (simp add: new_conn_def with_conn_def Let_def)
  have len: "length (tkConns ?u) = ?d" using same_frame_size [OF f] by simp
  have auth: "tkAuth ?t2 = tkAuth t" using e n by (simp add: with_conn_def evolves_def)
  let ?t4 = "snd (route x a md packet t)"
  show ?thesis
  proof (cases "rsLimiter (state_at a ?t1) = None \<and> \<not> qBillable (rsPolicy (state_at a ?t1))")
    case True
    then have "?t4 = ?t1" by (simp add: route_def Let_def)
    then show ?thesis using refresh_evolves [of t x a] old new by (auto simp: evolves_def)
  next
    case False
    define t3 where "t3 = (if packet then registerPacketConn x ?d ?t2 else registerConn x ?d ?t2)"
    have t4: "?t4 = close_denied x ?d t3" using False by (auto simp: route_def Let_def t3_def)
    have e3: "evolves ?t2 t3" by (simp add: t3_def registerConn_evolves registerPacketConn_evolves)
    have e4: "evolves ?t2 ?t4" using evolves_trans [OF e3] close_denied_evolves unfolding t4 by blast
    have key: "idKey (cnIdent (conn_at c ?t2)) = k" using new e4 by (simp add: evolves_def)
    show ?thesis
    proof (cases "c = ?d")
      case True
      have "conn_revoked x ?d t3"
        using cut_is_revoked [of t3 k ?d x] cut auth e3 key True by (simp add: evolves_def)
      then show ?thesis using revoked_closed True unfolding t4 by blast
    next
      case False
      then have "conn_at c ?t2 = conn_at c ?u" unfolding n with_conn_at len by simp
      then have "\<not> live (conn_at c ?t2)" using old key e by (auto simp: evolves_def)
      then show ?thesis by (rule evolves_closed [OF e4])
    qed
  qed
qed

lemma routed_keeps_cut:
  assumes "store_denied (tkAuth t) k" "k \<noteq> []" "\<And>c. idKey (cnIdent (conn_at c t)) = k \<Longrightarrow> \<not> live (conn_at c t)"
    and "idKey (cnIdent (conn_at c (snd (route_to ao x md packet t)))) = k"
  shows "\<not> live (conn_at c (snd (route_to ao x md packet t)))"
  using assms route_keeps_cut [OF assms(1,2,3)] by (cases ao) simp_all

lemma cut_write_refused:
  assumes "store_denied (tkAuth t) k" "k \<noteq> []" "idKey (cnIdent (conn_at c t)) = k"
  shows "conn_Write x c len io t = (QuotaExceeded, t)" "conn_Read x c len rd wait t = (QuotaExceeded, t)"
  using cut_is_revoked [OF assms(1,3,2), of x]
  by (simp_all add: conn_Write_def conn_Read_def conn_deny_def)

text \<open>C1: Emergency denial. When \<^verbatim>\<open>DenyAuthorization\<close> succeeds and the watermark has room, every open
  session of a denied key is closed, reads and writes on any of its sessions are refused and
  change nothing, and a connection routed for it later is closed before it is handed out.\<close>

theorem deny_cuts_off:
  assumes "t = tracker_run ops (newRateLimitTracker x0 w0 boot rm)"
    and "DenyAuthorization x w keys rv t = (Inr n, t')" "k \<in> set keys" "\<not> bad_key k"
    and "gm_len (sDenied (load (tkAuth t))) + length keys \<le> max_denied_keys"
    and "idKey (cnIdent (conn_at c t')) = k" "idKey (cnIdent (conn_at d (snd (RoutedConnection x' md t')))) = k"
  shows "\<not> live (conn_at c t') \<and> conn_Write x' c len io t' = (QuotaExceeded, t') \<and>
    conn_Read x' c len rd wait t' = (QuotaExceeded, t') \<and> \<not> live (conn_at d (snd (RoutedConnection x' md t')))"
proof -
  have ok: "tracker_ok t" unfolding assms(1) by (rule tracker_run_ok) (rule newRateLimitTracker_ok)
  obtain r h s where d: "deny (eNow x) (awDeny w) keys rv (tkAuth t) = (r, h, s)"
    by (cases "deny (eNow x) (awDeny w) keys rv (tkAuth t)")
  define u where "u = t\<lparr>tkAuth := s, tkWake := (tkWake t \<or> h)\<rparr>"
  have r: "r = None" and t': "t' = snd (close_creds x keys u)"
    using assms(2) by (cases r; simp add: DenyAuthorization_def auth_deny_def d u_def Let_def)+
  have s: "store_denied s k"
    using deny_covers [OF d [unfolded r] assms(3-5)] load_id [OF deny_state(1) [OF d]] by (simp add: store_denied_def)
  have k: "k \<noteq> []" using assms(4) by (auto simp: bad_key_def)
  have u: "tracker_ok u" unfolding u_def by (rule same_frame_ok [OF ok auth_frame])
  have e: "evolves u t'" unfolding t' by (rule close_creds_evolves)
  have cut: "store_denied (tkAuth t') k" using s e by (simp add: evolves_def u_def)
  have closed: "\<not> live (conn_at c t')" if "idKey (cnIdent (conn_at c t')) = k" for c
    using close_creds_closes [OF u assms(3) k] that e unfolding t' by (auto simp: evolves_def)
  have "\<not> live (conn_at d (snd (RoutedConnection x' md t')))"
    using routed_keeps_cut [OF cut k closed] assms(7) by (simp add: RoutedConnection_def)
  then show ?thesis using closed assms(6) cut_write_refused [OF cut k assms(6)] by simp
qed

subsection \<open>Accounting of writes\<close>

text \<open>The heap while a call at \<open>now\<close> serves the state at \<open>a\<close>: after \<open>n\<close> bytes down, it differs
  from the heap before only in that state's download counter.\<close>

definition served :: "nat \<Rightarrow> nat \<Rightarrow> int \<Rightarrow> tracker \<Rightarrow> tracker \<Rightarrow> bool" where
  "served c a n t t' \<longleftrightarrow> tkHeap t' = (tkHeap t)[a := count_traffic 0 n (tkHeap t ! a)] \<and>
     cnState (conn_at c t') = a"

definition servable :: "env \<Rightarrow> nat \<Rightarrow> nat \<Rightarrow> tracker \<Rightarrow> bool" where
  "servable x c a t \<longleftrightarrow> cnState (conn_at c t) = a \<and> a < length (tkHeap t) \<and>
     \<not> period_ended (eNow x) (rsPolicy (tkHeap t ! a)) \<and> billable (rsPolicy (tkHeap t ! a))"

lemma i64_add: "i64 (i64 a + b) = i64 (a + b)"
proof -
  have "(i64 a + (b + 9223372036854775808)) mod two64 = (a + (b + 9223372036854775808)) mod two64"
    by (rule mod_add_cong [OF i64_mod refl])
  then show ?thesis by (simp only: i64_def [of "_ + b"] add.assoc)
qed

lemma add_counter_add: "0 \<le> n \<Longrightarrow> 0 \<le> m \<Longrightarrow> add_counter (add_counter c n) m = add_counter c (n + m)"
  by (auto simp: add_counter_def i64_add add.assoc)

lemma count_traffic_0 [simp]: "count_traffic 0 0 s = s"
  by (simp add: count_traffic_def add_counter_def)

lemma count_traffic_policy [simp]: "rsPolicy (count_traffic u d s) = rsPolicy s"
  by (simp add: count_traffic_def)

lemma count_traffic_add:
  "0 \<le> n \<Longrightarrow> 0 \<le> m \<Longrightarrow> count_traffic 0 m (count_traffic 0 n s) = count_traffic 0 (n + m) s"
  by (simp add: count_traffic_def add_counter_add)

lemma served_0: "servable x c a t \<Longrightarrow> tkHeap t' = tkHeap t \<Longrightarrow> cnState (conn_at c t') = cnState (conn_at c t) \<Longrightarrow> served c a 0 t t'"
  by (simp add: served_def servable_def)

lemma served_servable: "servable x c a t \<Longrightarrow> served c a n t t' \<Longrightarrow> servable x c a t'"
  by (simp add: served_def servable_def)

lemma served_trans:
  assumes "servable x c a t" "served c a n t u" "served c a m u v" "0 \<le> n" "0 \<le> m"
  shows "served c a (n + m) t v"
  using assms by (simp add: served_def servable_def count_traffic_add)

lemma refresh_served: "servable x c a t \<Longrightarrow> served c a 0 t (refresh x a t)"
  by (rule served_0) (auto simp: servable_def refresh_def set_state_def state_at_def currentConfig_open conn_at_def)

lemma conn_deny_served: "servable x c a t \<Longrightarrow> served c a 0 t (snd (conn_deny x c t))"
  using refresh_served [of x c a t] served_0 [of x c a t t]
  by (simp add: conn_deny_def quota_denied_def Let_def servable_def)

lemma close_conn_served: "servable x c a t \<Longrightarrow> served c a 0 t (close_conn x d t)"
proof (rule served_0)
  show "cnState (conn_at c (close_conn x d t)) = cnState (conn_at c t)"
    using close_conn_evolves [of t x d] by (simp add: evolves_def)
qed (simp_all add: close_conn_def unregisterConn_def unregisterPacketConn_def observe_tcp_def Let_def)

lemma close_denied_served:
  assumes "servable x c a t"
  shows "served c a 0 t (close_denied x c t)"
proof -
  have d: "served c a 0 t (snd (conn_deny x c t))" by (rule conn_deny_served [OF assms])
  have "served c a 0 (snd (conn_deny x c t)) (close_conn x c (snd (conn_deny x c t)))"
    by (rule close_conn_served [OF served_servable [OF assms d]])
  from served_trans [OF assms d this] d show ?thesis
    by (cases "conn_deny x c t") (simp add: close_denied_def)
qed

lemma record_activity_served: "servable x c a t \<Longrightarrow> served c a 0 t (record_activity x c u d t)"
proof -
  assume s: "servable x c a t"
  have "served c a 0 t (refresh x a t)" by (rule refresh_served [OF s])
  then have "served c a 0 t ((refresh x a t)\<lparr>tkActivity := z\<rparr>)" for z by (auto simp: served_def conn_at_def)
  then show ?thesis using refresh_served [OF s] served_0 [OF s] s by (simp add: record_activity_def Let_def servable_def)
qed

lemma conn_at_audit: "conn_at c (t\<lparr>tkAudit := z\<rparr>) = conn_at c t"
  by (simp add: conn_at_def)

lemma conn_traffic_served:
  assumes "servable x c a t" "0 \<le> n"
  shows "served c a n t (conn_traffic x c 0 n t)"
proof -
  let ?u = "record_activity x c 0 n t"
  have r: "served c a 0 t ?u" by (rule record_activity_served [OF assms(1)])
  have s: "servable x c a ?u" by (rule served_servable [OF assms(1) r])
  let ?v = "state_traffic x a 0 n ?u"
  have "tkHeap ?v = (tkHeap ?u)[a := count_traffic 0 n (tkHeap ?u ! a)]"
    using s by (simp add: state_traffic_def Let_def servable_def set_state_def state_at_def addTraffic_def currentConfig_open)
  moreover have "conn_at c ?v = conn_at c ?u" by (simp add: state_traffic_def Let_def set_state_def conn_at_def)
  ultimately have "served c a n ?u ?v" using s by (simp add: served_def servable_def)
  from served_trans [OF assms(1) r this] assms(2) have "served c a n t ?v" by simp
  then have "served c a n t (audit_payload x c 0 n ?v)" unfolding served_def audit_payload_def conn_at_audit by simp
  moreover have "cnState (conn_at c t) = a" using assms(1) by (simp add: servable_def)
  ultimately show ?thesis by (simp only: conn_traffic_def)
qed

lemma count_and_check_served:
  assumes "servable x c a t" "0 \<le> n"
  shows "served c a n t (count_and_check x c 0 n t)"
proof -
  note c = conn_traffic_served [OF assms]
  from served_trans [OF assms(1) c close_denied_served [OF served_servable [OF assms(1) c]] assms(2)]
  show ?thesis by (simp add: count_and_check_def)
qed

lemma conn_write_once_served:
  "servable x c a t \<Longrightarrow> 0 \<le> chBytes o1 \<Longrightarrow> conn_write_once x c o1 t = (IO n e, t') \<Longrightarrow> 0 \<le> n \<and> served c a n t t'"
  using count_and_check_served [of x c a t n] served_0 [of x c a t t] by (cases "0 < chBytes o1") auto

text \<open>One chunk, and what follows it.\<close>

lemma chunk_served:
  assumes "servable x c a t" "0 \<le> m" "u = (if 0 < m then conn_traffic x c 0 m t else t)"
  shows "served c a m t u \<and> servable x c a u"
proof -
  have "served c a m t u"
    using conn_traffic_served [OF assms(1,2)] served_0 [OF assms(1)] assms(2,3) by (cases "0 < m") simp_all
  then show ?thesis using served_servable [OF assms(1)] by blast
qed

lemma write_chunks_served:
  assumes "servable x c a t" "\<And>k. 0 \<le> chBytes (io k)" "write_chunks x c len io tot t = (IO n e, t')"
  shows "tot \<le> n \<and> served c a (n - tot) t t'"
  using assms
proof (induction x c len io tot t arbitrary: n e t' rule: write_chunks.induct)
  case (1 x c len io tot t)
  let ?m = "chBytes (io tot)"
  define u where "u = (if 0 < ?m then conn_traffic x c 0 ?m t else t)"
  have u: "served c a ?m t u" "servable x c a u"
    using chunk_served [OF 1(2) 1(3) u_def] by auto
  note run = 1(4) [unfolded write_chunks.simps [of x c len io tot t] Let_def u_def [symmetric]]
  consider "len \<le> tot" | "tot < len" "chWaitFails (io tot)"
    | "tot < len" "\<not> chWaitFails (io tot)" "chFails (io tot) \<or> ?m \<noteq> min rateLimitIOChunk (len - tot)"
    | "tot < len" "\<not> chWaitFails (io tot)" "\<not> chFails (io tot)" "?m = min rateLimitIOChunk (len - tot)" by linarith
  then show ?case
  proof cases
    case 1
    then show ?thesis using run close_denied_served [OF \<open>servable x c a t\<close>] by auto
  next
    case 2
    then show ?thesis using run served_0 [OF \<open>servable x c a t\<close>] by auto
  next
    case 3
    then have "n = tot + ?m \<and> t' = u" using run by (auto split: if_splits)
    then show ?thesis using u(1) 1(3) [of tot] by simp
  next
    case 4
    then have w: "write_chunks x c len io (tot + ?m) u = (IO n e, t')" using run by simp
    have "tot + ?m \<le> n \<and> served c a (n - (tot + ?m)) u t'"
    proof (rule "1.IH" [OF _ refl refl refl _ u_def _ _ u(2) 1(3) w])
    qed (use 4 in simp_all)
    then show ?thesis using served_trans [OF \<open>servable x c a t\<close> u(1), of "n - (tot + ?m)" t'] 1(3) [of tot] by auto
  qed
qed

lemma buffer_chunks_served:
  assumes "servable x c a t" "\<And>k. 0 \<le> chBytes (io k)" "buffer_chunks x c len io tot t = (IO n e, t')"
  shows "tot \<le> n \<and> served c a (n - tot) t t'"
  using assms
proof (induction x c len io tot t arbitrary: n e t' rule: buffer_chunks.induct)
  case (1 x c len io tot t)
  let ?m = "chBytes (io tot)"
  define u where "u = (if 0 < ?m then conn_traffic x c 0 ?m t else t)"
  have u: "served c a ?m t u" "servable x c a u"
    using chunk_served [OF 1(2) 1(3) u_def] by auto
  note run = 1(4) [unfolded buffer_chunks.simps [of x c len io tot t] Let_def u_def [symmetric]]
  consider "chWaitFails (io tot)"
    | "\<not> chWaitFails (io tot)" "len - tot \<le> rateLimitIOChunk"
    | "\<not> chWaitFails (io tot)" "\<not> len - tot \<le> rateLimitIOChunk" "chFails (io tot) \<or> ?m \<noteq> rateLimitIOChunk"
    | "\<not> chWaitFails (io tot)" "\<not> len - tot \<le> rateLimitIOChunk" "\<not> chFails (io tot)" "?m = rateLimitIOChunk" by linarith
  then show ?case
  proof cases
    case 1
    then show ?thesis using run served_0 [OF \<open>servable x c a t\<close>] by auto
  next
    case 2
    then have "n = tot + ?m \<and> t' = close_denied x c u" using run by simp
    then show ?thesis
      using served_trans [OF \<open>servable x c a t\<close> u(1) close_denied_served [OF u(2)]] 1(3) [of tot] by simp
  next
    case 3
    then have "n = tot + ?m \<and> t' = u" using run by (auto split: if_splits)
    then show ?thesis using u(1) 1(3) [of tot] by simp
  next
    case 4
    then have w: "buffer_chunks x c len io (tot + ?m) u = (IO n e, t')" using run by simp
    have "tot + ?m \<le> n \<and> served c a (n - (tot + ?m)) u t'"
    proof (rule "1.IH" [OF refl refl _ u_def _ _ _ u(2) 1(3) w])
    qed (use 4 in simp_all)
    then show ?thesis using served_trans [OF \<open>servable x c a t\<close> u(1), of "n - (tot + ?m)" t'] 1(3) [of tot] by auto
  qed
qed

lemma look_limiter_served: "servable x c a t \<Longrightarrow> served c a 0 t (look_limiter x c t)"
  using refresh_served [of x c a t] by (simp add: look_limiter_def servable_def)

text \<open>What both kinds of write do before the first byte leaves the accounting alone.\<close>

lemma write_prepared:
  assumes "servable x c a t" "u = look_limiter x c (snd (conn_deny x c t))" "served c a n u t'" "0 \<le> n"
  shows "served c a n t t'"
proof -
  note d = conn_deny_served [OF assms(1)]
  note s = served_servable [OF assms(1) d]
  note l = served_trans [OF assms(1) d look_limiter_served [OF s], folded assms(2), simplified]
  from served_trans [OF assms(1) l assms(3)] assms(4) show ?thesis by simp
qed

lemma prepared_servable: "servable x c a t \<Longrightarrow> u = look_limiter x c (snd (conn_deny x c t)) \<Longrightarrow> servable x c a u"
  using served_servable conn_deny_served look_limiter_served by blast

lemma conn_Write_served:
  assumes "servable x c a t" "\<And>k. 0 \<le> chBytes (io k)" "conn_Write x c len io t = (IO n e, t')"
  shows "0 \<le> n \<and> served c a n t t'"
proof -
  define u where "u = look_limiter x c (snd (conn_deny x c t))"
  have s: "servable x c a u" by (rule prepared_servable [OF assms(1) u_def])
  obtain d v where dv: "conn_deny x c t = (d, v)" by force
  then have u: "look_limiter x c v = u" by (simp add: u_def)
  have "\<not> d" using assms(3) by (auto simp: conn_Write_def dv)
  then have "(if \<not> limited c u then conn_write_once x c (io 0) u else write_chunks x c len io 0 u) = (IO n e, t')"
    using assms(3) by (simp add: conn_Write_def dv u Let_def del: conn_write_once.simps split del: if_split)
  then have "0 \<le> n \<and> served c a n u t'"
    using conn_write_once_served [OF s assms(2)] write_chunks_served [OF s assms(2)] by (cases "limited c u") fastforce+
  then show ?thesis using write_prepared [OF assms(1) u_def] by blast
qed

lemma conn_WriteBuffer_served:
  assumes "servable x c a t" "\<And>k. 0 \<le> chBytes (io k)" "conn_WriteBuffer x c len io t = (IO n e, t')"
  shows "0 \<le> n \<and> served c a n t t'"
proof -
  define u where "u = look_limiter x c (snd (conn_deny x c t))"
  have s: "servable x c a u" by (rule prepared_servable [OF assms(1) u_def])
  obtain d v where dv: "conn_deny x c t = (d, v)" by force
  then have u: "look_limiter x c v = u" by (simp add: u_def)
  have "\<not> d" using assms(3) by (auto simp: conn_WriteBuffer_def dv)
  show ?thesis
  proof (cases "len = 0")
    case True
    then show ?thesis using assms(3) \<open>\<not> d\<close> conn_deny_served [OF assms(1)] by (simp add: conn_WriteBuffer_def dv)
  next
    case False
    then have "(if \<not> limited c u then conn_write_once x c (io 0) u else buffer_chunks x c len io 0 u) = (IO n e, t')"
      using assms(3) \<open>\<not> d\<close> by (simp add: conn_WriteBuffer_def dv u Let_def del: conn_write_once.simps split del: if_split)
    then have "0 \<le> n \<and> served c a n u t'"
      using conn_write_once_served [OF s assms(2)] buffer_chunks_served [OF s assms(2)] by (cases "limited c u") fastforce+
    then show ?thesis using write_prepared [OF assms(1) u_def] by blast
  qed
qed


text \<open>C3: The indexes. In every state the tracker reaches, a connection is in the index of its user
  (and of its credential, when it has one) exactly while it is open, and the number of TCP
  connections shown to the socket governor is the number of open ones.\<close>

theorem sessions_indexed:
  "let t = tracker_run ops (newRateLimitTracker x w boot rm); n = conn_at c t in
     (c \<in> set (idx_get (tkActive t) k) \<longleftrightarrow> live n \<and> \<not> cnPacket n \<and> conn_key c t = k) \<and>
     (c \<in> set (idx_get (tkActivePacket t) k) \<longleftrightarrow> live n \<and> cnPacket n \<and> conn_key c t = k) \<and>
     (c \<in> set (idx_get (tkByCred t) k) \<longleftrightarrow> live n \<and> \<not> cnPacket n \<and> idKey (cnIdent n) = k \<and> k \<noteq> []) \<and>
     (c \<in> set (idx_get (tkByCredPacket t) k) \<longleftrightarrow> live n \<and> cnPacket n \<and> idKey (cnIdent n) = k \<and> k \<noteq> []) \<and>
     tkTCP t = int (length (filter (\<lambda>n. live n \<and> \<not> cnPacket n) (tkConns t)))"
proof -
  let ?t = "tracker_run ops (newRateLimitTracker x w boot rm)"
  have "tracker_ok ?t" by (rule tracker_run_ok) (rule newRateLimitTracker_ok)
  then show ?thesis
    unfolding tracker_ok_def Let_def ci.indexed_def by (auto simp: user_key_def cred_key_def opt_key_def live_tcp_def)
qed

subsection \<open>Witnesses\<close>

text \<open>One user with a granted credential, a small traffic limit and one open TCP connection.\<close>

definition ex_env :: env where
  "ex_env = \<lparr>eNow = ex_t, eZones = (\<lambda>_. None), eEp = (\<lambda>n. ''ce''), eProc = (\<lambda>_. True)\<rparr>"

definition ex_ok :: auth_write where
  "ex_ok = \<lparr>awDeny = WOk, awLease = WOk, awWatermark = WOk\<rparr>"

definition ex_policy :: limit where
  "ex_policy = zero_limit\<lparr>qAuthKey := ''alice'', qUser := 7, qBillable := True, qTrafficLimit := 1000, qSpeed := 8\<rparr>"

definition ex_meta :: runtime_meta where
  "ex_meta = \<lparr>rmLease = Some ex_lease, rmAudit = False, rmUsers = [(''alice'', ex_policy)], rmInbounds = []\<rparr>"

definition ex_md :: metadata where
  "ex_md = \<lparr>mdUser = ''alice'', mdInbound = ''in'', mdSource = NoAddr, mdNetwork = ''tcp'', mdGeo = []\<rparr>"

definition ex_ops :: "tracker_op list" where
  "ex_ops = [TRoute ex_env ex_md]"

definition ex_session :: tracker where
  "ex_session = tracker_run ex_ops (newRateLimitTracker ex_env ex_ok ''boot'' ex_meta)"

definition ex_io :: "int \<Rightarrow> chunk_io" where
  "ex_io k = \<lparr>chWaitFails = False, chBytes = (if k = 0 then 65536 else 4), chFails = False\<rparr>"

definition ex_denial :: "(update_error + nat) \<times> tracker" where
  "ex_denial = DenyAuthorization ex_env ex_ok [''alice''] 7 ex_session"

definition ex_reaped :: tracker where
  "ex_reaped = snd (ReapAuthorization ex_env ex_session)"

theorem reap_closes_revoked_witness:
  "live (conn_at 0 ex_reaped) \<and> \<not> conn_revoked ex_env 0 ex_reaped"
proof
  show l: "live (conn_at 0 ex_reaped)" by code_simp
  from reap_closes_revoked [OF ex_session_def ex_reaped_def l] show "\<not> conn_revoked ex_env 0 ex_reaped" .
qed

theorem deny_cuts_off_witness:
  "live (conn_at 0 ex_session) \<and> \<not> live (conn_at 0 (snd ex_denial)) \<and>
   conn_Write ex_env 0 9 ex_io (snd ex_denial) = (QuotaExceeded, snd ex_denial) \<and>
   \<not> live (conn_at 1 (snd (RoutedConnection ex_env ex_md (snd ex_denial))))"
proof -
  have "DenyAuthorization ex_env ex_ok [''alice''] 7 ex_session = (Inr 1, snd ex_denial)" by code_simp
  moreover have "''alice'' \<in> set [''alice'']" "\<not> bad_key ''alice''"
    "gm_len (sDenied (load (tkAuth ex_session))) + length [''alice''] \<le> max_denied_keys"
    "idKey (cnIdent (conn_at 0 (snd ex_denial))) = ''alice''"
    "idKey (cnIdent (conn_at 1 (snd (RoutedConnection ex_env ex_md (snd ex_denial))))) = ''alice''"
    by code_simp+
  moreover have "live (conn_at 0 ex_session)" by code_simp
  ultimately show ?thesis using deny_cuts_off [OF ex_session_def] by blast
qed


definition ex_reject :: install_entry where
  "ex_reject = \<lparr>ueTag = ''in'', ueAuthUser = ''alice'', uePSK = [], ueAuthKey = ''alice'', ueUser = 7, ueInbound = 0,
     uePath = 0, ueDevice = [], ueEpoch = 0, ueStatus = ''reject_new'', uePolicy = ex_policy\<rparr>"

definition ex_over :: tracker where
  "ex_over = tracker_run [TReplace ex_env [ex_reject], TWrite ex_env 0 65540 ex_io] ex_session"

text \<open>A user set to \<^verbatim>\<open>reject_new\<close> is not held to the quota. A write far over the traffic limit closes the
  connection of an active user; after an update to \<^verbatim>\<open>reject_new\<close> the same write leaves it open and the
  next one is served, though the comment on \<^verbatim>\<open>quotaDeniedFor\<close> says exhaustion always denies.\<close>

theorem reject_new_ignores_quota:
  "\<not> live (conn_at 0 (tracker_run [TWrite ex_env 0 65540 ex_io] ex_session)) \<and>
   (let s = state_at 0 ex_over in qTrafficLimit (rsPolicy s) = 1000 \<and> unacknowledged (tkUsages ex_over) s = 65540) \<and>
   live (conn_at 0 ex_over) \<and> fst (conn_Write ex_env 0 65540 ex_io ex_over) = IO 65540 False"
  by code_simp

end
