(* ===== verification/SshCounter.thy ===== *)
theory SshCounter
  imports Quota
begin

text \<open>
  The traffic counters of the agent's own SSH inbounds, \<^verbatim>\<open>sshInboundCounter\<close> in
  \<^verbatim>\<open>internal/agent/ssh_inbounds.go\<close>, with the agent's copy of the billing windows. The agent
  and the kernel share one lease per user; the last section shows that a counter behaves as the
  kernel's runtime state does (theory \<open>Quota\<close>), so that both sides enforce the same quota.

  A call runs at one instant. The usage objects of the users are named by numbers, as in \<open>Quota\<close>.
\<close>

subsection \<open>Policies and windows\<close>

record traffic_policy =
  tpUser :: int
  tpInbound :: int
  tpPath :: int
  tpDevice :: string
  tpEpoch :: int
  tpStatus :: string
  tpBillable :: bool
  tpSpeed :: int
  tpLimit :: int
  tpBaseline :: int
  tpLease :: int
  tpResetLease :: int
  tpLeaseEnforced :: bool
  tpPeriodKey :: string
  tpPeriodStart :: string
  tpPeriodEnd :: string
  tpResetMode :: string
  tpResetDay :: int
  tpAnchor :: string
  tpPrevPeriod :: string
  tpZone :: string
  tpQuota :: string
  tpRevision :: int

definition no_policy :: traffic_policy where
  "no_policy = \<lparr>tpUser = 0, tpInbound = 0, tpPath = 0, tpDevice = [], tpEpoch = 0, tpStatus = [], tpBillable = False,
     tpSpeed = 0, tpLimit = 0, tpBaseline = 0, tpLease = 0, tpResetLease = 0, tpLeaseEnforced = False, tpPeriodKey = [],
     tpPeriodStart = [], tpPeriodEnd = [], tpResetMode = [], tpResetDay = 0, tpAnchor = [], tpPrevPeriod = [],
     tpZone = [], tpQuota = [], tpRevision = 0\<rparr>"

definition trafficPolicyExpired :: "traffic_policy \<Rightarrow> instant \<Rightarrow> bool" where
  "trafficPolicyExpired p now \<longleftrightarrow> tpPeriodEnd p \<noteq> [] \<and> period_over now (parse_rfc3339 (tpPeriodEnd p))"

definition agentClampedMonthDay :: "int \<Rightarrow> int \<Rightarrow> int \<Rightarrow> int" where
  "agentClampedMonthDay year month day = clamp_to day (date_in utc (go_date year (month + 1) 0 0 0 utc))"

fun agent_clamped_date :: "int \<Rightarrow> int \<Rightarrow> int \<Rightarrow> location \<Rightarrow> int \<times> int \<times> int \<Rightarrow> instant" where
  "agent_clamped_date day sec ns loc (y, m, _) = go_date y m (agentClampedMonthDay y m day) sec ns loc"

definition agentAnniversaryBoundary :: "instant \<Rightarrow> int \<Rightarrow> location \<Rightarrow> instant" where
  "agentAnniversaryBoundary anchor months loc =
     agent_clamped_date (day_of (date_in loc anchor)) (clock_in loc anchor) (nsec_of anchor) loc
       (date_in loc (months_after months (clock_in loc anchor) (nsec_of anchor) loc (date_in loc anchor)))"

definition agent_anniversary_from :: "instant \<Rightarrow> instant \<Rightarrow> location \<Rightarrow> int \<Rightarrow> instant \<times> instant" where
  "agent_anniversary_from now anchor loc months =
     (let start = agentAnniversaryBoundary anchor months loc in
      if now < start
      then (agentAnniversaryBoundary anchor (months - 1) loc, agentAnniversaryBoundary anchor (months - 1 + 1) loc)
      else (start, agentAnniversaryBoundary anchor (months + 1) loc))"

definition agentAnniversaryWindow :: "instant \<Rightarrow> instant \<Rightarrow> location \<Rightarrow> instant \<times> instant" where
  "agentAnniversaryWindow now anchor loc =
     (if now < anchor then (anchor, agentAnniversaryBoundary anchor 1 loc)
      else agent_anniversary_from now anchor loc (month_count (date_in loc now) (date_in loc anchor)))"

definition agent_month_day :: "instant \<Rightarrow> int \<Rightarrow> location \<Rightarrow> string \<times> instant \<times> instant" where
  "agent_month_day now day loc =
     (let start0 = agent_clamped_date day 0 0 loc (date_in loc now);
          start = (if now < start0 then agent_clamped_date day 0 0 loc (date_in loc (add_date loc start0 0 (- 1) 0)) else start0)
      in (format_date (date_in loc start), start,
          agent_clamped_date day 0 0 loc (date_in loc (add_date loc start 0 1 0))))"

text \<open>\<^verbatim>\<open>agentTrafficWindow\<close>; a nil location is the default zone.\<close>

definition agentTrafficWindow :: "instant \<Rightarrow> string \<Rightarrow> int \<Rightarrow> instant \<Rightarrow> location option \<Rightarrow> string \<times> instant \<times> instant" where
  "agentTrafficWindow now mode day anchor0 zone =
     (let loc = zone_or_default zone; anchor = (if anchor0 = zero_time then now else anchor0);
          d = (if day < 1 then 1 else if 31 < day then 31 else day) in
      if mode = ''never'' then (format_rfc3339 anchor, anchor, go_date 9999 12 31 86399 0 loc)
      else if mode = ''anniversary_month'' then anniversary_key (agentAnniversaryWindow now anchor loc)
      else if mode \<noteq> ''month_day'' then natural_from loc (months_after 0 0 0 loc (date_in loc now))
      else agent_month_day now d loc)"

subsection \<open>Counters\<close>

record ssh_period =
  spUp :: int
  spDown :: int
  spAckUp :: int
  spAckDown :: int

definition zero_ssh_period :: ssh_period where
  "zero_ssh_period = \<lparr>spUp = 0, spDown = 0, spAckUp = 0, spAckDown = 0\<rparr>"

type_synonym ssh_usages = "(nat, (string, ssh_period) gomap) gomap"

record ssh_counter =
  scEpoch :: string
  scPolicy :: traffic_policy
  scUp :: int
  scDown :: int
  scAckUp :: int
  scAckDown :: int
  scUsage :: "nat option"

definition new_ssh_counter :: "string \<Rightarrow> nat option \<Rightarrow> ssh_counter" where
  "new_ssh_counter ep u = \<lparr>scEpoch = ep, scPolicy = no_policy, scUp = 0, scDown = 0, scAckUp = 0, scAckDown = 0, scUsage = u\<rparr>"

definition resetCountersLocked :: "string \<Rightarrow> ssh_counter \<Rightarrow> ssh_counter" where
  "resetCountersLocked ep c = c\<lparr>scEpoch := ep, scUp := 0, scDown := 0, scAckUp := 0, scAckDown := 0\<rparr>"

definition setPolicy :: "string \<Rightarrow> traffic_policy \<Rightarrow> ssh_counter \<Rightarrow> ssh_counter" where
  "setPolicy ep p c =
     (let prev = scPolicy c;
          changed = (tpPeriodKey prev \<noteq> [] \<and> tpPeriodKey p \<noteq> [] \<and> tpPeriodKey prev \<noteq> tpPeriodKey p);
          c1 = (if changed \<and> (tpPrevPeriod p = [] \<or> tpPrevPeriod p \<noteq> tpPeriodKey prev) then resetCountersLocked ep c else c)
      in c1\<lparr>scPolicy := p\<rparr>)"

definition agent_zone :: "(string \<Rightarrow> location option) \<Rightarrow> traffic_policy \<Rightarrow> location option" where
  "agent_zone zones p = (if tpZone p \<noteq> [] then zones (tpZone p) else None)"

definition agent_anchor :: "traffic_policy \<Rightarrow> instant" where
  "agent_anchor p = (if tpAnchor p \<noteq> [] then instant_or_zero (parse_rfc3339 (tpAnchor p)) else zero_time)"

fun roll_counter :: "string \<Rightarrow> ssh_counter \<Rightarrow> string \<times> instant \<times> instant \<Rightarrow> ssh_counter" where
  "roll_counter ep c (key, start, end) =
     (let p = scPolicy c;
          c1 = (if tpPeriodKey p \<noteq> key \<and> (tpPrevPeriod p = [] \<or> tpPrevPeriod p \<noteq> tpPeriodKey p)
                then resetCountersLocked ep c else c)
      in c1\<lparr>scPolicy := p\<lparr>tpPeriodKey := key, tpPeriodStart := format_rfc3339 start, tpPeriodEnd := format_rfc3339 end,
           tpBaseline := 0, tpLease := (if tpLeaseEnforced p then tpResetLease p else tpLease p), tpQuota := ''active''\<rparr>\<rparr>)"

definition agent_window :: "(string \<Rightarrow> location option) \<Rightarrow> instant \<Rightarrow> traffic_policy \<Rightarrow> string \<times> instant \<times> instant" where
  "agent_window zones now p = agentTrafficWindow now (tpResetMode p) (tpResetDay p) (agent_anchor p) (agent_zone zones p)"

text \<open>\<^verbatim>\<open>currentPolicy\<close>: the counter with its period rolled over if it has ended.\<close>

definition currentPolicy :: "(string \<Rightarrow> location option) \<Rightarrow> instant \<Rightarrow> string \<Rightarrow> ssh_counter \<Rightarrow> ssh_counter" where
  "currentPolicy zones now ep c =
     (if trafficPolicyExpired (scPolicy c) now then roll_counter ep c (agent_window zones now (scPolicy c)) else c)"

text \<open>\<^verbatim>\<open>sshInboundUserUsage.period\<close>: a missing period reads as zero.\<close>

definition ssh_get_period :: "nat \<Rightarrow> string \<Rightarrow> ssh_usages \<Rightarrow> ssh_period" where
  "ssh_get_period u key us = the_default zero_ssh_period (gm_get (the_default [] (gm_get us u)) key)"

definition ssh_put_period :: "nat \<Rightarrow> string \<Rightarrow> ssh_period \<Rightarrow> ssh_usages \<Rightarrow> ssh_usages" where
  "ssh_put_period u key p us = gm_put u (gm_put key p (the_default [] (gm_get us u))) us"

definition positiveDifference :: "int \<Rightarrow> int \<Rightarrow> int" where
  "positiveDifference tot acked = (if tot \<le> acked then 0 else i64 (tot - acked))"

definition ssh_period_unacknowledged :: "ssh_period \<Rightarrow> int" where
  "ssh_period_unacknowledged p = i64 (positiveDifference (spUp p) (spAckUp p) + positiveDifference (spDown p) (spAckDown p))"

fun ssh_unacknowledged :: "nat option \<Rightarrow> string \<Rightarrow> ssh_usages \<Rightarrow> ssh_counter \<Rightarrow> int" where
  "ssh_unacknowledged (Some u) key us c = ssh_period_unacknowledged (ssh_get_period u key us)"
| "ssh_unacknowledged None key us c =
     i64 (positiveDifference (scUp c) (scAckUp c) + positiveDifference (scDown c) (scAckDown c))"

definition ssh_cap :: "traffic_policy \<Rightarrow> int" where
  "ssh_cap p = (if tpLeaseEnforced p
     then let lease = (if tpLease p < 0 then 0 else tpLease p); leaseCap = i64 (tpBaseline p + lease)
          in if leaseCap < tpLimit p then leaseCap else tpLimit p
     else tpLimit p)"

definition ssh_over :: "ssh_usages \<Rightarrow> ssh_counter \<Rightarrow> bool" where
  "ssh_over us c =
     (let p = scPolicy c in
      if tpQuota p = ''quota_exceeded'' then True
      else if tpLimit p \<le> 0 then False
      else ssh_cap p \<le> i64 (tpBaseline p + ssh_unacknowledged (scUsage c) (tpPeriodKey p) us c))"

definition quotaExceeded :: "(string \<Rightarrow> location option) \<Rightarrow> instant \<Rightarrow> string \<Rightarrow> ssh_usages \<Rightarrow> ssh_counter \<Rightarrow> bool \<times> ssh_counter" where
  "quotaExceeded zones now ep us c = (let c1 = currentPolicy zones now ep c in (ssh_over us c1, c1))"

definition ssh_count :: "bool \<Rightarrow> int \<Rightarrow> ssh_counter \<Rightarrow> ssh_counter" where
  "ssh_count upload n c = (if upload then c\<lparr>scUp := i64 (scUp c + n)\<rparr> else c\<lparr>scDown := i64 (scDown c + n)\<rparr>)"

fun ssh_count_usage :: "nat option \<Rightarrow> string \<Rightarrow> bool \<Rightarrow> int \<Rightarrow> ssh_usages \<Rightarrow> ssh_usages" where
  "ssh_count_usage None key upload n us = us"
| "ssh_count_usage (Some u) key upload n us =
     (let p = ssh_get_period u key us in
      ssh_put_period u key (if upload then p\<lparr>spUp := i64 (spUp p + n)\<rparr> else p\<lparr>spDown := i64 (spDown p + n)\<rparr>) us)"

text \<open>\<^verbatim>\<open>sshInboundCounter.addTraffic\<close>.\<close>

definition ssh_addTraffic :: "(string \<Rightarrow> location option) \<Rightarrow> instant \<Rightarrow> string \<Rightarrow> bool \<Rightarrow> int \<Rightarrow>
    ssh_usages \<times> ssh_counter \<Rightarrow> ssh_usages \<times> ssh_counter" where
  "ssh_addTraffic zones now ep upload n w =
     (if n \<le> 0 then w
      else let c = currentPolicy zones now ep (snd w)
           in (ssh_count_usage (scUsage c) (tpPeriodKey (scPolicy c)) upload n (fst w), ssh_count upload n c))"

text \<open>\<^verbatim>\<open>sshInboundCounter.acknowledge\<close>.\<close>

definition ssh_acked :: "int \<Rightarrow> int \<Rightarrow> int \<Rightarrow> int" where
  "ssh_acked reported counted previous =
     (let v = (if reported < counted then reported else counted); v = (if v < 0 then 0 else v)
      in if v < previous then previous else v)"

fun ssh_ack_usage :: "nat option \<Rightarrow> string \<Rightarrow> int \<Rightarrow> int \<Rightarrow> ssh_usages \<Rightarrow> ssh_usages" where
  "ssh_ack_usage None key up down us = us"
| "ssh_ack_usage (Some u) key up down us =
     (let p = ssh_get_period u key us in
      ssh_put_period u key (p\<lparr>spAckUp := i64 (spAckUp p + up), spAckDown := i64 (spAckDown p + down)\<rparr>) us)"

definition ssh_acknowledge :: "checkpoint \<Rightarrow> ssh_usages \<times> ssh_counter \<Rightarrow> ssh_usages \<times> ssh_counter" where
  "ssh_acknowledge k w =
     (let us = fst w; c = snd w in
      if kpPeriod k = [] then w
      else if tpPeriodKey (scPolicy c) \<noteq> kpPeriod k then w
      else if kpEpoch k \<noteq> [] \<and> kpEpoch k \<noteq> scEpoch c then w
      else let up = ssh_acked (kpUp k) (scUp c) (scAckUp c); down = ssh_acked (kpDown k) (scDown c) (scAckDown c)
           in (ssh_ack_usage (scUsage c) (kpPeriod k) (i64 (up - scAckUp c)) (i64 (down - scAckDown c)) us,
               c\<lparr>scAckUp := up, scAckDown := down\<rparr>))"

subsection \<open>The kernel's view of a counter\<close>

definition kernel_policy :: "traffic_policy \<Rightarrow> limit" where
  "kernel_policy p = zero_limit\<lparr>qUser := tpUser p, qInbound := tpInbound p, qPath := tpPath p, qDevice := tpDevice p,
     qEpoch := tpEpoch p, qStatus := ''active'', qBillable := True, qSpeed := tpSpeed p, qTrafficLimit := tpLimit p,
     qBaseline := tpBaseline p, qLease := tpLease p, qResetLease := tpResetLease p, qLeaseEnforced := tpLeaseEnforced p,
     qPeriodKey := tpPeriodKey p, qPeriodStart := tpPeriodStart p, qPeriodEnd := tpPeriodEnd p, qResetMode := tpResetMode p,
     qResetDay := tpResetDay p, qAnchor := tpAnchor p, qPrevPeriod := tpPrevPeriod p, qZone := tpZone p, qQuota := tpQuota p\<rparr>"

definition kernel_state :: "string \<Rightarrow> ssh_counter \<Rightarrow> rt_state" where
  "kernel_state key c = \<lparr>rsKey = key, rsUser = [], rsInbound = [], rsPolicy = kernel_policy (scPolicy c),
     rsLimiter = newRuntimeLimiters (kernel_policy (scPolicy c)),
     rsCounters = \<lparr>ctEpoch = scEpoch c, ctUp = scUp c, ctDown = scDown c, ctAckUp = scAckUp c, ctAckDown = scAckDown c\<rparr>,
     rsUsage = scUsage c\<rparr>"

definition kernel_period :: "ssh_period \<Rightarrow> usage_period" where
  "kernel_period p = \<lparr>upUp = spUp p, upDown = spDown p, upAckUp = spAckUp p, upAckDown = spAckDown p\<rparr>"

definition kernel_usages :: "ssh_usages \<Rightarrow> usages" where
  "kernel_usages us = map (map_prod id (map (map_prod id kernel_period))) us"

lemma gm_get_map: "gm_get (map (map_prod id f) m) k = map_option f (gm_get m k)"
  by (induction m) auto

lemma gm_put_map: "gm_put k (f v) (map (map_prod id f) m) = map (map_prod id f) (gm_put k v m)"
  by (induction m) auto

lemma kernel_get_period: "get_period u key (kernel_usages us) = kernel_period (ssh_get_period u key us)"
  by (auto simp: get_period_def get_usage_def ssh_get_period_def kernel_usages_def gm_get_map zero_period_def
      zero_ssh_period_def kernel_period_def split: option.splits)

lemma kernel_put_period: "put_period u key (kernel_period p) (kernel_usages us) = kernel_usages (ssh_put_period u key p us)"
proof -
  have "get_usage u (kernel_usages us) = map (map_prod id kernel_period) (the_default [] (gm_get us u))"
    by (auto simp: get_usage_def kernel_usages_def gm_get_map split: option.splits)
  then show ?thesis by (simp add: put_period_def ssh_put_period_def gm_put_map kernel_usages_def)
qed

subsection \<open>The same windows\<close>

lemma agent_clamped_date: "agent_clamped_date day sec ns loc d = clamped_date day sec ns loc d"
  by (cases d) (simp add: agentClampedMonthDay_def runtimeClampedMonthDay_def)

lemma agentAnniversaryWindow: "agentAnniversaryWindow now anchor loc = runtimeAnniversaryWindow now anchor loc"
proof -
  have "agentAnniversaryBoundary a k loc = runtimeAnniversaryBoundary a k loc" for a k
    by (simp add: agentAnniversaryBoundary_def runtimeAnniversaryBoundary_def agent_clamped_date)
  then show ?thesis
    by (simp add: agentAnniversaryWindow_def runtimeAnniversaryWindow_def agent_anniversary_from_def anniversary_from_def Let_def)
qed

lemma agentTrafficWindow: "agentTrafficWindow now mode day anchor zone = runtimeTrafficWindow now mode day anchor (zone_or_default zone)"
  by (simp add: agentTrafficWindow_def runtimeTrafficWindow_def Let_def agentAnniversaryWindow agent_month_day_def
      month_day_from_def month_day_start_def agent_clamped_date clamp_reset_day_def del: months_after.simps)

lemma kernel_policy_sel [simp]:
  "qUser (kernel_policy p) = tpUser p" "qBillable (kernel_policy p)" "qPeriodKey (kernel_policy p) = tpPeriodKey p"
  "qPrevPeriod (kernel_policy p) = tpPrevPeriod p" "qPeriodEnd (kernel_policy p) = tpPeriodEnd p"
  "qQuota (kernel_policy p) = tpQuota p" "qTrafficLimit (kernel_policy p) = tpLimit p" "qBaseline (kernel_policy p) = tpBaseline p"
  "qLease (kernel_policy p) = tpLease p" "qLeaseEnforced (kernel_policy p) = tpLeaseEnforced p" "qStatus (kernel_policy p) = ''active''"
  "qResetMode (kernel_policy p) = tpResetMode p" "qResetDay (kernel_policy p) = tpResetDay p"
  "qSpeed (kernel_policy p) = tpSpeed p" "qResetLease (kernel_policy p) = tpResetLease p"
  by (simp_all add: kernel_policy_def)

lemma kernel_window:
  "runtimeTrafficWindow now (tpResetMode p) (tpResetDay p) (policy_anchor (kernel_policy p)) (policy_zone zones (kernel_policy p))
   = agent_window zones now p"
proof -
  have "policy_anchor (kernel_policy p) = agent_anchor p" by (simp add: policy_anchor_def agent_anchor_def kernel_policy_def)
  moreover have "policy_zone zones (kernel_policy p) = zone_or_default (agent_zone zones p)"
    by (simp add: policy_zone_def agent_zone_def kernel_policy_def)
  ultimately show ?thesis by (simp add: agent_window_def agentTrafficWindow)
qed

subsection \<open>Simulation\<close>

text \<open>The two sides differ in one corner: the kernel starts a new counter epoch at every rollover, the
  agent only when the period key changes. A window whose key is new avoids it.\<close>

definition rolls_on :: "(string \<Rightarrow> location option) \<Rightarrow> instant \<Rightarrow> ssh_counter \<Rightarrow> bool" where
  "rolls_on zones now c = (trafficPolicyExpired (scPolicy c) now \<longrightarrow> fst (agent_window zones now (scPolicy c)) \<noteq> tpPeriodKey (scPolicy c))"

lemma kernel_setPolicy: "updatePolicy ep (kernel_policy p) (kernel_state key c) = kernel_state key (setPolicy ep p c)"
  by (simp add: updatePolicy_def setPolicy_def storePolicy_def kernel_state_def resetCountersLocked_def new_counters_def Let_def)

lemma kernel_roll:
  "w = (k, st, en) \<Longrightarrow> roll_policy (kernel_policy (scPolicy c)) w = kernel_policy (scPolicy (roll_counter ep c w))"
  by (simp add: Let_def resetCountersLocked_def kernel_policy_def)

lemma kernel_currentPolicy:
  assumes "rolls_on zones now c"
  shows "currentConfig zones now ep (kernel_state key c) = kernel_state key (currentPolicy zones now ep c)"
proof (cases "trafficPolicyExpired (scPolicy c) now")
  case True
  obtain k st en where w: "agent_window zones now (scPolicy c) = (k, st, en)" by (cases "agent_window zones now (scPolicy c)")
  have k: "k \<noteq> tpPeriodKey (scPolicy c)" using assms True w by (simp add: rolls_on_def)
  have "newRuntimeLimiters (kernel_policy (scPolicy (roll_counter ep c (k, st, en)))) = newRuntimeLimiters (kernel_policy (scPolicy c))"
    by (simp add: newRuntimeLimiters_def Let_def)
  then show ?thesis using True k kernel_roll [OF w, of c ep]
    by (simp add: currentConfig_def currentPolicy_def period_ended_def trafficPolicyExpired_def kernel_state_def
        kernel_window w storePolicy_def new_counters_def resetCountersLocked_def Let_def)
next
  case False
  then have "\<not> period_ended now (rsPolicy (kernel_state key c))"
    by (simp add: period_ended_def trafficPolicyExpired_def kernel_state_def)
  then show ?thesis using False by (simp add: currentConfig_open currentPolicy_def)
qed

lemma kernel_over:
  assumes "0 < tpUser (scPolicy c)"
  shows "runtimeConfigDenied (rsPolicy (kernel_state key c)) (unacknowledged (kernel_usages us) (kernel_state key c)) = ssh_over us c"
proof -
  have st: "normalizeCredentialStatus ''active'' = ''active''" by code_simp
  have diff: "runtimePositiveDifference a b = positiveDifference a b" for a b
    by (simp add: runtimePositiveDifference_def positiveDifference_def)
  have un: "unacknowledged (kernel_usages us) (kernel_state key c) = ssh_unacknowledged (scUsage c) (tpPeriodKey (scPolicy c)) us c"
    by (cases "scUsage c") (simp_all add: unacknowledged_def kernel_state_def kernel_get_period counters_unacknowledged_def
        period_unacknowledged_def ssh_period_unacknowledged_def kernel_period_def diff)
  have cap: "0 < tpLimit (scPolicy c) \<Longrightarrow> runtimeEffectiveCap (kernel_policy (scPolicy c)) = ssh_cap (scPolicy c)"
    by (auto simp: runtimeEffectiveCap_def ssh_cap_def Let_def min_def max_def)
  show ?thesis unfolding un using assms cap
    by (simp add: runtimeConfigDenied_def ssh_over_def kernel_state_def st billable_def Let_def)
qed

lemma kernel_addTraffic:
  assumes "rolls_on zones now c" "0 < n" "0 < tpUser (scPolicy c)"
  shows "addTraffic zones now ep (if up then n else 0) (if up then 0 else n) (kernel_usages us, kernel_state key c)
    = map_prod kernel_usages (kernel_state key) (ssh_addTraffic zones now ep up n (us, c))"
proof -
  define d where "d = currentPolicy zones now ep c"
  have "tpUser (scPolicy d) = tpUser (scPolicy c)"
    by (cases "agent_window zones now (scPolicy c)") (simp add: d_def currentPolicy_def Let_def resetCountersLocked_def)
  then have b: "billable (rsPolicy (kernel_state key d))" using assms(3) by (simp add: billable_def kernel_state_def)
  have u: "add_usage (scUsage d) k (if up then n else 0) (if up then 0 else n) (kernel_usages us)
      = kernel_usages (ssh_count_usage (scUsage d) k up n us)" for k
  proof (cases "scUsage d")
    case (Some u)
    let ?p = "ssh_get_period u k us"
    have "(kernel_period ?p)\<lparr>upUp := add_counter (upUp (kernel_period ?p)) (if up then n else 0),
        upDown := add_counter (upDown (kernel_period ?p)) (if up then 0 else n)\<rparr>
      = kernel_period (if up then ?p\<lparr>spUp := i64 (spUp ?p + n)\<rparr> else ?p\<lparr>spDown := i64 (spDown ?p + n)\<rparr>)"
      using assms(2) by (simp add: kernel_period_def add_counter_def)
    then show ?thesis using Some by (simp add: Let_def kernel_get_period kernel_put_period)
  qed simp
  have "count_traffic (if up then n else 0) (if up then 0 else n) (kernel_state key d) = kernel_state key (ssh_count up n d)"
    using assms(2) by (simp add: count_traffic_def kernel_state_def ssh_count_def add_counter_def)
  then show ?thesis using assms(2) b u
    unfolding addTraffic_def ssh_addTraffic_def fst_conv snd_conv kernel_currentPolicy [OF assms(1)] Let_def d_def [symmetric]
    by (simp split del: if_split) (simp add: kernel_state_def)
qed

lemma kernel_acknowledge:
  "acknowledge k (kernel_usages us, kernel_state key c) = map_prod kernel_usages (kernel_state key) (ssh_acknowledge k (us, c))"
proof -
  have a: "acked_total r n q = ssh_acked r n q" for r n q
    by (simp add: acked_total_def ssh_acked_def Let_def min_def max_def)
  have u: "ack_usage uo kk up dn (kernel_usages us) = kernel_usages (ssh_ack_usage uo kk up dn us)" for uo kk up dn
  proof (cases uo)
    case (Some u)
    let ?p = "ssh_get_period u kk us"
    have "(kernel_period ?p)\<lparr>upAckUp := i64 (upAckUp (kernel_period ?p) + up), upAckDown := i64 (upAckDown (kernel_period ?p) + dn)\<rparr>
      = kernel_period (?p\<lparr>spAckUp := i64 (spAckUp ?p + up), spAckDown := i64 (spAckDown ?p + dn)\<rparr>)"
      by (simp add: kernel_period_def)
    then show ?thesis using Some by (simp add: Let_def kernel_get_period kernel_put_period)
  qed simp
  show ?thesis by (simp add: acknowledge_def ssh_acknowledge_def Let_def kernel_state_def a u)
qed

subsection \<open>Histories\<close>

datatype ssh_op = SPolicy string traffic_policy | SAdd instant string bool int | SAck checkpoint | SCheck instant string

fun ssh_step :: "(string \<Rightarrow> location option) \<Rightarrow> ssh_op \<Rightarrow> ssh_usages \<times> ssh_counter \<Rightarrow> ssh_usages \<times> ssh_counter" where
  "ssh_step zones (SPolicy ep p) w = (fst w, setPolicy ep p (snd w))"
| "ssh_step zones (SAdd now ep up n) w = ssh_addTraffic zones now ep up n w"
| "ssh_step zones (SAck k) w = ssh_acknowledge k w"
| "ssh_step zones (SCheck now ep) w = (fst w, snd (quotaExceeded zones now ep (fst w) (snd w)))"

text \<open>The same calls on a runtime state of the kernel, which is told of a transfer only when bytes moved.\<close>

fun kernel_step :: "(string \<Rightarrow> location option) \<Rightarrow> ssh_op \<Rightarrow> usages \<times> rt_state \<Rightarrow> usages \<times> rt_state" where
  "kernel_step zones (SPolicy ep p) w = (fst w, updatePolicy ep (kernel_policy p) (snd w))"
| "kernel_step zones (SAdd now ep up n) w =
     (if n \<le> 0 then w else addTraffic zones now ep (if up then n else 0) (if up then 0 else n) w)"
| "kernel_step zones (SAck k) w = acknowledge k w"
| "kernel_step zones (SCheck now ep) w = (fst w, currentConfig zones now ep (snd w))"

fun plain_step :: "(string \<Rightarrow> location option) \<Rightarrow> ssh_op \<Rightarrow> ssh_counter \<Rightarrow> bool" where
  "plain_step zones (SPolicy ep p) c = (0 < tpUser p)"
| "plain_step zones (SAdd now ep up n) c = rolls_on zones now c"
| "plain_step zones (SAck k) c = True"
| "plain_step zones (SCheck now ep) c = rolls_on zones now c"

fun plain_run :: "(string \<Rightarrow> location option) \<Rightarrow> ssh_op list \<Rightarrow> ssh_usages \<times> ssh_counter \<Rightarrow> bool" where
  "plain_run zones [] w = True"
| "plain_run zones (op # ops) w = (plain_step zones op (snd w) \<and> plain_run zones ops (ssh_step zones op w))"

lemma roll_user: "tpUser (scPolicy (currentPolicy zones now ep c)) = tpUser (scPolicy c)"
  by (cases "agent_window zones now (scPolicy c)") (simp add: currentPolicy_def Let_def resetCountersLocked_def)

lemma ssh_step_user:
  "0 < tpUser (scPolicy (snd w)) \<Longrightarrow> plain_step zones op (snd w) \<Longrightarrow> 0 < tpUser (scPolicy (snd (ssh_step zones op w)))"
  by (cases op) (auto simp: setPolicy_def ssh_addTraffic_def ssh_count_def ssh_acknowledge_def quotaExceeded_def roll_user Let_def)

lemma kernel_simulates_step:
  assumes "0 < tpUser (scPolicy (snd w))" "plain_step zones op (snd w)"
  shows "kernel_step zones op (map_prod kernel_usages (kernel_state key) w) = map_prod kernel_usages (kernel_state key) (ssh_step zones op w)"
proof (cases w)
  case (Pair us c)
  show ?thesis
  proof (cases op)
    case (SAdd now ep up n)
    then show ?thesis using assms kernel_addTraffic [of zones now c n ep up us key] Pair
      by (cases "n \<le> 0") (simp_all add: ssh_addTraffic_def)
  qed (use assms Pair in \<open>simp_all add: kernel_setPolicy kernel_acknowledge kernel_currentPolicy quotaExceeded_def Let_def\<close>)
qed

text \<open>C7: The agent's SSH counters refine the kernel's quota. On every history in which a rolled-over
  window has a new key, the counter with its usages, seen as a runtime state of the kernel, is
  what the kernel computes from the same calls, and both give the same quota verdict.\<close>

theorem ssh_counter_refines_kernel:
  assumes "0 < tpUser (scPolicy (snd w))" "plain_run zones ops w"
    and "w' = fold (ssh_step zones) ops w" "rolls_on zones now (snd w')"
  shows "fold (kernel_step zones) ops (map_prod kernel_usages (kernel_state key) w) = map_prod kernel_usages (kernel_state key) w'
    \<and> (let s = currentConfig zones now ep (kernel_state key (snd w')) in
        quotaDeniedFor (kernel_usages (fst w')) admitted s = fst (quotaExceeded zones now ep (fst w') (snd w')))"
proof -
  have st: "normalizeCredentialStatus ''active'' = ''active''" by code_simp
  have run: "fold (kernel_step zones) ops (map_prod kernel_usages (kernel_state key) w) = map_prod kernel_usages (kernel_state key) w'
      \<and> 0 < tpUser (scPolicy (snd w'))"
    using assms(1-3)
  proof (induction ops arbitrary: w)
    case (Cons op ops)
    then show ?case using kernel_simulates_step [of w zones op key] ssh_step_user [of w zones op] by simp
  qed simp
  let ?c = "currentPolicy zones now ep (snd w')"
  have "0 < tpUser (scPolicy ?c)" using run by (simp add: roll_user)
  from kernel_over [OF this, of key "fst w'"] have "quotaDeniedFor (kernel_usages (fst w')) admitted (kernel_state key ?c) = ssh_over (fst w') ?c"
    by (simp add: quotaDeniedFor_def kernel_state_def st)
  then show ?thesis using run by (simp add: kernel_currentPolicy [OF assms(4)] quotaExceeded_def Let_def)
qed

definition ex_ssh_policy :: traffic_policy where
  "ex_ssh_policy = no_policy\<lparr>tpUser := 7, tpLimit := 1000, tpLease := 50, tpResetLease := 20, tpLeaseEnforced := True,
     tpPeriodKey := ''2026-07-01'', tpPeriodEnd := ''2026-07-31T16:00:00Z'', tpResetMode := ''natural_month''\<rparr>"

definition ex_ssh_start :: "ssh_usages \<times> ssh_counter" where
  "ex_ssh_start = ([(0, [])], setPolicy ''e0'' ex_ssh_policy (new_ssh_counter ''e0'' (Some 0)))"

text \<open>Bytes in July, an acknowledgement, and bytes in August that spend the lease of the new period.\<close>

definition ex_ssh_ops :: "ssh_op list" where
  "ex_ssh_ops = [SAdd (secs 1784000000) ''e1'' True 30, SAck \<lparr>kpEpoch = ''e0'', kpPeriod = ''2026-07-01'', kpUp = 10, kpDown = 0\<rparr>,
     SCheck (secs 1784000001) ''e2'', SAdd (secs 1786000000) ''e3'' False 25]"

definition ex_ssh_end :: "ssh_usages \<times> ssh_counter" where
  "ex_ssh_end = fold (ssh_step (\<lambda>_. None)) ex_ssh_ops ex_ssh_start"

theorem ssh_counter_refines_kernel_witness:
  "fold (kernel_step (\<lambda>_. None)) ex_ssh_ops (map_prod kernel_usages (kernel_state ''k'') ex_ssh_start)
     = map_prod kernel_usages (kernel_state ''k'') ex_ssh_end
   \<and> quotaDeniedFor (kernel_usages (fst ex_ssh_end)) True
       (currentConfig (\<lambda>_. None) (secs 1786000001) ''e4'' (kernel_state ''k'' (snd ex_ssh_end)))"
proof -
  have a: "0 < tpUser (scPolicy (snd ex_ssh_start))" by code_simp
  have b: "plain_run (\<lambda>_. None) ex_ssh_ops ex_ssh_start" by code_simp
  have c: "rolls_on (\<lambda>_. None) (secs 1786000001) (snd ex_ssh_end)" by code_simp
  have "fst (quotaExceeded (\<lambda>_. None) (secs 1786000001) ''e4'' (fst ex_ssh_end) (snd ex_ssh_end))" by code_simp
  with ssh_counter_refines_kernel [OF a b ex_ssh_end_def c, of "''k''" "''e4''" True] show ?thesis by (simp add: Let_def)
qed

text \<open>The corner the refinement leaves out: a policy that ends inside its own window. The kernel drops
  its counters and starts a new epoch under the same period key, the agent keeps them.\<close>

definition ex_early :: ssh_counter where
  "ex_early = snd (ssh_addTraffic (\<lambda>_. None) (secs 1784000000) ''e1'' True 30
     ([], setPolicy ''e0'' (ex_ssh_policy\<lparr>tpPeriodEnd := ''2026-07-15T00:00:00Z''\<rparr>) (new_ssh_counter ''e0'' None)))"

lemma same_key_rollover_differs:
  "let c = currentPolicy (\<lambda>_. None) (secs 1785000000) ''e2'' ex_early;
       s = currentConfig (\<lambda>_. None) (secs 1785000000) ''e2'' (kernel_state ''k'' ex_early) in
   tpPeriodKey (scPolicy c) = ''2026-07-01'' \<and> qPeriodKey (rsPolicy s) = ''2026-07-01'' \<and>
   scUp c = 30 \<and> ctUp (rsCounters s) = 0"
  by code_simp

end
