(* ===== verification/SshTarget.thy ===== *)
theory SshTarget
  imports GoText
begin

text \<open>
  Where a restricted SSH session may connect to: the address and host name checks of
  \<^verbatim>\<open>internal/agent/ssh_inbounds.go\<close> and the boundary the kernel draws for the same traffic,
  \<^verbatim>\<open>restrictedtarget.Public\<close>, which its DNS groups apply to answers. \<^verbatim>\<open>netip.ParseAddr\<close> and the
  class predicates of \<^verbatim>\<open>net/netip\<close> that these checks use come first. What a name resolves to and
  what a dialer returns are arguments.
\<close>

unbundle bit_operations_syntax

subsection \<open>Parsing addresses\<close>

definition v4_field :: "string \<Rightarrow> nat option" where
  "v4_field s = (if s = [] \<or> \<not> list_all is_digit s \<or> 3 < length s \<or> hd s = CHR ''0'' \<and> 1 < length s then None
     else let n = fold (\<lambda>c n. n * 10 + nat (digit_val c)) s 0 in if 255 < n then None else Some n)"

fun v4_word :: "nat option list \<Rightarrow> 32 word option" where
  "v4_word [Some a, Some b, Some c, Some d] = Some (of_nat (((a * 256 + b) * 256 + c) * 256 + d))"
| "v4_word _ = None"

definition parse_v4 :: "string \<Rightarrow> 32 word option" where
  "parse_v4 s = v4_word (map v4_field (split_on CHR ''.'' s))"

definition hex_digit :: "char \<Rightarrow> nat option" where
  "hex_digit c = (let n = of_char c :: nat in
     if 48 \<le> n \<and> n \<le> 57 then Some (n - 48) else if 97 \<le> n \<and> n \<le> 102 then Some (n - 87)
     else if 65 \<le> n \<and> n \<le> 70 then Some (n - 55) else None)"

definition is_hex :: "char \<Rightarrow> bool" where
  "is_hex c = (hex_digit c \<noteq> None)"

definition hex_value :: "string \<Rightarrow> nat" where
  "hex_value s = fold (\<lambda>c n. n * 16 + the_default 0 (hex_digit c)) s 0"

fun v4_groups :: "32 word option \<Rightarrow> nat list option" where
  "v4_groups None = None"
| "v4_groups (Some w) = Some [unat (drop_bit 16 w), unat (w AND 0xFFFF)]"

text \<open>The loop over the groups of an IPv6 address: the groups so far, the position of \<open>::\<close> and what is
  left of the text. The first argument counts the groups that may still follow.\<close>

type_synonym v6_parts = "nat list \<times> nat option \<times> string"

fun with_v4 :: "nat list \<Rightarrow> nat option \<Rightarrow> nat list option \<Rightarrow> v6_parts option" where
  "with_v4 acc ell None = None"
| "with_v4 acc ell (Some g) = Some (acc @ g, ell, [])"

fun v6_scan :: "nat \<Rightarrow> nat list \<Rightarrow> nat option \<Rightarrow> string \<Rightarrow> v6_parts option" where
  "v6_scan 0 acc ell s = Some (acc, ell, s)"
| "v6_scan (Suc n) acc ell s =
     (let h = takeWhile is_hex s; rest = dropWhile is_hex s; acc1 = acc @ [hex_value h]; s1 = tl rest in
      if h = [] \<or> 4 < length h then None
      else if rest = [] then Some (acc1, ell, [])
      else if hd rest = CHR ''.'' then
        (if ell = None \<and> length acc \<noteq> 6 \<or> n = 0 then None else with_v4 acc ell (v4_groups (parse_v4 s)))
      else if hd rest \<noteq> CHR '':'' \<or> s1 = [] then None
      else if hd s1 \<noteq> CHR '':'' then v6_scan n acc1 ell s1
      else if ell \<noteq> None then None
      else if tl s1 = [] then Some (acc1, Some (length acc1), [])
      else v6_scan n acc1 (Some (length acc1)) (tl s1))"

definition groups_word :: "nat list \<Rightarrow> 128 word" where
  "groups_word gs = of_nat (fold (\<lambda>g n. n * 65536 + g) gs 0)"

fun v6_finish :: "string \<Rightarrow> v6_parts option \<Rightarrow> addr option" where
  "v6_finish zone None = None"
| "v6_finish zone (Some (gs, None, s)) = (if s = [] \<and> length gs = 8 then Some (V6 (groups_word gs) zone) else None)"
| "v6_finish zone (Some (gs, Some e, s)) =
     (if s = [] \<and> length gs < 8
      then Some (V6 (groups_word (take e gs @ replicate (8 - length gs) 0 @ drop e gs)) zone) else None)"

definition parse_v6 :: "string \<Rightarrow> string \<Rightarrow> addr option" where
  "parse_v6 s zone =
     (if has_prefix ''::'' s
      then if drop 2 s = [] then Some (V6 0 zone) else v6_finish zone (v6_scan 8 [] (Some 0) (drop 2 s))
      else v6_finish zone (v6_scan 8 [] None s))"

fun to_v4 :: "32 word option \<Rightarrow> addr option" where
  "to_v4 None = None"
| "to_v4 (Some w) = Some (V4 w)"

text \<open>\<^verbatim>\<open>netip.ParseAddr\<close>: the first dot or colon tells the family; a zone follows a percent sign.\<close>

definition parse_addr :: "string \<Rightarrow> addr option" where
  "parse_addr s =
     (let marks = filter (\<lambda>c. c = CHR ''.'' \<or> c = CHR '':'' \<or> c = CHR ''%'') s;
          before = takeWhile (\<lambda>c. c \<noteq> CHR ''%'') s; zone = drop 1 (dropWhile (\<lambda>c. c \<noteq> CHR ''%'') s) in
      if marks = [] \<or> hd marks = CHR ''%'' then None
      else if hd marks = CHR ''.'' then to_v4 (parse_v4 s)
      else if before \<noteq> s \<and> zone = [] then None
      else parse_v6 before zone)"

text \<open>\<^verbatim>\<open>net.ParseIP\<close> takes the same text without a zone.\<close>

fun no_zone :: "addr option \<Rightarrow> bool" where
  "no_zone (Some (V6 w z)) = (z = [])"
| "no_zone (Some _) = True"
| "no_zone None = False"

definition parse_ip_ok :: "string \<Rightarrow> bool" where
  "parse_ip_ok s = no_zone (parse_addr s)"

subsection \<open>Address classes\<close>

definition global_unmapped :: "addr \<Rightarrow> bool" where
  "global_unmapped b \<longleftrightarrow> addr_valid b \<and> b \<noteq> V4 0 \<and> b \<noteq> V4 0xFFFFFFFF \<and> b \<noteq> V6 0 [] \<and>
     \<not> is_loopback b \<and> \<not> is_multicast b \<and> \<not> is_link_local_unicast b"

definition is_global_unicast :: "addr \<Rightarrow> bool" where
  "is_global_unicast a = global_unmapped (unmap a)"

definition is_link_local_multicast :: "addr \<Rightarrow> bool" where
  "is_link_local_multicast a = (case unmap a of NoAddr \<Rightarrow> False
     | V4 w \<Rightarrow> drop_bit 8 w = 0xE00000
     | V6 w _ \<Rightarrow> v6_group 0 w div 256 = 0xFF \<and> v6_group 0 w mod 16 = 2)"

text \<open>\<^verbatim>\<open>Prefix.Contains\<close>: an address with a zone is in no prefix.\<close>

fun prefix_contains :: "addr \<times> nat \<Rightarrow> addr \<Rightarrow> bool" where
  "prefix_contains (V4 p, n) (V4 w) = (drop_bit (32 - n) (w XOR p) = 0)"
| "prefix_contains (V6 p _, n) (V6 w z) = (z = [] \<and> drop_bit (128 - n) (w XOR p) = 0)"
| "prefix_contains _ _ = False"

subsection \<open>Destinations\<close>

text \<open>\<^verbatim>\<open>blockedSSHDestinationPrefixes\<close>.\<close>

definition blockedSSHDestinationPrefixes :: "(addr \<times> nat) list" where
  "blockedSSHDestinationPrefixes =
    [(V4 0x00000000, 8), (V4 0x64400000, 10), (V4 0xC0000000, 24), (V4 0xC0000200, 24), (V4 0xC0586300, 24),
     (V4 0xC6120000, 15), (V4 0xC6336400, 24), (V4 0xCB007100, 24), (V4 0xF0000000, 4),
     (V6 0x20010002000000000000000000000000 [], 48), (V6 0x20010010000000000000000000000000 [], 28),
     (V6 0x20010db8000000000000000000000000 [], 32)]"

text \<open>The checks on an address that has been unmapped.\<close>

definition permitted_unmapped :: "addr \<Rightarrow> bool" where
  "permitted_unmapped a \<longleftrightarrow>
     addr_valid a \<and> is_global_unicast a \<and> \<not> is_private a \<and> \<not> is_loopback a \<and> \<not> is_unspecified a \<and>
     \<not> is_link_local_unicast a \<and> \<not> is_link_local_multicast a \<and> \<not> is_multicast a \<and>
     list_all (\<lambda>p. \<not> prefix_contains p a) blockedSSHDestinationPrefixes"

definition isPermittedSSHDestination :: "addr \<Rightarrow> bool" where
  "isPermittedSSHDestination a = permitted_unmapped (unmap a)"

text \<open>The kernel's boundary, \<^verbatim>\<open>restrictedtarget.Public\<close>.\<close>

definition public_target :: "addr \<Rightarrow> bool" where
  "public_target a \<longleftrightarrow> addr_valid (unmap a) \<and> is_global_unicast (unmap a) \<and> \<not> is_private (unmap a) \<and> \<not> is_loopback (unmap a)"

definition host_byte :: "char \<Rightarrow> bool" where
  "host_byte c = (let n = of_char c :: nat in 97 \<le> n \<and> n \<le> 122 \<or> 65 \<le> n \<and> n \<le> 90 \<or> 48 \<le> n \<and> n \<le> 57 \<or> c = CHR ''-'')"

definition host_label :: "string \<Rightarrow> bool" where
  "host_label l = (l \<noteq> [] \<and> length l \<le> 63 \<and> hd l \<noteq> CHR ''-'' \<and> last l \<noteq> CHR ''-'' \<and> list_all host_byte l)"

definition validSSHInboundHostname :: "string \<Rightarrow> bool" where
  "validSSHInboundHostname host \<longleftrightarrow> length host \<le> 253 \<and> \<not> has_suffix ''.'' host \<and> list_all host_label (split_on CHR ''.'' host)"

datatype target_error = InvalidDestination | NotAllowed | InvalidHostname | Unresolved

fun and_permitted :: "addr \<Rightarrow> target_error + addr list \<Rightarrow> target_error + addr list" where
  "and_permitted a (Inl e) = Inl e"
| "and_permitted a (Inr as) = Inr (a # as)"

fun permit_all :: "addr list \<Rightarrow> target_error + addr list" where
  "permit_all [] = Inr []"
| "permit_all (a # as) =
     (if \<not> isPermittedSSHDestination (unmap a) then Inl NotAllowed else and_permitted (unmap a) (permit_all as))"

fun permit_resolved :: "addr list option \<Rightarrow> target_error + addr list" where
  "permit_resolved None = Inl Unresolved"
| "permit_resolved (Some as) = (if as = [] then Inl Unresolved else permit_all as)"

text \<open>\<^verbatim>\<open>resolvePermittedSSHDestination\<close>; \<open>resolve\<close> is what the resolver answers for a name.\<close>

fun permit_host :: "(string \<Rightarrow> addr list option) \<Rightarrow> string \<Rightarrow> addr option \<Rightarrow> target_error + addr list" where
  "permit_host resolve host (Some a) = (if isPermittedSSHDestination (unmap a) then Inr [unmap a] else Inl NotAllowed)"
| "permit_host resolve host None =
     (if \<not> validSSHInboundHostname host then Inl InvalidHostname else permit_resolved (resolve host))"

definition permit_trimmed :: "(string \<Rightarrow> addr list option) \<Rightarrow> nat \<Rightarrow> string \<Rightarrow> target_error + addr list" where
  "permit_trimmed resolve port host =
     (if host = [] \<or> port = 0 \<or> 65535 < port then Inl InvalidDestination
      else permit_host resolve host (parse_addr host))"

definition resolvePermittedSSHDestination :: "(string \<Rightarrow> addr list option) \<Rightarrow> string \<Rightarrow> nat \<Rightarrow> target_error + addr list" where
  "resolvePermittedSSHDestination resolve host port = permit_trimmed resolve port (trim_space host)"

text \<open>\<^verbatim>\<open>dialPermittedSSHAddresses\<close> and \<^verbatim>\<open>dialSSHRelayAddresses\<close>: the first address that answers.\<close>

fun dial_addresses :: "(addr \<Rightarrow> 'e + 'c) \<Rightarrow> 'e \<Rightarrow> addr list \<Rightarrow> 'e + 'c" where
  "dial_addresses dial err [] = Inl err"
| "dial_addresses dial err (a # as) = (case dial a of Inr c \<Rightarrow> Inr c | Inl e \<Rightarrow> dial_addresses dial e as)"

subsection \<open>The permitted IPv4 addresses\<close>

text \<open>The ranges an SSH session may not reach, first address and the one after the last, in the numeric order of their addresses: this network,
  private, shared, loopback, link local, private, protocol assignments, documentation, relay,
  private, benchmarking, documentation twice, and multicast, reserved and broadcast.\<close>

definition reserved_v4 :: "(nat \<times> nat) list" where
  "reserved_v4 =
    [(0x00000000, 0x01000000), (0x0A000000, 0x0B000000), (0x64400000, 0x64800000), (0x7F000000, 0x80000000),
     (0xA9FE0000, 0xA9FF0000), (0xAC100000, 0xAC200000), (0xC0000000, 0xC0000100), (0xC0000200, 0xC0000300),
     (0xC0586300, 0xC0586400), (0xC0A80000, 0xC0A90000), (0xC6120000, 0xC6140000), (0xC6336400, 0xC6336500),
     (0xCB007100, 0xCB007200), (0xE0000000, 0x100000000)]"

definition in_reserved_v4 :: "nat \<Rightarrow> bool" where
  "in_reserved_v4 n = list_ex (\<lambda>r. fst r \<le> n \<and> n < snd r) reserved_v4"

lemma div_range: "0 < d \<Longrightarrow> n div d = c \<longleftrightarrow> c * d \<le> n \<and> n < c * d + (d::nat)"
  by (metis add.commute div_nat_eqI div_times_less_eq_dividend dividend_less_times_div mult.commute mult_Suc)

lemma unat_drop: "unat (drop_bit k (w :: 32 word)) = unat w div 2 ^ k"
  using drop_bit_eq_div [of k "unat w"] by (simp only: unat_drop_bit_eq)

lemma drop_xor: "drop_bit k (w XOR p) = 0 \<longleftrightarrow> unat w div 2 ^ k = unat (p :: 32 word) div 2 ^ k"
proof -
  have "drop_bit k (w XOR p) = 0 \<longleftrightarrow> drop_bit k w = drop_bit k p"
    by (auto simp: bit_eq_iff bit_simps)
  also have "\<dots> \<longleftrightarrow> unat (drop_bit k w) = unat (drop_bit k p)" by (simp add: word_unat_eq_iff)
  finally show ?thesis by (simp only: unat_drop)
qed

lemma v4_octet_div: "v4_octet i w = unat w div 2 ^ (8 * (3 - i)) mod 256"
proof -
  have "x AND 0xFF = x mod 256" for x :: "32 word"
    using take_bit_eq_mask [of 8 x] by (simp add: take_bit_eq_mod mask_eq_exp_minus_1)
  then show ?thesis by (simp only: v4_octet_def unat_mod unat_drop) simp
qed

lemma v4_below: "unat (w :: 32 word) < 4294967296"
  using unsigned_less [of w] by simp

lemma octets_12:
  assumes "n div 16777216 = a" "n div 65536 mod 256 = (b::nat)"
  shows "n div 65536 = a * 256 + b"
proof -
  have "n div 65536 = n div 65536 div 256 * 256 + n div 65536 mod 256" by simp
  then show ?thesis using assms by (simp add: div_mult2_eq [symmetric])
qed

lemma two_octets:
  "n div 16777216 = a \<and> n div 65536 mod 256 = b \<longleftrightarrow> n div 65536 = a * 256 + (b::nat)" if "b < 256"
proof
  assume "n div 65536 = a * 256 + b"
  moreover have "n div 16777216 = n div 65536 div 256" by (simp add: div_mult2_eq [symmetric])
  ultimately show "n div 16777216 = a \<and> n div 65536 mod 256 = b" using that by simp
qed (use octets_12 in blast)

lemma nibbles: "m div 16 = 172 \<and> m mod 16 = 1 \<longleftrightarrow> m = (2753::nat)"
proof
  assume "m div 16 = 172 \<and> m mod 16 = 1"
  then have "m = 172 * 16 + 1" using div_mult_mod_eq [of m 16] by metis
  then show "m = 2753" by simp
qed simp

lemma private_172:
  "n div 16777216 = 172 \<and> n div 65536 mod 256 div 16 = 1 \<longleftrightarrow> n div 1048576 = (2753::nat)"
proof -
  have "m mod 256 div 16 = m div 16 mod 16" for m :: nat using mod_mult2_eq [of m 16 16] by simp
  then have a: "n div 65536 mod 256 div 16 = n div 1048576 mod 16" by (simp add: div_mult2_eq [symmetric])
  have b: "n div 16777216 = n div 1048576 div 16" by (simp add: div_mult2_eq [symmetric])
  show ?thesis unfolding a b by (rule nibbles)
qed

lemma octet0: "unat (w :: 32 word) div 16777216 mod 256 = unat w div 16777216"
  using v4_below [of w] by simp

lemma v4_classes:
  fixes w :: "32 word"
  defines "n \<equiv> unat w"
  shows "is_private (V4 w) \<longleftrightarrow> n div 16777216 = 10 \<or> n div 1048576 = 2753 \<or> n div 65536 = 49320"
    and "is_loopback (V4 w) \<longleftrightarrow> n div 16777216 = 127"
    and "is_multicast (V4 w) \<longleftrightarrow> n div 268435456 = 14"
    and "is_link_local_unicast (V4 w) \<longleftrightarrow> n div 65536 = 43518"
    and "is_link_local_multicast (V4 w) \<longleftrightarrow> n div 256 = 14680064"
proof -
  have o: "v4_octet 0 w = n div 16777216" "v4_octet 1 w = n div 65536 mod 256"
    unfolding n_def v4_octet_div using octet0 [of w] by simp_all
  show "is_private (V4 w) \<longleftrightarrow> n div 16777216 = 10 \<or> n div 1048576 = 2753 \<or> n div 65536 = 49320"
    using private_172 [of n] two_octets [of 168 n 192] unfolding is_private_def unmap.simps addr.case o by simp
  show "is_loopback (V4 w) \<longleftrightarrow> n div 16777216 = 127" by (simp add: is_loopback_def o)
  show "is_multicast (V4 w) \<longleftrightarrow> n div 268435456 = 14"
    by (simp add: is_multicast_def o div_mult2_eq [symmetric])
  show "is_link_local_unicast (V4 w) \<longleftrightarrow> n div 65536 = 43518"
    using two_octets [of 254 n 169] unfolding is_link_local_unicast_def unmap.simps addr.case o by simp
  have "drop_bit 8 w = 0xE00000 \<longleftrightarrow> unat (drop_bit 8 w) = 0xE00000" by (simp add: word_unat_eq_iff)
  then show "is_link_local_multicast (V4 w) \<longleftrightarrow> n div 256 = 14680064"
    by (simp only: is_link_local_multicast_def unmap.simps addr.case unat_drop n_def) simp
qed

lemma v4_words: "w = 0 \<longleftrightarrow> unat w = 0" "w = 0xFFFFFFFF \<longleftrightarrow> unat w = 4294967295" for w :: "32 word"
  by (simp_all add: word_unat_eq_iff)

lemma blocked_v4:
  fixes w :: "32 word"
  defines "n \<equiv> unat w"
  shows "list_all (\<lambda>p. \<not> prefix_contains p (V4 w)) blockedSSHDestinationPrefixes \<longleftrightarrow>
    n div 16777216 \<noteq> 0 \<and> n div 4194304 \<noteq> 401 \<and> n div 256 \<noteq> 12582912 \<and> n div 256 \<noteq> 12582914 \<and> n div 256 \<noteq> 12605539 \<and>
    n div 131072 \<noteq> 25353 \<and> n div 256 \<noteq> 12989284 \<and> n div 256 \<noteq> 13303921 \<and> n div 268435456 \<noteq> 15"
  by (simp only: blockedSSHDestinationPrefixes_def list.pred_inject prefix_contains.simps drop_xor n_def) simp

text \<open>C14: The IPv4 addresses an SSH session may reach. \<^verbatim>\<open>isPermittedSSHDestination\<close>, with its class tests and
  prefixes on the bits of an address, admits exactly the addresses outside the listed ranges.\<close>

theorem v4_targets_by_range:
  "isPermittedSSHDestination (V4 w) \<longleftrightarrow> \<not> in_reserved_v4 (unat w)"
proof -
  define n where "n = unat w"
  have n: "n < 4294967296" by (simp add: n_def v4_below)
  have "isPermittedSSHDestination (V4 w) \<longleftrightarrow>
      \<not> (n = 0 \<or> n = 4294967295 \<or> n div 16777216 = 10 \<or> n div 1048576 = 2753 \<or> n div 65536 = 49320 \<or> n div 16777216 = 127 \<or>
        n div 268435456 = 14 \<or> n div 65536 = 43518 \<or> n div 256 = 14680064 \<or> n div 16777216 = 0 \<or> n div 4194304 = 401 \<or>
        n div 256 = 12582912 \<or> n div 256 = 12582914 \<or> n div 256 = 12605539 \<or> n div 131072 = 25353 \<or>
        n div 256 = 12989284 \<or> n div 256 = 13303921 \<or> n div 268435456 = 15)"
    unfolding isPermittedSSHDestination_def permitted_unmapped_def unmap.simps blocked_v4 is_global_unicast_def global_unmapped_def
      v4_classes is_unspecified_def n_def
    by (auto simp: v4_words)
  moreover have "n div 268435456 = 14 \<or> n div 268435456 = 15 \<or> n div 256 = 14680064 \<or> n = 4294967295 \<longleftrightarrow> 3758096384 \<le> n"
    using n by (simp add: div_range) linarith
  moreover have "n div 16777216 = 0 \<or> n = 0 \<longleftrightarrow> n < 16777216" by (simp add: div_range) linarith
  moreover have "in_reserved_v4 n \<longleftrightarrow> n < 16777216 \<or> n div 16777216 = 10 \<or> n div 4194304 = 401 \<or> n div 16777216 = 127 \<or>
      n div 65536 = 43518 \<or> n div 1048576 = 2753 \<or> n div 256 = 12582912 \<or> n div 256 = 12582914 \<or> n div 256 = 12605539 \<or>
      n div 65536 = 49320 \<or> n div 131072 = 25353 \<or> n div 256 = 12989284 \<or> n div 256 = 13303921 \<or> 3758096384 \<le> n"
    using n by (simp add: in_reserved_v4_def reserved_v4_def div_range)
  ultimately show ?thesis unfolding n_def by argo
qed

subsection \<open>Resolved destinations\<close>

lemma unmap_unmap [simp]: "unmap (unmap a) = unmap a"
  by (cases a) simp_all

lemma permitted_unmap: "isPermittedSSHDestination (unmap a) = isPermittedSSHDestination a"
  by (simp add: isPermittedSSHDestination_def)

text \<open>The agent's boundary lies within the kernel's.\<close>

lemma permitted_is_public: "isPermittedSSHDestination a \<Longrightarrow> public_target a"
  by (simp add: isPermittedSSHDestination_def permitted_unmapped_def public_target_def)

definition safe_target :: "addr \<Rightarrow> bool" where
  "safe_target a \<longleftrightarrow> unmap a = a \<and> isPermittedSSHDestination a \<and> public_target a"

lemma permit_all_safe: "permit_all as = Inr bs \<Longrightarrow> list_all safe_target bs \<and> length bs = length as"
proof (induction as arbitrary: bs)
  case (Cons a as)
  then obtain cs where "permit_all as = Inr cs" "bs = unmap a # cs" "isPermittedSSHDestination (unmap a)"
    by (cases "permit_all as") (auto split: if_splits)
  then show ?case using Cons.IH permitted_is_public by (simp add: safe_target_def)
qed simp


lemmas target_defs = isPermittedSSHDestination_def permitted_unmapped_def global_unmapped_def is_global_unicast_def
  is_private_def is_loopback_def is_multicast_def is_link_local_unicast_def is_link_local_multicast_def is_unspecified_def
  v6_group_def v4_octet_def blockedSSHDestinationPrefixes_def

lemma ex_permitted: "isPermittedSSHDestination (V4 0x01010101)" "isPermittedSSHDestination (V4 0x08080808)"
  by (simp_all add: target_defs)


text \<open>Two gaps at the boundary. An address with a zone is in no prefix, so a literal with a zone passes
  the IPv6 prefixes; and the kernel's check, meant to be the same boundary, lacks the prefixes.\<close>

lemma zone_escapes_blocklist:
  "resolvePermittedSSHDestination (\<lambda>_. None) ''2001:db8::1'' 80 = Inl NotAllowed \<and>
   resolvePermittedSSHDestination (\<lambda>_. None) ''2001:db8::1%a'' 80 = Inr [V6 0x20010db8000000000000000000000001 ''a'']"
proof -
  have parsed: "trim_space ''2001:db8::1'' = ''2001:db8::1''" "trim_space ''2001:db8::1%a'' = ''2001:db8::1%a''"
    "parse_addr ''2001:db8::1'' = Some (V6 0x20010db8000000000000000000000001 [])"
    "parse_addr ''2001:db8::1%a'' = Some (V6 0x20010db8000000000000000000000001 ''a'')"
    by code_simp+
  have "\<not> isPermittedSSHDestination (V6 0x20010db8000000000000000000000001 [])"
    "isPermittedSSHDestination (V6 0x20010db8000000000000000000000001 ''a'')" by (simp_all add: target_defs)
  then show ?thesis by (simp add: resolvePermittedSSHDestination_def permit_trimmed_def parsed)
qed

lemma kernel_boundary_is_wider:
  "public_target (V4 0x64400001) \<and> \<not> isPermittedSSHDestination (V4 0x64400001)"
  by (simp add: public_target_def target_defs)

end
