(* ===== verification/SshInbound.thy ===== *)
theory SshInbound
  imports SshCounter SshTarget Sha256
begin

text \<open>
  The agent-native SSH inbounds of \<^verbatim>\<open>internal/agent/ssh_inbounds.go\<close> and
  \<^verbatim>\<open>ssh_authorization.go\<close>: validation of a plan, credentials and their fingerprints, the manager with
  its listeners, password authentication, sessions, policy updates, drift detection and the copy
  loop. Connections and their SSH sessions are named by numbers; closing a connection also runs
  the deferred clean-up of its handler. The order of Go's map iterations is the order of the
  association lists. Counter epochs come from \<open>eps\<close>, the authorization store's verdict is \<open>allows\<close>.
\<close>

subsection \<open>Plans\<close>

record ssh_user =
  suKey :: string
  suUser :: int
  suName :: string
  suPassword :: string
  suDevice :: string
  suEpoch :: int
  suStatus :: string
  suPath :: int
  suRouteKind :: string
  suOutbound :: string
  suRouteTag :: string
  suRouteUser :: string
  suEnabled :: bool

record ssh_inbound =
  ibId :: int
  ibServer :: int
  ibName :: string
  ibListen :: string
  ibAddress :: string
  ibPort :: int
  ibEnabled :: bool
  ibUsers :: "ssh_user list"
  ibPolicies :: "(string, traffic_policy) gomap"

record ssh_plan =
  plVersion :: int
  plInbounds :: "ssh_inbound list"

definition no_inbound :: ssh_inbound where
  "no_inbound = \<lparr>ibId = 0, ibServer = 0, ibName = [], ibListen = [], ibAddress = [], ibPort = 0, ibEnabled = False,
     ibUsers = [], ibPolicies = []\<rparr>"

subsection \<open>Validation\<close>

datatype plan_error = BadInboundId | DuplicateInbound | BadServer | BadPort | BadListen | DuplicateListener | BadUser
  | RepeatedUser | NoPassword | BadLegacyDevice | BadDevice | BadStatus | NoPath | BadRouteKind | BadRouteTag | BadRouteUser

definition in_bytes :: "nat \<Rightarrow> nat \<Rightarrow> char \<Rightarrow> bool" where
  "in_bytes lo hi c = (lo \<le> of_char c \<and> of_char c \<le> hi)"

definition alnum :: "char \<Rightarrow> bool" where
  "alnum c = (in_bytes 97 122 c \<or> in_bytes 65 90 c \<or> in_bytes 48 57 c)"

definition validSSHInboundUsername :: "string \<Rightarrow> bool" where
  "validSSHInboundUsername v = (v \<noteq> [] \<and> length v \<le> 64 \<and>
     list_all (\<lambda>c. alnum c \<or> c = CHR ''-'' \<or> c = CHR ''_'' \<or> c = CHR ''.'') v)"

text \<open>The three regular expressions.\<close>

definition sshDeviceIDHashPattern :: "string \<Rightarrow> bool" where
  "sshDeviceIDHashPattern s = (16 \<le> length s \<and> length s \<le> 128 \<and> list_all (\<lambda>c. alnum c \<or> c = CHR ''_'' \<or> c = CHR ''-'') s)"

definition sshRouteInboundPattern :: "string \<Rightarrow> bool" where
  "sshRouteInboundPattern s = (has_prefix ''in-'' s \<and> drop 3 s \<noteq> [] \<and> in_bytes 49 57 (hd (drop 3 s)) \<and>
     list_all (in_bytes 48 57) (drop 4 s))"

definition sshRouteAuthUserPattern :: "string \<Rightarrow> bool" where
  "sshRouteAuthUserPattern s = (length s = 33 \<and> hd s = CHR ''u'' \<and> list_all (\<lambda>c. in_bytes 48 57 c \<or> in_bytes 97 102 c) (tl s))"

definition status_or_active :: "string \<Rightarrow> string" where
  "status_or_active v = (let s = trim_space v in if s = [] then ''active'' else s)"

definition known_statuses :: "string list" where
  "known_statuses = [''active'', ''reject_new'', ''disconnect_and_reject'', ''revoked'', ''disabled'']"

definition listen_or_any :: "string \<Rightarrow> string" where
  "listen_or_any v = (let s = trim_space v in if s = [] then ''0.0.0.0'' else s)"

text \<open>\<^verbatim>\<open>net.JoinHostPort\<close>.\<close>

definition join_host_port :: "string \<Rightarrow> int \<Rightarrow> string" where
  "join_host_port host port =
     (if list_ex (\<lambda>c. c = CHR '':'' \<or> c = CHR ''%'') host then ''['' @ host @ '']:'' else host @ '':'') @ format_int port"

definition check_user :: "string list \<Rightarrow> ssh_user \<Rightarrow> plan_error option" where
  "check_user seen u =
     (let device = trim_space (suDevice u) in
      if suUser u \<le> 0 \<or> \<not> validSSHInboundUsername (suName u) then Some BadUser
      else if suName u \<in> set seen then Some RepeatedUser
      else if trim_space (suPassword u) = [] then Some NoPassword
      else if device = [] \<and> suEpoch u \<noteq> 0 then Some BadLegacyDevice
      else if device \<noteq> [] \<and> (\<not> sshDeviceIDHashPattern device \<or> suEpoch u \<le> 0) then Some BadDevice
      else if status_or_active (suStatus u) \<notin> set known_statuses then Some BadStatus
      else if suPath u \<le> 0 then Some NoPath
      else if suRouteKind u \<noteq> ''kernel'' \<or> trim_space (suOutbound u) \<noteq> [] then Some BadRouteKind
      else if \<not> sshRouteInboundPattern (trim_space (suRouteTag u)) then Some BadRouteTag
      else if \<not> sshRouteAuthUserPattern (suRouteUser u) \<or> suRouteUser u \<noteq> suName u \<or> length (suKey u) \<noteq> 32 then Some BadRouteUser
      else None)"

fun check_users :: "string list \<Rightarrow> ssh_user list \<Rightarrow> plan_error option" where
  "check_users seen [] = None"
| "check_users seen (u # us) =
     (if \<not> suEnabled u then check_users seen us
      else if check_user seen u \<noteq> None then check_user seen u
      else check_users (suName u # seen) us)"

fun check_inbounds :: "int list \<Rightarrow> string list \<Rightarrow> ssh_inbound list \<Rightarrow> plan_error option" where
  "check_inbounds ids ends [] = None"
| "check_inbounds ids ends (b # bs) =
     (let ip = listen_or_any (ibListen b); endpoint = join_host_port ip (ibPort b) in
      if ibId b \<le> 0 then Some BadInboundId
      else if ibId b \<in> set ids then Some DuplicateInbound
      else if ibServer b \<le> 0 then Some BadServer
      else if \<not> ibEnabled b then check_inbounds (ibId b # ids) ends bs
      else if ibPort b < 1 \<or> 65535 < ibPort b then Some BadPort
      else if \<not> parse_ip_ok ip then Some BadListen
      else if endpoint \<in> set ends then Some DuplicateListener
      else if check_users [] (ibUsers b) \<noteq> None then check_users [] (ibUsers b)
      else check_inbounds (ibId b # ids) (endpoint # ends) bs)"

definition validateSSHInboundPlan :: "ssh_plan \<Rightarrow> plan_error option" where
  "validateSSHInboundPlan p = check_inbounds [] [] (plInbounds p)"

definition validateSSHInboundServerIDs :: "int \<Rightarrow> ssh_plan \<Rightarrow> bool" where
  "validateSSHInboundServerIDs server p = (server = 0 \<or> list_all (\<lambda>b. ibServer b = server) (plInbounds p))"

subsection \<open>Credentials and fingerprints\<close>

record ssh_cred =
  crKey :: string
  crUser :: int
  crPassword :: string
  crDevice :: string
  crEpoch :: int
  crStatus :: string
  crPath :: int
  crRouteKind :: string
  crRouteTag :: string
  crRouteUser :: string

definition cred_of :: "ssh_user \<Rightarrow> ssh_cred" where
  "cred_of u = \<lparr>crKey = suKey u, crUser = suUser u, crPassword = suPassword u, crDevice = trim_space (suDevice u),
     crEpoch = suEpoch u, crStatus = status_or_active (suStatus u), crPath = suPath u, crRouteKind = suRouteKind u,
     crRouteTag = suRouteTag u, crRouteUser = suRouteUser u\<rparr>"

definition put_cred :: "ssh_user \<Rightarrow> (string, ssh_cred) gomap \<Rightarrow> (string, ssh_cred) gomap" where
  "put_cred u m = (if suEnabled u then gm_put (suName u) (cred_of u) m else m)"

definition sshInboundCredentials :: "ssh_user list \<Rightarrow> (string, ssh_cred) gomap" where
  "sshInboundCredentials us = fold put_cred us []"

definition hex_string :: "string \<Rightarrow> string" where
  "hex_string s = concat (map (\<lambda>c. [hex_char (of_char c div 16), hex_char (of_char c mod 16)]) s)"

definition passwordDigest :: "string \<Rightarrow> string" where
  "passwordDigest password = hex_string (sum256 password)"

definition sshInboundUserFingerprint :: "ssh_user \<Rightarrow> string" where
  "sshInboundUserFingerprint u = suKey u @ ''|'' @ join ''|''
     [format_int (suUser u), suName u, passwordDigest (suPassword u), trim_space (suDevice u), format_int (suEpoch u),
      trim_space (suStatus u), format_int (suPath u), suRouteKind u, suRouteTag u, suRouteUser u]"

text \<open>The text under the digest of an inbound; \<^verbatim>\<open>%v\<close> prints a boolean as a word.\<close>

definition fingerprint_text :: "ssh_inbound \<Rightarrow> string" where
  "fingerprint_text b =
     (let users = sort (map sshInboundUserFingerprint (filter suEnabled (ibUsers b))) in
      join ''|'' [format_int (ibId b), trim_space (ibListen b), format_int (ibPort b),
        (if ibEnabled b then ''true'' else ''false''), join '';'' users, join '','' (sort (gm_keys (ibPolicies b))),
        format_int (int (length users))])"

definition sshInboundFingerprint :: "ssh_inbound \<Rightarrow> string" where
  "sshInboundFingerprint b = hex_string (sum256 (fingerprint_text b))"

definition put_fingerprint :: "ssh_inbound \<Rightarrow> (int, string) gomap \<Rightarrow> (int, string) gomap" where
  "put_fingerprint b m = (if ibEnabled b then gm_put (ibId b) (sshInboundFingerprint b) m else m)"

definition desiredSSHInboundFingerprints :: "ssh_plan \<Rightarrow> (int, string) gomap" where
  "desiredSSHInboundFingerprints p = fold put_fingerprint (plInbounds p) []"

subsection \<open>The manager\<close>

text \<open>A listener is the address and port it is bound to.\<close>

record managed =
  mgPlan :: ssh_inbound
  mgListener :: "(string \<times> int) option"
  mgAuth :: "(string, ssh_cred) gomap"
  mgCounters :: "(int, ssh_counter) gomap"
  mgConns :: "(nat, int) gomap"
  mgSessions :: "(nat, string) gomap"

text \<open>What the handlers tell the connection audit, in order.\<close>

datatype ssh_audit = CredentialRejected int int string | SessionStarted int int int string

record ssh_manager =
  smListeners :: "(int, managed) gomap"
  smUsageOf :: "(int, nat) gomap"
  smUsages :: ssh_usages
  smFresh :: nat
  smAudit :: "ssh_audit list"

definition empty_manager :: ssh_manager where
  "empty_manager = \<lparr>smListeners = [], smUsageOf = [], smUsages = [], smFresh = 0, smAudit = []\<rparr>"

definition set_managed :: "int \<Rightarrow> managed \<Rightarrow> ssh_manager \<Rightarrow> ssh_manager" where
  "set_managed b g m = m\<lparr>smListeners := gm_put b g (smListeners m)\<rparr>"

text \<open>The usage object of a user, made when it is missing.\<close>

fun known_usage :: "nat option \<Rightarrow> int \<Rightarrow> ssh_manager \<Rightarrow> nat \<times> ssh_manager" where
  "known_usage (Some u) user m = (u, m)"
| "known_usage None user m =
     (let u = gm_len (smUsages m)
      in (u, m\<lparr>smUsageOf := gm_put user u (smUsageOf m), smUsages := smUsages m @ [(u, [])]\<rparr>))"

definition user_usage_of :: "int \<Rightarrow> ssh_manager \<Rightarrow> nat \<times> ssh_manager" where
  "user_usage_of user m = known_usage (gm_get (smUsageOf m) user) user m"

definition policy_matches :: "int \<Rightarrow> string \<times> traffic_policy \<Rightarrow> bool" where
  "policy_matches user g \<longleftrightarrow> tpUser (snd g) = user \<or> fst g = ''user:'' @ format_int user \<or> fst g = format_int user"

fun sshInboundPolicyForUser :: "(string, traffic_policy) gomap \<Rightarrow> int \<Rightarrow> traffic_policy option" where
  "sshInboundPolicyForUser [] user = None"
| "sshInboundPolicyForUser (g # ps) user =
     (if policy_matches user g then Some ((snd g)\<lparr>tpUser := user\<rparr>) else sshInboundPolicyForUser ps user)"

fun with_policy :: "string \<Rightarrow> traffic_policy option \<Rightarrow> ssh_counter \<Rightarrow> ssh_counter" where
  "with_policy ep None c = c"
| "with_policy ep (Some p) c = setPolicy ep p c"

text \<open>One round of the loops over the users of a plan in \<^verbatim>\<open>newManagedSSHInbound\<close> and
  \<^verbatim>\<open>ensureSSHInboundCounters\<close>.\<close>

definition install_counter :: "(nat \<Rightarrow> string) \<Rightarrow> ssh_user \<Rightarrow> managed \<times> ssh_manager \<Rightarrow> managed \<times> ssh_manager" where
  "install_counter eps u w =
     (if \<not> suEnabled u then w
      else let g = fst w; r = user_usage_of (suUser u) (snd w); n = smFresh (snd r);
               c = with_policy (eps (n + 1)) (sshInboundPolicyForUser (ibPolicies (mgPlan g)) (suUser u))
                     (new_ssh_counter (eps n) (Some (fst r)))
           in (g\<lparr>mgCounters := gm_put (suUser u) c (mgCounters g)\<rparr>, (snd r)\<lparr>smFresh := n + 2\<rparr>))"

definition newManagedSSHInbound :: "(nat \<Rightarrow> string) \<Rightarrow> ssh_inbound \<Rightarrow> ssh_manager \<Rightarrow> managed \<times> ssh_manager" where
  "newManagedSSHInbound eps b m =
     fold (install_counter eps) (ibUsers b)
       (\<lparr>mgPlan = b, mgListener = None, mgAuth = sshInboundCredentials (ibUsers b), mgCounters = [], mgConns = [],
         mgSessions = []\<rparr>, m)"

definition ensure_counter :: "(nat \<Rightarrow> string) \<Rightarrow> ssh_user \<Rightarrow> managed \<times> ssh_manager \<Rightarrow> managed \<times> ssh_manager" where
  "ensure_counter eps u w =
     (if \<not> suEnabled u \<or> gm_get (mgCounters (fst w)) (suUser u) \<noteq> None then w
      else let g = fst w; r = user_usage_of (suUser u) (snd w); n = smFresh (snd r)
           in (g\<lparr>mgCounters := gm_put (suUser u) (new_ssh_counter (eps n) (Some (fst r))) (mgCounters g)\<rparr>,
               (snd r)\<lparr>smFresh := n + 1\<rparr>))"

definition ensureSSHInboundCounters :: "(nat \<Rightarrow> string) \<Rightarrow> ssh_inbound \<Rightarrow> managed \<times> ssh_manager \<Rightarrow> managed \<times> ssh_manager" where
  "ensureSSHInboundCounters eps planned w = fold (ensure_counter eps) (ibUsers planned) w"

text \<open>\<^verbatim>\<open>partitionSSHInboundPlanPolicies\<close>: a user the core serves as well gets half of an enforced lease.\<close>

definition halve_policy :: "int list \<Rightarrow> traffic_policy \<Rightarrow> traffic_policy" where
  "halve_policy core p = (if tpUser p \<in> set core \<and> tpLeaseEnforced p
     then p\<lparr>tpLease := quo (tpLease p) 2, tpResetLease := quo (tpResetLease p) 2\<rparr> else p)"

definition partitionSSHInboundPlanPolicies :: "int list \<Rightarrow> ssh_plan \<Rightarrow> ssh_plan" where
  "partitionSSHInboundPlanPolicies core p =
     p\<lparr>plInbounds := map (\<lambda>b. b\<lparr>ibPolicies := map (\<lambda>g. (fst g, halve_policy core (snd g))) (ibPolicies b)\<rparr>) (plInbounds p)\<rparr>"

definition add_inbound :: "(nat \<Rightarrow> string) \<Rightarrow> ssh_inbound \<Rightarrow> ssh_manager \<Rightarrow> ssh_manager" where
  "add_inbound eps b m =
     (if \<not> ibEnabled b then m else let r = newManagedSSHInbound eps b m in set_managed (ibId b) (fst r) (snd r))"

definition needs_relay :: "ssh_plan \<Rightarrow> bool" where
  "needs_relay p = list_ex (\<lambda>b. list_ex suEnabled (ibUsers b)) (plInbounds p)"

text \<open>\<^verbatim>\<open>newSSHInboundManager\<close>: \<open>core\<close> is \<open>None\<close> when the core's policies cannot be read.\<close>

fun newSSHInboundManager :: "(nat \<Rightarrow> string) \<Rightarrow> int list option \<Rightarrow> bool \<Rightarrow> bool \<Rightarrow> ssh_plan \<Rightarrow> ssh_manager option" where
  "newSSHInboundManager eps None signer relay p = None"
| "newSSHInboundManager eps (Some core) signer relay p =
     (if \<not> signer \<or> needs_relay p \<and> \<not> relay then None
      else Some (fold (add_inbound eps) (plInbounds (partitionSSHInboundPlanPolicies core p)) empty_manager))"

definition close_managed :: "managed \<Rightarrow> managed" where
  "close_managed g = g\<lparr>mgListener := None, mgConns := [], mgSessions := []\<rparr>"

definition map_managed :: "(managed \<Rightarrow> managed) \<Rightarrow> ssh_manager \<Rightarrow> ssh_manager" where
  "map_managed f m = m\<lparr>smListeners := map (map_prod id f) (smListeners m)\<rparr>"

definition close_manager :: "ssh_manager \<Rightarrow> ssh_manager" where
  "close_manager m = map_managed close_managed m"

text \<open>\<^verbatim>\<open>start\<close>: \<open>listen\<close> gives the bound address of an endpoint; one failure closes everything.\<close>

definition start_manager :: "(string \<Rightarrow> int \<Rightarrow> (string \<times> int) option) \<Rightarrow> ssh_manager \<Rightarrow> bool \<times> ssh_manager" where
  "start_manager listen m =
     (let bind = (\<lambda>g. listen (listen_or_any (ibListen (mgPlan g))) (ibPort (mgPlan g))) in
      if list_all (\<lambda>g. bind (snd g) \<noteq> None) (smListeners m)
      then (True, map_managed (\<lambda>g. g\<lparr>mgListener := bind g\<rparr>) m)
      else (False, close_manager m))"

subsection \<open>Authentication and sessions\<close>

definition credentialAuthorized :: "(string \<Rightarrow> bool) \<Rightarrow> ssh_cred \<Rightarrow> bool \<Rightarrow> bool" where
  "credentialAuthorized allows c admitted \<longleftrightarrow>
     allows (crKey c) \<and> (crStatus c = ''active'' \<or> admitted \<and> crStatus c = ''reject_new'')"

fun cred_admitted :: "(string \<Rightarrow> bool) \<Rightarrow> ssh_cred option \<Rightarrow> bool" where
  "cred_admitted allows None = False"
| "cred_admitted allows (Some c) = credentialAuthorized allows c True"

definition sessionAuthorized :: "(string \<Rightarrow> bool) \<Rightarrow> string \<Rightarrow> managed \<Rightarrow> bool" where
  "sessionAuthorized allows user g = cred_admitted allows (gm_get (mgAuth g) user)"

definition drop_conns :: "(nat \<Rightarrow> bool) \<Rightarrow> managed \<Rightarrow> managed" where
  "drop_conns bad g = g\<lparr>mgConns := filter (\<lambda>x. \<not> bad (fst x)) (mgConns g),
     mgSessions := filter (\<lambda>x. \<not> bad (fst x)) (mgSessions g)\<rparr>"

definition reap_managed :: "(string \<Rightarrow> bool) \<Rightarrow> managed \<Rightarrow> managed" where
  "reap_managed allows g = drop_conns (\<lambda>n. \<not> pred_option (\<lambda>u. sessionAuthorized allows u g) (gm_get (mgSessions g) n)) g"

definition reapAuthorization :: "(string \<Rightarrow> bool) \<Rightarrow> ssh_manager \<Rightarrow> ssh_manager" where
  "reapAuthorization allows m = map_managed (reap_managed allows) m"

definition closeUserConnections :: "int \<Rightarrow> managed \<Rightarrow> managed" where
  "closeUserConnections user g = drop_conns (\<lambda>n. gm_get (mgConns g) n = Some user) g"

datatype auth_reason = CredentialMismatch | AuthorizationDenied | CredentialInactive | PolicyMissing | QuotaExhausted

record permissions =
  pmUser :: int
  pmInbound :: int
  pmPath :: int
  pmDevice :: string
  pmEpoch :: int
  pmRouteKind :: string
  pmRouteTag :: string
  pmRouteUser :: string

definition grant :: "managed \<Rightarrow> ssh_cred \<Rightarrow> permissions" where
  "grant g c = \<lparr>pmUser = crUser c, pmInbound = ibId (mgPlan g), pmPath = crPath c, pmDevice = crDevice c, pmEpoch = crEpoch c,
     pmRouteKind = crRouteKind c, pmRouteTag = crRouteTag c, pmRouteUser = crRouteUser c\<rparr>"

record auth_env =
  xNow :: instant
  xZones :: "string \<Rightarrow> location option"
  xEp :: string
  xAllows :: "string \<Rightarrow> bool"
  xSource :: string

text \<open>The quota check on the counter of a user may roll its period over.\<close>

fun quota_gate :: "auth_env \<Rightarrow> managed \<Rightarrow> ssh_cred \<Rightarrow> ssh_usages \<Rightarrow> ssh_counter option \<Rightarrow> (auth_reason + permissions) \<times> managed" where
  "quota_gate x g c us None = (Inl PolicyMissing, g)"
| "quota_gate x g c us (Some k) =
     (let r = quotaExceeded (xZones x) (xNow x) (xEp x) us k;
          g1 = g\<lparr>mgCounters := gm_put (crUser c) (snd r) (mgCounters g)\<rparr>
      in if fst r then (Inl QuotaExhausted, g1) else (Inr (grant g c), g1))"

text \<open>\<^verbatim>\<open>PasswordCallback\<close>; a probe's own attempts are not audited.\<close>

fun password_check :: "auth_env \<Rightarrow> bool \<Rightarrow> string \<Rightarrow> managed \<Rightarrow> ssh_cred option \<Rightarrow> ssh_manager \<Rightarrow>
    (auth_reason + permissions) \<times> managed \<times> ssh_manager" where
  "password_check x probe password g None m = (Inl CredentialMismatch, g, m)"
| "password_check x probe password g (Some c) m =
     (if crPassword c \<noteq> password then (Inl CredentialMismatch, g, m)
      else if \<not> credentialAuthorized (xAllows x) c False then
        (Inl (if crStatus c \<noteq> ''active'' then CredentialInactive else AuthorizationDenied), g,
         if probe then m else m\<lparr>smAudit := smAudit m @ [CredentialRejected (crUser c) (ibId (mgPlan g)) (xSource x)]\<rparr>)
      else let r = quota_gate x g c (smUsages m) (gm_get (mgCounters g) (crUser c)) in (fst r, snd r, m))"

fun store_managed :: "int \<Rightarrow> 'r \<times> managed \<times> ssh_manager \<Rightarrow> 'r \<times> ssh_manager" where
  "store_managed b (r, g, m) = (r, set_managed b g m)"

text \<open>Every operation on an inbound goes through its entry in the manager.\<close>

fun password_at :: "auth_env \<Rightarrow> bool \<Rightarrow> int \<Rightarrow> string \<Rightarrow> string \<Rightarrow> managed option \<Rightarrow> ssh_manager \<Rightarrow> (auth_reason + permissions) \<times> ssh_manager" where
  "password_at x probe b user password None m = (Inl CredentialMismatch, m)"
| "password_at x probe b user password (Some g) m =
     store_managed b (password_check x probe password g (gm_get (mgAuth g) user) m)"

definition PasswordCallback :: "auth_env \<Rightarrow> bool \<Rightarrow> int \<Rightarrow> string \<Rightarrow> string \<Rightarrow> ssh_manager \<Rightarrow> (auth_reason + permissions) \<times> ssh_manager" where
  "PasswordCallback x probe b user password m = password_at x probe b user password (gm_get (smListeners m) b) m"

text \<open>\<^verbatim>\<open>serve\<close> registers an accepted connection; \<^verbatim>\<open>handle\<close> registers the session after the handshake, checks
  the authorization again and only then notes the user of the connection.\<close>

definition accept_conn :: "nat \<Rightarrow> managed \<Rightarrow> managed" where
  "accept_conn n g = g\<lparr>mgConns := gm_put n 0 (mgConns g)\<rparr>"

definition open_session :: "(string \<Rightarrow> bool) \<Rightarrow> nat \<Rightarrow> string \<Rightarrow> permissions \<Rightarrow> managed \<Rightarrow> managed" where
  "open_session allows n user pm g =
     (let g1 = g\<lparr>mgSessions := gm_put n user (mgSessions g)\<rparr> in
      if \<not> sessionAuthorized allows user g1 then drop_conns (\<lambda>k. k = n) g1
      else if 0 < pmUser pm \<and> gm_get (mgConns g1) n \<noteq> None then g1\<lparr>mgConns := gm_put n (pmUser pm) (mgConns g1)\<rparr>
      else g1)"

definition end_conn :: "nat \<Rightarrow> managed \<Rightarrow> managed" where
  "end_conn n g = drop_conns (\<lambda>k. k = n) g"

subsection \<open>Forwarded channels\<close>

datatype channel_result = Rejected string | Gateway | Proxied "addr list" | AcceptFailed | SessionClosed

definition badVPNUDPGatewayPort :: nat where
  "badVPNUDPGatewayPort = 7300"

definition isBadVPNUDPGatewayDestination :: "string \<Rightarrow> nat \<Rightarrow> bool" where
  "isBadVPNUDPGatewayDestination host port =
     (let h = trim_space host in port = badVPNUDPGatewayPort \<and> (h = ''127.0.0.1'' \<or> h = ''::1''))"

text \<open>The rest of the world during one request: what the payload decodes to, what names resolve to and
  whether dialing and accepting work.\<close>

record channel_env =
  ceAuth :: auth_env
  cePayload :: "(string \<times> nat) option"
  ceResolve :: "string \<Rightarrow> addr list option"
  ceDial :: bool
  ceAccept :: bool

fun open_target :: "channel_env \<Rightarrow> permissions \<Rightarrow> target_error + addr list \<Rightarrow> managed \<Rightarrow> ssh_manager \<Rightarrow> channel_result \<times> ssh_manager" where
  "open_target e pm (Inl err) g m = (Rejected ''destination'', m)"
| "open_target e pm (Inr as) g m =
     (if pmRouteKind pm \<noteq> ''kernel'' \<or> \<not> ceDial e then (Rejected ''destination connection failed'', m)
      else if \<not> ceAccept e then (AcceptFailed, m)
      else (Proxied as, m\<lparr>smAudit := smAudit m @ [SessionStarted (pmUser pm) (ibId (mgPlan g)) (pmPath pm) (xSource (ceAuth e))]\<rparr>))"

fun channel_target :: "channel_env \<Rightarrow> permissions \<Rightarrow> (string \<times> nat) option \<Rightarrow> managed \<Rightarrow> ssh_manager \<Rightarrow> channel_result \<times> ssh_manager" where
  "channel_target e pm None g m = (Rejected ''invalid direct-tcpip request'', m)"
| "channel_target e pm (Some (host, port)) g m =
     (if isBadVPNUDPGatewayDestination host port then (if ceAccept e then Gateway else AcceptFailed, m)
      else open_target e pm (resolvePermittedSSHDestination (ceResolve e) host port) g m)"

fun channel_gate :: "channel_env \<Rightarrow> permissions \<Rightarrow> int \<Rightarrow> managed \<Rightarrow> ssh_counter option \<Rightarrow> ssh_manager \<Rightarrow> channel_result \<times> ssh_manager" where
  "channel_gate e pm b g None m = (Rejected ''user traffic quota is exhausted'', m)"
| "channel_gate e pm b g (Some k) m =
     (let x = ceAuth e; r = quotaExceeded (xZones x) (xNow x) (xEp x) (smUsages m) k;
          g1 = g\<lparr>mgCounters := gm_put (pmUser pm) (snd r) (mgCounters g)\<rparr>; m1 = set_managed b g1 m
      in if fst r then (Rejected ''user traffic quota is exhausted'', m1) else channel_target e pm (cePayload e) g1 m1)"

text \<open>\<^verbatim>\<open>handleDirectTCPIP\<close> for session \<open>n\<close> of inbound \<open>b\<close>.\<close>

fun channel_in :: "channel_env \<Rightarrow> int \<Rightarrow> nat \<Rightarrow> string \<Rightarrow> permissions option \<Rightarrow> managed option \<Rightarrow> ssh_manager \<Rightarrow> channel_result \<times> ssh_manager" where
  "channel_in e b n user pmo None m = (Rejected ''authorization expired'', m)"
| "channel_in e b n user pmo (Some g) m =
     (if \<not> sessionAuthorized (xAllows (ceAuth e)) user g then (SessionClosed, set_managed b (end_conn n g) m)
      else case pmo of None \<Rightarrow> (Rejected ''missing authenticated OBoard user'', m)
        | Some pm \<Rightarrow>
          if pmUser pm \<le> 0 then (Rejected ''invalid authenticated OBoard user'', m)
          else if pmPath pm \<le> 0 then (Rejected ''invalid authenticated OBoard path'', m)
          else if pmEpoch pm < 0 \<or> trim_space (pmDevice pm) = [] \<and> pmEpoch pm \<noteq> 0 \<or> trim_space (pmDevice pm) \<noteq> [] \<and> pmEpoch pm \<le> 0
          then (Rejected ''invalid authenticated OBoard device'', m)
          else channel_gate e pm b g (gm_get (mgCounters g) (pmUser pm)) m)"

definition handleDirectTCPIP :: "channel_env \<Rightarrow> int \<Rightarrow> nat \<Rightarrow> string \<Rightarrow> permissions option \<Rightarrow> ssh_manager \<Rightarrow> channel_result \<times> ssh_manager" where
  "handleDirectTCPIP e b n user pmo m = channel_in e b n user pmo (gm_get (smListeners m) b) m"

text \<open>\<^verbatim>\<open>copySSHInboundTraffic\<close>: one round per element, with the bytes read, whether the read ended the
  stream, the bytes written and whether the write failed.\<close>

record copy_round =
  cpNow :: instant
  cpEp :: string
  cpRead :: int
  cpEnd :: bool
  cpWritten :: int
  cpFails :: bool

fun copySSHInboundTraffic :: "(string \<Rightarrow> location option) \<Rightarrow> bool \<Rightarrow> copy_round list \<Rightarrow> ssh_usages \<times> ssh_counter \<Rightarrow> int \<times> ssh_usages \<times> ssh_counter" where
  "copySSHInboundTraffic zones upload [] w = (0, w)"
| "copySSHInboundTraffic zones upload (r # rs) w =
     (let q = quotaExceeded zones (cpNow r) (cpEp r) (fst w) (snd w); w1 = (fst w, snd q) in
      if fst q then (0, w1)
      else if 0 < cpRead r then
        (let w2 = ssh_addTraffic zones (cpNow r) (cpEp r) upload (cpWritten r) w1 in
         if cpFails r \<or> cpWritten r \<noteq> cpRead r \<or> cpEnd r then (cpWritten r, w2)
         else let t = copySSHInboundTraffic zones upload rs w2 in (cpWritten r + fst t, snd t))
      else if cpEnd r then (0, w1) else copySSHInboundTraffic zones upload rs w1)"

subsection \<open>Policies and counters\<close>

record policy_env =
  peNow :: instant
  peZones :: "string \<Rightarrow> location option"
  peEps :: "nat \<Rightarrow> string"

definition counter_key :: "int \<Rightarrow> int \<Rightarrow> string" where
  "counter_key inbound user = ''ssh-inbound:'' @ format_int inbound @ '':user:'' @ format_int user"

fun ack_one :: "checkpoint option \<Rightarrow> ssh_usages \<times> ssh_counter \<Rightarrow> ssh_usages \<times> ssh_counter" where
  "ack_one None w = w"
| "ack_one (Some k) w = ssh_acknowledge k w"

definition ack_counter :: "(string, checkpoint) gomap \<Rightarrow> int \<times> ssh_counter \<Rightarrow> managed \<times> ssh_manager \<Rightarrow> managed \<times> ssh_manager" where
  "ack_counter acks uc w =
     (let g = fst w; m = snd w;
          r = ack_one (gm_get acks (counter_key (ibId (mgPlan g)) (fst uc))) (smUsages m, snd uc)
      in (g\<lparr>mgCounters := gm_put (fst uc) (snd r) (mgCounters g)\<rparr>, m\<lparr>smUsages := fst r\<rparr>))"

fun policy_on :: "policy_env \<Rightarrow> traffic_policy \<Rightarrow> ssh_counter option \<Rightarrow> managed \<times> ssh_manager \<Rightarrow> managed \<times> ssh_manager" where
  "policy_on x p None w = w"
| "policy_on x p (Some c) w =
     (let g = fst w; m = snd w; n = smFresh m; c1 = setPolicy (peEps x n) p c;
          r = quotaExceeded (peZones x) (peNow x) (peEps x (n + 1)) (smUsages m) c1;
          g1 = g\<lparr>mgCounters := gm_put (tpUser p) (snd r) (mgCounters g)\<rparr>
      in (if fst r then closeUserConnections (tpUser p) g1 else g1, m\<lparr>smFresh := n + 2\<rparr>))"

definition policy_step :: "policy_env \<Rightarrow> traffic_policy \<Rightarrow> managed \<times> ssh_manager \<Rightarrow> managed \<times> ssh_manager" where
  "policy_step x p w =
     (if tpInbound p \<noteq> 0 \<and> tpInbound p \<noteq> ibId (mgPlan (fst w)) then w
      else policy_on x p (gm_get (mgCounters (fst w)) (tpUser p)) w)"

definition update_managed :: "policy_env \<Rightarrow> traffic_policy list \<Rightarrow> (string, checkpoint) gomap \<Rightarrow> int \<times> managed \<Rightarrow> ssh_manager \<Rightarrow> ssh_manager" where
  "update_managed x ps acks bg m =
     (let w = fold (policy_step x) ps (fold (ack_counter acks) (mgCounters (snd bg)) (snd bg, m))
      in set_managed (fst bg) (fst w) (snd w))"

text \<open>\<^verbatim>\<open>updatePolicies\<close>: a policy that does not decode, or names no user, is skipped.\<close>

definition updatePolicies :: "policy_env \<Rightarrow> traffic_policy option list \<Rightarrow> (string, checkpoint) gomap \<Rightarrow> ssh_manager \<Rightarrow> ssh_manager" where
  "updatePolicies x raw acks m =
     (if raw = [] \<and> acks = [] then m
      else let ps = filter (\<lambda>p. 0 < tpUser p) (map the (filter (\<lambda>p. p \<noteq> None) raw))
           in fold (update_managed x ps acks) (smListeners m) m)"

definition trafficPolicyUsers :: "ssh_manager \<Rightarrow> int list" where
  "trafficPolicyUsers m = remdups (concat (map (\<lambda>bg. gm_keys (mgCounters (snd bg))) (smListeners m)))"

record ssh_traffic_item =
  tiKey :: string
  tiEpoch :: string
  tiUser :: int
  tiInbound :: int
  tiPeriod :: string
  tiUp :: int
  tiDown :: int

definition traffic_item :: "int \<Rightarrow> int \<Rightarrow> ssh_counter \<Rightarrow> ssh_traffic_item list" where
  "traffic_item b user c =
     (if scUp c = 0 \<and> scDown c = 0 then []
      else [\<lparr>tiKey = counter_key b user, tiEpoch = scEpoch c, tiUser = user, tiInbound = b,
             tiPeriod = tpPeriodKey (scPolicy c), tiUp = scUp c, tiDown = scDown c\<rparr>])"

text \<open>\<^verbatim>\<open>snapshot\<close> rolls every counter over first.\<close>

definition rolled :: "policy_env \<Rightarrow> ssh_counter \<Rightarrow> ssh_counter" where
  "rolled x c = currentPolicy (peZones x) (peNow x) (peEps x 0) c"

definition ssh_snapshot :: "policy_env \<Rightarrow> ssh_manager \<Rightarrow> ssh_traffic_item list \<times> ssh_manager" where
  "ssh_snapshot x m =
     (concat (map (\<lambda>bg. concat (map (\<lambda>uc. traffic_item (ibId (mgPlan (snd bg))) (fst uc) (rolled x (snd uc)))
        (mgCounters (snd bg)))) (smListeners m)),
      map_managed (\<lambda>g. g\<lparr>mgCounters := map (map_prod id (rolled x)) (mgCounters g)\<rparr>) m)"

subsection \<open>Drift\<close>

definition user_of_cred :: "string \<times> ssh_cred \<Rightarrow> ssh_user" where
  "user_of_cred nc = (let c = snd nc in
     \<lparr>suKey = crKey c, suUser = crUser c, suName = fst nc, suPassword = crPassword c, suDevice = crDevice c,
      suEpoch = crEpoch c, suStatus = crStatus c, suPath = crPath c, suRouteKind = crRouteKind c, suOutbound = [],
      suRouteTag = crRouteTag c, suRouteUser = crRouteUser c, suEnabled = True\<rparr>)"

fun bound_at :: "(string \<times> int) option \<Rightarrow> ssh_inbound \<Rightarrow> ssh_inbound" where
  "bound_at None b = b"
| "bound_at (Some (ip, port)) b = b\<lparr>ibListen := ip, ibPort := port\<rparr>"

definition live_inbound :: "managed \<Rightarrow> ssh_inbound" where
  "live_inbound g = bound_at (mgListener g) ((mgPlan g)\<lparr>ibUsers := map user_of_cred (mgAuth g)\<rparr>)"

definition liveSSHInboundFingerprints :: "ssh_manager \<Rightarrow> (int, string) gomap" where
  "liveSSHInboundFingerprints m = map (map_prod id (\<lambda>g. sshInboundFingerprint (live_inbound g))) (smListeners m)"

fun findInboundByID :: "ssh_inbound list \<Rightarrow> int \<Rightarrow> ssh_inbound" where
  "findInboundByID [] i = no_inbound"
| "findInboundByID (b # bs) i = (if ibId b = i then b else findInboundByID bs i)"

datatype drift = NoDrift | ListenerDrift "int list" "int list" | CredentialDrift

fun listen_differs :: "ssh_inbound \<Rightarrow> managed option \<Rightarrow> bool" where
  "listen_differs b None = False"
| "listen_differs b (Some g) =
     (let l = bound_at (mgListener g) (mgPlan g) in trim_space (ibListen b) \<noteq> trim_space (ibListen l) \<or> ibPort b \<noteq> ibPort l)"

fun compare_all :: "ssh_plan \<Rightarrow> ssh_manager \<Rightarrow> (int, string) gomap \<Rightarrow> (int, string) gomap \<Rightarrow> drift" where
  "compare_all p m live [] = NoDrift"
| "compare_all p m live ((i, fp) # rest) =
     (if gm_get live i = None then ListenerDrift [i] []
      else if gm_get live i \<noteq> Some fp then
        (if listen_differs (findInboundByID (plInbounds p) i) (gm_get (smListeners m) i) then ListenerDrift [] [] else CredentialDrift)
      else compare_all p m live rest)"

text \<open>\<^verbatim>\<open>checkDrift\<close>; no branch of it reports a drift of policies.\<close>

definition checkDrift :: "ssh_plan \<Rightarrow> ssh_manager \<Rightarrow> drift" where
  "checkDrift p m =
     (let desired = desiredSSHInboundFingerprints p; live = liveSSHInboundFingerprints m in
      if desired = [] \<and> live = [] then NoDrift
      else if gm_len desired \<noteq> gm_len live then
        ListenerDrift (filter (\<lambda>i. gm_get live i = None) (gm_keys desired)) (filter (\<lambda>i. gm_get desired i = None) (gm_keys live))
      else compare_all p m live desired)"

fun reconcile_at :: "ssh_inbound \<Rightarrow> managed option \<Rightarrow> ssh_manager \<Rightarrow> ssh_manager" where
  "reconcile_at b None m = m"
| "reconcile_at b (Some g) m = set_managed (ibId b) (g\<lparr>mgAuth := sshInboundCredentials (ibUsers b), mgPlan := b\<rparr>) m"

text \<open>\<^verbatim>\<open>reconcileInPlace\<close> replaces credentials and plan; counters are left as they are.\<close>

definition reconcileInPlace :: "ssh_plan \<Rightarrow> ssh_manager \<Rightarrow> ssh_manager" where
  "reconcileInPlace p m =
     fold (\<lambda>b m. if ibEnabled b then reconcile_at b (gm_get (smListeners m) (ibId b)) m else m) (plInbounds p) m"

fun same_listener :: "ssh_inbound \<Rightarrow> managed option \<Rightarrow> bool" where
  "same_listener b None = False"
| "same_listener b (Some g) = (let c = mgPlan g in ibId c = ibId b \<and> ibServer c = ibServer b \<and> ibName c = ibName b \<and>
     ibListen c = ibListen b \<and> ibAddress c = ibAddress b \<and> ibPort c = ibPort b \<and> ibEnabled c = ibEnabled b)"

definition credentialStateOnlyCompatible :: "ssh_plan \<Rightarrow> ssh_manager \<Rightarrow> bool" where
  "credentialStateOnlyCompatible p m =
     (let on = filter ibEnabled (plInbounds p) in
      list_all (\<lambda>b. same_listener b (gm_get (smListeners m) (ibId b))) on \<and> length on = gm_len (smListeners m))"

fun credentials_at :: "(nat \<Rightarrow> string) \<Rightarrow> ssh_inbound \<Rightarrow> managed option \<Rightarrow> ssh_manager \<Rightarrow> ssh_manager" where
  "credentials_at eps b None m = m"
| "credentials_at eps b (Some g) m =
     (let r = ensureSSHInboundCounters eps b (g\<lparr>mgAuth := sshInboundCredentials (ibUsers b), mgPlan := b\<rparr>, m)
      in set_managed (ibId b) (fst r) (snd r))"

definition applyCredentialStates :: "(nat \<Rightarrow> string) \<Rightarrow> (string \<Rightarrow> bool) \<Rightarrow> ssh_plan \<Rightarrow> ssh_manager \<Rightarrow> ssh_manager" where
  "applyCredentialStates eps allows p m =
     reapAuthorization allows
       (fold (\<lambda>b m. if ibEnabled b then credentials_at eps b (gm_get (smListeners m) (ibId b)) m else m) (plInbounds p) m)"

subsection \<open>Maps built by a loop\<close>

lemma gm_put_new: "k \<notin> set (gm_keys m) \<Longrightarrow> gm_put k v m = m @ [(k, v)]"
  by (induction m) (auto simp: gm_keys_def)

lemma fold_put_distinct:
  assumes "distinct (map key xs)" "\<forall>x \<in> set xs. key x \<notin> set (gm_keys m)"
  shows "fold (\<lambda>x. gm_put (key x) (f x)) xs m = m @ map (\<lambda>x. (key x, f x)) xs"
  using assms
proof (induction xs arbitrary: m)
  case (Cons x xs)
  then have "\<forall>y \<in> set xs. key y \<notin> set (gm_keys (m @ [(key x, f x)]))" by (auto simp: gm_keys_def) (metis imageI)
  then show ?case using Cons by (simp add: gm_put_new)
qed simp

lemma fold_filter: "fold (\<lambda>x m. if P x then f x m else m) xs m = fold f (filter P xs) m"
  by (induction xs arbitrary: m) simp_all

subsection \<open>What validation gives\<close>

lemma check_users_names:
  "check_users seen us = None \<Longrightarrow> distinct (map suName (filter suEnabled us)) \<and>
     (\<forall>u \<in> set us. suEnabled u \<longrightarrow> suName u \<notin> set seen \<and> check_user [] u = None)"
proof (induction us arbitrary: seen)
  case (Cons u us)
  show ?case
  proof (cases "suEnabled u")
    case True
    have c: "check_user seen u = None" "check_users (suName u # seen) us = None"
      using Cons.prems True by (auto split: if_splits)
    have "suName u \<notin> set seen" "check_user [] u = None"
      using c(1) by (auto simp: check_user_def Let_def split: if_splits)
    then show ?thesis using Cons.IH [OF c(2)] True by auto
  qed (use Cons in auto)
qed simp

lemma check_inbounds_ids:
  "check_inbounds ids ends bs = None \<Longrightarrow> distinct (map ibId bs) \<and>
     (\<forall>b \<in> set bs. ibId b \<notin> set ids \<and> (ibEnabled b \<longrightarrow> check_users [] (ibUsers b) = None))"
proof (induction bs arbitrary: ids ends)
  case (Cons b bs)
  then obtain ends' where "check_inbounds (ibId b # ids) ends' bs = None"
    "ibId b \<notin> set ids" "ibEnabled b \<longrightarrow> check_users [] (ibUsers b) = None"
    by (auto simp: Let_def split: if_splits)
  then show ?case using Cons.IH by fastforce
qed simp

lemma valid_plan:
  assumes "validateSSHInboundPlan p = None" "b \<in> set (plInbounds p)" "ibEnabled b"
  shows "distinct (map ibId (plInbounds p))" "distinct (map suName (filter suEnabled (ibUsers b)))"
    "u \<in> set (ibUsers b) \<Longrightarrow> suEnabled u \<Longrightarrow> check_user [] u = None"
  using check_inbounds_ids [of "[]" "[]" "plInbounds p"] check_users_names [of "[]" "ibUsers b"] assms
  by (auto simp: validateSSHInboundPlan_def)

lemma credentials_list:
  assumes "distinct (map suName (filter suEnabled us))"
  shows "sshInboundCredentials us = map (\<lambda>u. (suName u, cred_of u)) (filter suEnabled us)"
proof -
  have "sshInboundCredentials us = fold (\<lambda>u. gm_put (suName u) (cred_of u)) (filter suEnabled us) []"
    by (simp add: sshInboundCredentials_def put_cred_def [abs_def] fold_filter)
  then show ?thesis using fold_put_distinct [OF assms, of "[]" cred_of] by (simp add: gm_keys_def)
qed

subsection \<open>Fingerprints of what runs\<close>

lemma device_byte: "alnum c \<or> c = CHR ''_'' \<or> c = CHR ''-'' \<Longrightarrow> word_byte c"
proof (elim disjE)
  assume "alnum c"
  then show "word_byte c" unfolding alnum_def in_bytes_def word_byte_def by linarith
qed (simp_all add: word_byte_def)

lemma device_word:
  assumes "check_user [] u = None"
  shows "trim_space (trim_space (suDevice u)) = trim_space (suDevice u)"
proof -
  have "trim_space (suDevice u) = [] \<or> sshDeviceIDHashPattern (trim_space (suDevice u))"
    using assms by (auto simp: check_user_def Let_def split: if_splits)
  then have "list_all word_byte (trim_space (suDevice u))"
  proof
    assume "sshDeviceIDHashPattern (trim_space (suDevice u))"
    then show ?thesis unfolding sshDeviceIDHashPattern_def by (elim conjE) (erule list.pred_mono_strong, rule device_byte)
  qed simp
  then show ?thesis by (rule trim_word)
qed

lemma status_word:
  assumes "check_user [] u = None" "trim_space (suStatus u) \<noteq> []"
  shows "trim_space (status_or_active (suStatus u)) = trim_space (suStatus u)"
proof -
  have s: "status_or_active (suStatus u) = trim_space (suStatus u)" using assms(2) by (simp add: status_or_active_def Let_def)
  have "status_or_active (suStatus u) \<in> set known_statuses"
    using assms(1) by (auto simp: check_user_def Let_def split: if_splits)
  moreover have "list_all (list_all word_byte) known_statuses" by code_simp
  ultimately have "list_all word_byte (trim_space (suStatus u))" unfolding s by (simp add: list_all_iff)
  from trim_word [OF this] show ?thesis unfolding s .
qed

lemma user_fingerprint:
  assumes "check_user [] u = None" "trim_space (suStatus u) \<noteq> []"
  shows "sshInboundUserFingerprint (user_of_cred (suName u, cred_of u)) = sshInboundUserFingerprint u"
  using device_word [OF assms(1)] status_word [OF assms]
  by (simp add: sshInboundUserFingerprint_def user_of_cred_def cred_of_def Let_def)

lemma live_fingerprint:
  assumes auth: "mgAuth g = sshInboundCredentials (ibUsers b)" "distinct (map suName (filter suEnabled (ibUsers b)))"
    and users: "\<And>u. u \<in> set (ibUsers b) \<Longrightarrow> suEnabled u \<Longrightarrow> check_user [] u = None \<and> trim_space (suStatus u) \<noteq> []"
    and plan: "mgPlan g = b\<lparr>ibPolicies := ps\<rparr>" "gm_keys ps = gm_keys (ibPolicies b)"
    and listener: "mgListener g = Some (ip, ibPort b)" "trim_space ip = trim_space (ibListen b)"
  shows "sshInboundFingerprint (live_inbound g) = sshInboundFingerprint b"
proof -
  let ?us = "filter suEnabled (ibUsers b)"
  have "filter suEnabled (map user_of_cred (mgAuth g)) = map (\<lambda>u. user_of_cred (suName u, cred_of u)) ?us"
    using credentials_list [OF auth(2)] auth(1) by (auto simp: user_of_cred_def Let_def filter_map comp_def)
  then have "map sshInboundUserFingerprint (filter suEnabled (map user_of_cred (mgAuth g))) = map sshInboundUserFingerprint ?us"
    using users user_fingerprint by simp
  then have "fingerprint_text (live_inbound g) = fingerprint_text b"
    using plan listener by (simp add: fingerprint_text_def live_inbound_def Let_def)
  then show ?thesis by (simp add: sshInboundFingerprint_def)
qed

subsection \<open>A manager built from a plan\<close>

text \<open>What building and updating counters leaves alone.\<close>

definition same_face :: "managed \<times> ssh_manager \<Rightarrow> managed \<times> ssh_manager \<Rightarrow> bool" where
  "same_face w w' \<longleftrightarrow> mgPlan (fst w') = mgPlan (fst w) \<and> mgAuth (fst w') = mgAuth (fst w) \<and>
     mgListener (fst w') = mgListener (fst w) \<and> smListeners (snd w') = smListeners (snd w)"

lemma same_face_refl [simp]: "same_face w w"
  by (simp add: same_face_def)

lemma same_face_fold: "(\<And>x w. same_face w (f x w)) \<Longrightarrow> same_face w (fold f xs w)"
proof (induction xs arbitrary: w)
  case (Cons x xs)
  then show ?case using Cons.IH [of "f x w"] Cons.prems [of w x] by (simp add: same_face_def)
qed simp

lemma user_usage_listeners: "smListeners (snd (user_usage_of u m)) = smListeners m"
  by (cases "gm_get (smUsageOf m) u") (simp_all add: user_usage_of_def Let_def)

lemma install_counter_face: "same_face w (install_counter eps u w)"
  by (simp add: same_face_def install_counter_def Let_def user_usage_listeners)

lemma ensure_counter_face: "same_face w (ensure_counter eps u w)"
  by (simp add: same_face_def ensure_counter_def Let_def user_usage_listeners)

lemma newManaged_face:
  "mgPlan (fst (newManagedSSHInbound eps b m)) = b" "mgAuth (fst (newManagedSSHInbound eps b m)) = sshInboundCredentials (ibUsers b)"
  "smListeners (snd (newManagedSSHInbound eps b m)) = smListeners m"
  using same_face_fold [where f = "install_counter eps", OF install_counter_face]
  unfolding newManagedSSHInbound_def same_face_def by simp_all

definition serves :: "ssh_inbound \<Rightarrow> int \<times> managed \<Rightarrow> bool" where
  "serves b bg \<longleftrightarrow> fst bg = ibId b \<and> mgPlan (snd bg) = b \<and> mgAuth (snd bg) = sshInboundCredentials (ibUsers b)"

lemma add_inbounds_serve:
  assumes "distinct (map ibId bs)" "\<forall>b \<in> set bs. ibId b \<notin> set (gm_keys (smListeners m))"
  shows "\<exists>ls. smListeners (fold (add_inbound eps) bs m) = smListeners m @ ls \<and> list_all2 serves (filter ibEnabled bs) ls"
  using assms
proof (induction bs arbitrary: m)
  case (Cons b bs)
  show ?case
  proof (cases "ibEnabled b")
    case True
    let ?r = "newManagedSSHInbound eps b m"
    define m1 where "m1 = add_inbound eps b m"
    have m1: "smListeners m1 = smListeners m @ [(ibId b, fst ?r)]"
      using True Cons.prems(2) by (simp add: m1_def add_inbound_def Let_def set_managed_def newManaged_face gm_put_new)
    have "\<forall>c \<in> set bs. ibId c \<notin> set (gm_keys (smListeners m1))"
      using Cons.prems m1 by (auto simp: gm_keys_def) (metis imageI)
    from Cons.IH [OF _ this] Cons.prems(1) obtain ls where
      "smListeners (fold (add_inbound eps) bs m1) = smListeners m1 @ ls" "list_all2 serves (filter ibEnabled bs) ls" by auto
    moreover have "serves b (ibId b, fst ?r)" by (simp add: serves_def newManaged_face)
    ultimately show ?thesis using True m1 by (intro exI [of _ "(ibId b, fst ?r) # ls"]) (simp add: m1_def)
  next
    case False
    then have "add_inbound eps b m = m" by (simp add: add_inbound_def)
    then show ?thesis using Cons False by simp
  qed
qed simp

subsection \<open>Drift\<close>

lemma compare_equal:
  "distinct (map fst live) \<Longrightarrow> set ds \<subseteq> set live \<Longrightarrow> compare_all p m live ds = NoDrift"
proof (induction ds)
  case (Cons d ds)
  obtain i fp where d: "d = (i, fp)" by force
  have "gm_get live i = Some fp" using Cons.prems d gm_in_set_get [of live i fp] by (simp add: gm_wf_def)
  then show ?case using Cons d by simp
qed simp

lemma desired_list:
  assumes "distinct (map ibId (plInbounds p))"
  shows "desiredSSHInboundFingerprints p = map (\<lambda>b. (ibId b, sshInboundFingerprint b)) (filter ibEnabled (plInbounds p))"
proof -
  have d: "distinct (map ibId (filter ibEnabled (plInbounds p)))" using assms by (rule distinct_map_filter)
  have "desiredSSHInboundFingerprints p
      = fold (\<lambda>b. gm_put (ibId b) (sshInboundFingerprint b)) (filter ibEnabled (plInbounds p)) []"
    by (simp add: desiredSSHInboundFingerprints_def put_fingerprint_def [abs_def] fold_filter)
  then show ?thesis using fold_put_distinct [OF d, of "[]" sshInboundFingerprint] by (simp add: gm_keys_def)
qed

text \<open>The plans that are recognised later: every enabled user has an explicit status, and every listener
  is bound to the address its plan asks for.\<close>

definition explicit_statuses :: "ssh_plan \<Rightarrow> bool" where
  "explicit_statuses p = list_all (\<lambda>b. list_all (\<lambda>u. trim_space (suStatus u) \<noteq> []) (filter suEnabled (ibUsers b)))
     (filter ibEnabled (plInbounds p))"

fun bound_like :: "ssh_inbound \<Rightarrow> (string \<times> int) option \<Rightarrow> bool" where
  "bound_like b None = False"
| "bound_like b (Some (ip, port)) = (port = ibPort b \<and> trim_space ip = trim_space (ibListen b))"

definition binds_as_asked :: "(string \<Rightarrow> int \<Rightarrow> (string \<times> int) option) \<Rightarrow> ssh_plan \<Rightarrow> bool" where
  "binds_as_asked listen p = list_all (\<lambda>b. bound_like b (listen (listen_or_any (ibListen b)) (ibPort b))) (filter ibEnabled (plInbounds p))"

lemma started_fingerprint:
  assumes valid: "validateSSHInboundPlan p = None" and b: "b \<in> set (plInbounds p)" "ibEnabled b"
    and st: "explicit_statuses p" and bind: "binds_as_asked listen p"
    and serves: "serves (b\<lparr>ibPolicies := ps\<rparr>) bg" and keys: "gm_keys ps = gm_keys (ibPolicies b)"
  shows "sshInboundFingerprint (live_inbound ((snd bg)\<lparr>mgListener := listen (listen_or_any (ibListen b)) (ibPort b)\<rparr>))
    = sshInboundFingerprint b"
proof -
  obtain ip where l: "listen (listen_or_any (ibListen b)) (ibPort b) = Some (ip, ibPort b)" "trim_space ip = trim_space (ibListen b)"
    using bind b by (cases "listen (listen_or_any (ibListen b)) (ibPort b)") (auto simp: binds_as_asked_def list_all_iff)
  have u: "check_user [] u = None \<and> trim_space (suStatus u) \<noteq> []" if "u \<in> set (ibUsers b)" "suEnabled u" for u
    using valid_plan(3) [OF valid b that] st b that by (auto simp: explicit_statuses_def list_all_iff)
  show ?thesis
    by (rule live_fingerprint [OF _ valid_plan(2) [OF valid b] u, where ps = ps and ip = ip])
      (use serves keys l in \<open>simp_all add: serves_def\<close>)
qed

text \<open>C37: A deployed plan shows no drift. Once a manager built from a valid plan has started, and the
  statuses are explicit and the listeners bound as asked, \<^verbatim>\<open>checkDrift\<close> finds what runs, rebuilt from the
  live credentials, equal to the plan; so applying the plan again changes nothing.\<close>

theorem applied_plan_has_no_drift:
  assumes "validateSSHInboundPlan p = None" "explicit_statuses p" "binds_as_asked listen p"
    and "newSSHInboundManager eps (Some core) True True p = Some m" "start_manager listen m = (True, m')"
  shows "checkDrift p m' = NoDrift"
proof -
  let ?half = "\<lambda>b. b\<lparr>ibPolicies := map (\<lambda>g. (fst g, halve_policy core (snd g))) (ibPolicies b)\<rparr>"
  let ?en = "filter ibEnabled (plInbounds p)"
  have ids: "distinct (map ibId (plInbounds p))"
    using check_inbounds_ids [of "[]" "[]" "plInbounds p"] assms(1) by (simp add: validateSSHInboundPlan_def)
  have m: "m = fold (add_inbound eps) (map ?half (plInbounds p)) empty_manager"
    using assms(4) by (simp add: partitionSSHInboundPlanPolicies_def)
  have en: "filter ibEnabled (map ?half (plInbounds p)) = map ?half ?en" by (simp add: filter_map comp_def)
  obtain ls where ls: "smListeners m = ls" "list_all2 serves (map ?half ?en) ls"
    using add_inbounds_serve [of "map ?half (plInbounds p)" empty_manager eps] ids
    by (auto simp: m empty_manager_def gm_keys_def comp_def en)
  let ?fp = "\<lambda>b. (ibId b, sshInboundFingerprint b)"
  let ?bind = "\<lambda>g. g\<lparr>mgListener := listen (listen_or_any (ibListen (mgPlan g))) (ibPort (mgPlan g))\<rparr>"
  have "smListeners m' = map (map_prod id ?bind) ls"
    using assms(5) ls(1) by (auto simp: start_manager_def Let_def map_managed_def split: if_splits)
  then have live: "liveSSHInboundFingerprints m' = map (map_prod id (\<lambda>g. sshInboundFingerprint (live_inbound (?bind g)))) ls"
    by (simp add: liveSSHInboundFingerprints_def split_beta map_prod_def)
  have "list_all2 (\<lambda>b bg. map_prod id (\<lambda>g. sshInboundFingerprint (live_inbound (?bind g))) bg = ?fp b) ?en ls"
  proof -
    have "list_all2 (\<lambda>b bg. b \<in> set ?en \<and> serves (?half b) bg) ?en ls"
      using ls(2) nth_mem [of _ ?en] by (simp add: list_all2_map1 list_all2_conv_all_nth del: set_filter)
    then show ?thesis
    proof (rule list_all2_mono)
      fix b bg assume h: "b \<in> set ?en \<and> serves (?half b) bg"
      then have "sshInboundFingerprint (live_inbound (?bind (snd bg))) = sshInboundFingerprint b"
        using started_fingerprint [OF assms(1) _ _ assms(2,3), of b _ bg] by (simp add: serves_def gm_keys_def comp_def)
      then show "map_prod id (\<lambda>g. sshInboundFingerprint (live_inbound (?bind g))) bg = ?fp b"
        using h by (cases bg) (simp add: serves_def)
    qed
  qed
  then have eq: "liveSSHInboundFingerprints m' = desiredSSHInboundFingerprints p"
    unfolding live desired_list [OF ids] by (induction rule: list_all2_induct) (simp_all add: id_def)
  have "distinct (map fst (desiredSSHInboundFingerprints p))"
    unfolding desired_list [OF ids] using distinct_map_filter [OF ids] by (simp add: comp_def)
  then show ?thesis using compare_equal [of "desiredSSHInboundFingerprints p" "desiredSSHInboundFingerprints p"] eq
    by (simp add: checkDrift_def Let_def)
qed

subsection \<open>An example plan\<close>

definition ex_name :: string where
  "ex_name = ''u0123456789abcdef0123456789abcdef''"

definition ex_ssh_user :: ssh_user where
  "ex_ssh_user = \<lparr>suKey = ''0123456789abcdef0123456789abcdef'', suUser = 7, suName = ex_name, suPassword = ''secret'', suDevice = [], suEpoch = 0,
     suStatus = ''active'', suPath = 2, suRouteKind = ''kernel'', suOutbound = [], suRouteTag = ''in-3'', suRouteUser = ex_name,
     suEnabled = True\<rparr>"

definition ex_inbound :: ssh_inbound where
  "ex_inbound = \<lparr>ibId = 3, ibServer = 1, ibName = ''ssh'', ibListen = ''10.0.0.1'', ibAddress = [], ibPort = 2222, ibEnabled = True,
     ibUsers = [ex_ssh_user], ibPolicies = [(''user:7'', ex_ssh_policy)]\<rparr>"

definition ex_plan :: ssh_plan where
  "ex_plan = \<lparr>plVersion = 1, plInbounds = [ex_inbound]\<rparr>"

definition ex_eps :: "nat \<Rightarrow> string" where
  "ex_eps n = ''e'' @ format_int (int n)"

definition ex_manager :: ssh_manager where
  "ex_manager = the_default empty_manager (newSSHInboundManager ex_eps (Some [7]) True True ex_plan)"

definition ex_started :: ssh_manager where
  "ex_started = snd (start_manager (\<lambda>ip port. Some (ip, port)) ex_manager)"

theorem applied_plan_has_no_drift_witness: "checkDrift ex_plan ex_started = NoDrift"
proof -
  have v: "validateSSHInboundPlan ex_plan = None" by code_simp
  have e: "explicit_statuses ex_plan" "binds_as_asked (\<lambda>ip port. Some (ip, port)) ex_plan" by code_simp+
  have m: "newSSHInboundManager ex_eps (Some [7]) True True ex_plan = Some ex_manager" by (simp add: ex_manager_def)
  have "start_manager (\<lambda>ip port. Some (ip, port)) ex_manager = (True, ex_started)"
    by (simp add: ex_started_def start_manager_def Let_def list_all_iff)
  from applied_plan_has_no_drift [OF v e m this] show ?thesis .
qed

text \<open>Where the two fingerprints part: an empty status is kept as \<^verbatim>\<open>active\<close>, so the text under the live digest is
  longer than the one under the digest of the plan, and the plan is redeployed each time it arrives.\<close>

lemma empty_status_drifts:
  assumes "check_user [] u = None" "trim_space (suStatus u) = []"
  shows "sshInboundUserFingerprint (user_of_cred (suName u, cred_of u)) \<noteq> sshInboundUserFingerprint u"
proof -
  have "trim_space ''active'' = ''active''" by code_simp
  then have "length (sshInboundUserFingerprint (user_of_cred (suName u, cred_of u))) = length (sshInboundUserFingerprint u) + 6"
    using device_word [OF assms(1)] assms(2)
    by (simp add: sshInboundUserFingerprint_def user_of_cred_def cred_of_def Let_def status_or_active_def)
  then show ?thesis by (metis add_eq_self_zero zero_neq_numeral)
qed

end
