(* ===== verification/SshHistory.thy ===== *)
theory SshHistory
  imports SshInbound
begin

text \<open>
  Histories of the SSH inbound manager: starts, logins, connections, forwarded channels, policy
  updates, credential updates, reaps and reports in any order. The invariant \<open>manager_ok\<close>
  (every credential has a counter, every session is registered once) holds throughout; from it
  follow what a login may answer and which sessions outlive a change of the credentials.
\<close>

subsection \<open>Histories\<close>

text \<open>What happens to a running manager: logins, connections, channels, new policies and credentials, and
  reports.\<close>

datatype ssh_event =
    Login auth_env bool int string string
  | Accept int nat
  | Open "string \<Rightarrow> bool" int nat string permissions
  | Finish int nat
  | Channel channel_env int nat string "permissions option"
  | Policies policy_env "traffic_policy option list" "(string, checkpoint) gomap"
  | Report policy_env
  | Credentials "nat \<Rightarrow> string" "string \<Rightarrow> bool" ssh_plan
  | Reap "string \<Rightarrow> bool"
  | Start "string \<Rightarrow> int \<Rightarrow> (string \<times> int) option"
  | Stop

fun on_managed :: "int \<Rightarrow> (managed \<Rightarrow> managed) \<Rightarrow> managed option \<Rightarrow> ssh_manager \<Rightarrow> ssh_manager" where
  "on_managed b f None m = m"
| "on_managed b f (Some g) m = set_managed b (f g) m"

fun manager_step :: "ssh_event \<Rightarrow> ssh_manager \<Rightarrow> ssh_manager" where
  "manager_step (Login x probe b user password) m = snd (PasswordCallback x probe b user password m)"
| "manager_step (Accept b n) m = on_managed b (accept_conn n) (gm_get (smListeners m) b) m"
| "manager_step (Open allows b n user pm) m = on_managed b (open_session allows n user pm) (gm_get (smListeners m) b) m"
| "manager_step (Finish b n) m = on_managed b (end_conn n) (gm_get (smListeners m) b) m"
| "manager_step (Channel e b n user pm) m = snd (handleDirectTCPIP e b n user pm m)"
| "manager_step (Policies x ps acks) m = updatePolicies x ps acks m"
| "manager_step (Report x) m = snd (ssh_snapshot x m)"
| "manager_step (Credentials eps allows p) m = applyCredentialStates eps allows p m"
| "manager_step (Reap allows) m = reapAuthorization allows m"
| "manager_step (Start listen) m = snd (start_manager listen m)"
| "manager_step Stop m = close_manager m"

definition ssh_run :: "ssh_event list \<Rightarrow> ssh_manager \<Rightarrow> ssh_manager" where
  "ssh_run es m = fold manager_step es m"

subsection \<open>Every credential has a counter\<close>

definition counted :: "managed \<Rightarrow> bool" where
  "counted g = list_all (\<lambda>nc. crUser (snd nc) \<in> set (gm_keys (mgCounters g))) (mgAuth g)"

definition managed_ok :: "managed \<Rightarrow> bool" where
  "managed_ok g \<longleftrightarrow> counted g \<and> gm_wf (mgSessions g)"

definition manager_ok :: "ssh_manager \<Rightarrow> bool" where
  "manager_ok m \<longleftrightarrow> gm_wf (smListeners m) \<and> list_all (\<lambda>bg. managed_ok (snd bg)) (smListeners m)"

lemma counted_mono:
  "counted g \<Longrightarrow> mgAuth g' = mgAuth g \<Longrightarrow> set (gm_keys (mgCounters g)) \<subseteq> set (gm_keys (mgCounters g')) \<Longrightarrow> counted g'"
  by (auto simp: counted_def list_all_iff)

lemma managed_ok_mono:
  "managed_ok g \<Longrightarrow> mgAuth g' = mgAuth g \<Longrightarrow> set (gm_keys (mgCounters g)) \<subseteq> set (gm_keys (mgCounters g')) \<Longrightarrow>
     gm_wf (mgSessions g') \<Longrightarrow> managed_ok g'"
  unfolding managed_ok_def by (blast intro: counted_mono)

lemma managed_ok_counter: "managed_ok g \<Longrightarrow> managed_ok (g\<lparr>mgCounters := gm_put u c (mgCounters g)\<rparr>)"
  by (rule managed_ok_mono) (auto simp: gm_keys_put managed_ok_def)

lemma managed_ok_drop: "managed_ok g \<Longrightarrow> managed_ok (drop_conns bad g)"
  by (rule managed_ok_mono) (auto simp: drop_conns_def managed_ok_def gm_wf_filter)

lemma managed_ok_session: "managed_ok g \<Longrightarrow> managed_ok (g\<lparr>mgSessions := gm_put n u (mgSessions g)\<rparr>)"
  by (rule managed_ok_mono) (auto simp: managed_ok_def gm_wf_put)

lemma managed_ok_conns: "managed_ok g \<Longrightarrow> managed_ok (g\<lparr>mgConns := x\<rparr>)"
  by (rule managed_ok_mono) (auto simp: managed_ok_def)

lemmas managed_oks = managed_ok_counter managed_ok_drop managed_ok_session managed_ok_conns

lemma manager_ok_get: "manager_ok m \<Longrightarrow> gm_get (smListeners m) b = Some g \<Longrightarrow> managed_ok g"
  using gm_get_in_set [of "smListeners m" b g] by (auto simp: manager_ok_def list_all_iff)

lemma manager_ok_set: "manager_ok m \<Longrightarrow> managed_ok g \<Longrightarrow> manager_ok (set_managed b g m)"
  using set_gm_put [of b g "smListeners m"] by (auto simp: manager_ok_def set_managed_def gm_wf_put list_all_iff)

lemma manager_ok_same: "manager_ok m \<Longrightarrow> smListeners m' = smListeners m \<Longrightarrow> manager_ok m'"
  by (simp add: manager_ok_def)

lemma manager_ok_map:
  "manager_ok m \<Longrightarrow> (\<And>g. managed_ok g \<Longrightarrow> managed_ok (f g)) \<Longrightarrow> manager_ok (map_managed f m)"
  by (auto simp: manager_ok_def map_managed_def gm_wf_def list_all_iff comp_def)

lemma on_managed_ok:
  "manager_ok m \<Longrightarrow> (\<And>g. managed_ok g \<Longrightarrow> managed_ok (f g)) \<Longrightarrow> manager_ok (on_managed b f (gm_get (smListeners m) b) m)"
  using manager_ok_get [of m b] by (cases "gm_get (smListeners m) b") (auto intro: manager_ok_set)

lemma quota_gate_ok: "managed_ok g \<Longrightarrow> managed_ok (snd (quota_gate x g c us k))"
  by (cases k) (simp_all add: Let_def managed_oks)

lemma PasswordCallback_ok: "manager_ok m \<Longrightarrow> manager_ok (snd (PasswordCallback x probe b user password m))"
proof (cases "gm_get (smListeners m) b")
  case (Some g)
  assume m: "manager_ok m"
  then have g: "managed_ok g" by (rule manager_ok_get [OF _ Some])
  show ?thesis
  proof (cases "gm_get (mgAuth g) user")
    case None
    then show ?thesis using m g Some by (simp add: PasswordCallback_def manager_ok_set)
  next
    case (Some c)
    obtain r where r: "password_check x probe password g (Some c) m = r" by simp
    have "managed_ok (fst (snd r)) \<and> manager_ok (snd (snd r))"
      using m g manager_ok_same [OF m] quota_gate_ok [OF g] unfolding r [symmetric] by (simp add: Let_def)
    then show ?thesis using \<open>gm_get (smListeners m) b = Some g\<close> Some r
      by (cases r) (simp add: PasswordCallback_def manager_ok_set)
  qed
qed (simp add: PasswordCallback_def)

lemma open_session_ok: "managed_ok g \<Longrightarrow> managed_ok (open_session allows n user pm g)"
  by (simp add: open_session_def Let_def managed_ok_drop managed_ok_conns managed_ok_session)

lemma channel_target_ok: "manager_ok m \<Longrightarrow> manager_ok (snd (channel_target e pm t g m))"
proof (cases t)
  case (Some hp)
  assume "manager_ok m"
  then show ?thesis unfolding Some
    by (cases hp, cases "resolvePermittedSSHDestination (ceResolve e) (fst hp) (snd hp)") (auto intro: manager_ok_same)
qed simp

lemma channel_gate_ok: "manager_ok m \<Longrightarrow> managed_ok g \<Longrightarrow> manager_ok (snd (channel_gate e pm b g k m))"
  by (cases k) (simp_all add: Let_def manager_ok_set managed_oks channel_target_ok)

lemma handleDirectTCPIP_ok: "manager_ok m \<Longrightarrow> manager_ok (snd (handleDirectTCPIP e b n user pm m))"
proof (cases "gm_get (smListeners m) b")
  case (Some g)
  assume m: "manager_ok m"
  then have g: "managed_ok g" by (rule manager_ok_get [OF _ Some])
  show ?thesis using m g Some
    by (cases pm) (simp_all add: handleDirectTCPIP_def end_conn_def manager_ok_set managed_ok_drop channel_gate_ok)
qed (simp add: handleDirectTCPIP_def)

text \<open>Loops over pairs of a listener and the manager.\<close>

definition pair_ok :: "managed \<times> ssh_manager \<Rightarrow> bool" where
  "pair_ok w \<longleftrightarrow> managed_ok (fst w) \<and> manager_ok (snd w)"

lemma fold_keeps: "P w \<Longrightarrow> (\<And>x w. P w \<Longrightarrow> P (f x w)) \<Longrightarrow> P (fold f xs w)"
  by (induction xs arbitrary: w) simp_all

lemma ack_counter_ok: "pair_ok w \<Longrightarrow> pair_ok (ack_counter acks uc w)"
  by (auto simp: pair_ok_def ack_counter_def Let_def managed_oks intro: manager_ok_same)

lemma policy_step_ok: "pair_ok w \<Longrightarrow> pair_ok (policy_step x p w)"
proof -
  assume w: "pair_ok w"
  have "pair_ok (policy_on x p k w)" for k
    by (cases k) (use w in \<open>auto simp: pair_ok_def Let_def managed_oks closeUserConnections_def intro: manager_ok_same\<close>)
  then show ?thesis using w by (simp add: policy_step_def)
qed

lemma update_managed_ok: "manager_ok m \<Longrightarrow> managed_ok (snd bg) \<Longrightarrow> manager_ok (update_managed x ps acks bg m)"
proof -
  assume h: "manager_ok m" "managed_ok (snd bg)"
  have "pair_ok (fold (policy_step x) ps (fold (ack_counter acks) (mgCounters (snd bg)) (snd bg, m)))"
    by (intro fold_keeps [where P = pair_ok] policy_step_ok ack_counter_ok) (simp_all add: pair_ok_def h)
  then show ?thesis by (simp add: update_managed_def Let_def pair_ok_def manager_ok_set)
qed

lemma updatePolicies_ok: "manager_ok m \<Longrightarrow> manager_ok (updatePolicies x raw acks m)"
proof -
  assume m: "manager_ok m"
  have "manager_ok (fold (update_managed x ps acks) bgs m)" if "list_all (\<lambda>bg. managed_ok (snd bg)) bgs" "manager_ok m" for ps bgs m
    using that by (induction bgs arbitrary: m) (simp_all add: update_managed_ok)
  then show ?thesis using m by (simp add: updatePolicies_def manager_ok_def)
qed

lemma ssh_snapshot_ok: "manager_ok m \<Longrightarrow> manager_ok (snd (ssh_snapshot x m))"
proof -
  assume m: "manager_ok m"
  have "managed_ok (g\<lparr>mgCounters := map (map_prod id (rolled x)) (mgCounters g)\<rparr>)" if "managed_ok g" for g
    by (rule managed_ok_mono [OF that]) (use that in \<open>auto simp: managed_ok_def gm_keys_def comp_def\<close>)
  then show ?thesis using m by (simp add: ssh_snapshot_def manager_ok_map)
qed

lemma reapAuthorization_ok: "manager_ok m \<Longrightarrow> manager_ok (reapAuthorization allows m)"
  by (simp add: reapAuthorization_def reap_managed_def manager_ok_map managed_ok_drop)

text \<open>After the loop over the users of a plan each enabled one has a counter.\<close>

definition has_counter :: "int \<Rightarrow> managed \<times> ssh_manager \<Rightarrow> bool" where
  "has_counter user w \<longleftrightarrow> user \<in> set (gm_keys (mgCounters (fst w)))"

lemma counters_made:
  assumes "\<And>u w. suEnabled u \<Longrightarrow> has_counter (suUser u) (f u w)" "\<And>u w k. has_counter k w \<Longrightarrow> has_counter k (f u w)"
  shows "u \<in> set us \<Longrightarrow> suEnabled u \<Longrightarrow> has_counter (suUser u) (fold f us w)"
proof (induction us arbitrary: w)
  case (Cons v us)
  show ?case
  proof (cases "u = v")
    case True
    then have "has_counter (suUser u) (f v w)" using assms(1) Cons.prems by simp
    from fold_keeps [where P = "has_counter (suUser u)", OF this assms(2)] show ?thesis by simp
  qed (use Cons in simp)
qed simp

lemma install_counter_has: "suEnabled u \<Longrightarrow> has_counter (suUser u) (install_counter eps u w)"
  "has_counter k w \<Longrightarrow> has_counter k (install_counter eps u w)"
  by (simp_all add: has_counter_def install_counter_def Let_def gm_keys_put)

lemma ensure_counter_has: "suEnabled u \<Longrightarrow> has_counter (suUser u) (ensure_counter eps u w)"
  "has_counter k w \<Longrightarrow> has_counter k (ensure_counter eps u w)"
  by (auto simp: has_counter_def ensure_counter_def Let_def gm_keys_put gm_keys_get)

lemma credentials_from: "nc \<in> set (sshInboundCredentials us) \<Longrightarrow> \<exists>u \<in> set us. suEnabled u \<and> snd nc = cred_of u"
proof -
  have "nc \<in> set (fold put_cred us m) \<Longrightarrow> nc \<in> set m \<or> (\<exists>u \<in> set us. suEnabled u \<and> snd nc = cred_of u)" for m
  proof (induction us arbitrary: m)
    case (Cons u us)
    then have "nc \<in> set (put_cred u m) \<or> (\<exists>u \<in> set us. suEnabled u \<and> snd nc = cred_of u)" by simp
    then show ?case using set_gm_put [of "suName u" "cred_of u" m] by (auto simp: put_cred_def split: if_splits)
  qed simp
  then show "nc \<in> set (sshInboundCredentials us) \<Longrightarrow> ?thesis" by (force simp: sshInboundCredentials_def)
qed

lemma counted_credentials:
  "mgAuth g = sshInboundCredentials us \<Longrightarrow> (\<And>u. u \<in> set us \<Longrightarrow> suEnabled u \<Longrightarrow> suUser u \<in> set (gm_keys (mgCounters g))) \<Longrightarrow> counted g"
  using credentials_from [of _ us] by (fastforce simp: counted_def list_all_iff cred_of_def)

lemma newManaged_ok: "managed_ok (fst (newManagedSSHInbound eps b m))"
proof -
  let ?r = "newManagedSSHInbound eps b m"
  have "mgSessions (fst ?r) = []"
    unfolding newManagedSSHInbound_def
    by (rule fold_keeps [where P = "\<lambda>w. mgSessions (fst w) = []"]) (simp_all add: install_counter_def Let_def)
  moreover have "counted (fst ?r)"
  proof (rule counted_credentials [OF newManaged_face(2)])
    fix u assume u: "u \<in> set (ibUsers b)" "suEnabled u"
    from counters_made [where f = "install_counter eps", OF install_counter_has u] show "suUser u \<in> set (gm_keys (mgCounters (fst ?r)))"
      by (simp add: newManagedSSHInbound_def has_counter_def)
  qed
  ultimately show ?thesis by (simp add: managed_ok_def)
qed

lemma add_inbound_ok: "manager_ok m \<Longrightarrow> manager_ok (add_inbound eps b m)"
  using manager_ok_same [OF _ newManaged_face(3)] by (simp add: add_inbound_def Let_def manager_ok_set newManaged_ok)

lemma new_manager_ok: "newSSHInboundManager eps core signer relay p = Some m \<Longrightarrow> manager_ok m"
proof (cases core)
  case (Some c)
  assume "newSSHInboundManager eps core signer relay p = Some m"
  then have "m = fold (add_inbound eps) (plInbounds (partitionSSHInboundPlanPolicies c p)) empty_manager"
    using Some by (simp split: if_splits)
  moreover have "manager_ok empty_manager" by (simp add: manager_ok_def empty_manager_def)
  ultimately show ?thesis using fold_keeps [where P = manager_ok and f = "add_inbound eps"] add_inbound_ok by simp
qed simp

text \<open>New credentials for a running listener: sessions and connections stay, missing counters are made.\<close>

lemma ensure_counters:
  assumes "r = ensureSSHInboundCounters eps b (g\<lparr>mgAuth := sshInboundCredentials (ibUsers b), mgPlan := b\<rparr>, m)" "gm_wf (mgSessions g)"
  shows "managed_ok (fst r)" "smListeners (snd r) = smListeners m"
    "mgSessions (fst r) = mgSessions g" "mgConns (fst r) = mgConns g"
proof -
  let ?w = "(g\<lparr>mgAuth := sshInboundCredentials (ibUsers b), mgPlan := b\<rparr>, m)"
  have face: "same_face ?w r" unfolding assms(1) ensureSSHInboundCounters_def by (rule same_face_fold) (rule ensure_counter_face)
  have "mgSessions (fst r) = mgSessions g \<and> mgConns (fst r) = mgConns g"
    unfolding assms(1) ensureSSHInboundCounters_def
    by (rule fold_keeps [where P = "\<lambda>w. mgSessions (fst w) = mgSessions g \<and> mgConns (fst w) = mgConns g"])
      (simp_all add: ensure_counter_def Let_def)
  then show s: "mgSessions (fst r) = mgSessions g" "mgConns (fst r) = mgConns g" by simp_all
  show "smListeners (snd r) = smListeners m" using face by (simp add: same_face_def)
  have "counted (fst r)"
  proof (rule counted_credentials [of _ "ibUsers b"])
    show "mgAuth (fst r) = sshInboundCredentials (ibUsers b)" using face by (simp add: same_face_def)
    fix u assume u: "u \<in> set (ibUsers b)" "suEnabled u"
    from counters_made [where f = "ensure_counter eps", OF ensure_counter_has u] show "suUser u \<in> set (gm_keys (mgCounters (fst r)))"
      by (simp add: assms(1) ensureSSHInboundCounters_def has_counter_def)
  qed
  then show "managed_ok (fst r)" using s(1) assms(2) by (simp add: managed_ok_def)
qed

definition take_credentials :: "(nat \<Rightarrow> string) \<Rightarrow> ssh_inbound \<Rightarrow> ssh_manager \<Rightarrow> ssh_manager" where
  "take_credentials eps b m = (if ibEnabled b then credentials_at eps b (gm_get (smListeners m) (ibId b)) m else m)"

lemma apply_steps: "applyCredentialStates eps allows p m = reapAuthorization allows (fold (take_credentials eps) (plInbounds p) m)"
  by (simp add: applyCredentialStates_def take_credentials_def [abs_def])

lemma take_credentials_ok: "manager_ok m \<Longrightarrow> manager_ok (take_credentials eps b m)"
proof (cases "gm_get (smListeners m) (ibId b)")
  case (Some g)
  assume m: "manager_ok m"
  have "gm_wf (mgSessions g)" using manager_ok_get [OF m Some] by (simp add: managed_ok_def)
  from ensure_counters [OF refl this] show ?thesis
    using m Some by (auto simp: take_credentials_def Let_def intro!: manager_ok_set intro: manager_ok_same [OF m])
qed (simp add: take_credentials_def)

lemma apply_ok: "manager_ok m \<Longrightarrow> manager_ok (applyCredentialStates eps allows p m)"
  unfolding apply_steps
  by (intro reapAuthorization_ok fold_keeps [where P = manager_ok]) (simp_all add: take_credentials_ok)

lemma start_ok: "manager_ok m \<Longrightarrow> manager_ok (snd (start_manager listen m))"
proof -
  assume m: "manager_ok m"
  have "managed_ok (close_managed g) \<and> managed_ok (g\<lparr>mgListener := x\<rparr>)" if "managed_ok g" for g x
    using that by (auto simp: close_managed_def managed_ok_def intro: counted_mono)
  then show ?thesis using m by (auto simp: start_manager_def Let_def close_manager_def intro!: manager_ok_map)
qed

lemma close_ok: "manager_ok m \<Longrightarrow> manager_ok (close_manager m)"
  unfolding close_manager_def
  by (rule manager_ok_map) (auto simp: close_managed_def managed_ok_def intro: counted_mono)

lemma manager_step_ok: "manager_ok m \<Longrightarrow> manager_ok (manager_step e m)"
proof (cases e)
  case (Accept b n)
  assume "manager_ok m"
  then show ?thesis using Accept on_managed_ok [of m "accept_conn n"] by (simp add: accept_conn_def managed_ok_conns)
next
  case (Finish b n)
  assume "manager_ok m"
  then show ?thesis using Finish on_managed_ok [of m "end_conn n"] by (simp add: end_conn_def managed_ok_drop)
qed (simp_all add: PasswordCallback_ok on_managed_ok open_session_ok handleDirectTCPIP_ok updatePolicies_ok ssh_snapshot_ok
  apply_ok reapAuthorization_ok start_ok close_ok)

lemma ssh_run_ok: "newSSHInboundManager eps core signer relay p = Some m \<Longrightarrow> manager_ok (ssh_run es m)"
  unfolding ssh_run_def by (rule fold_keeps [where P = manager_ok]) (simp_all add: new_manager_ok manager_step_ok)

lemma counted_get:
  assumes "manager_ok m" "gm_get (smListeners m) b = Some g" "gm_get (mgAuth g) user = Some c"
  shows "gm_get (mgCounters g) (crUser c) \<noteq> None"
  using manager_ok_get [OF assms(1,2)] gm_get_in_set [OF assms(3)]
  by (force simp: managed_ok_def counted_def list_all_iff gm_keys_get)

subsection \<open>Logins\<close>


definition ex_auth_env :: auth_env where
  "ex_auth_env = \<lparr>xNow = 0, xZones = (\<lambda>_. None), xEp = ''e'', xAllows = (\<lambda>_. True), xSource = ''192.0.2.1''\<rparr>"

definition ex_login :: permissions where
  "ex_login = \<lparr>pmUser = 7, pmInbound = 3, pmPath = 2, pmDevice = [], pmEpoch = 0, pmRouteKind = ''kernel'', pmRouteTag = ''in-3'',
     pmRouteUser = ex_name\<rparr>"

definition ex_ssh_events :: "ssh_event list" where
  "ex_ssh_events = [Start (\<lambda>ip port. Some (ip, port)), Accept 3 1, Login ex_auth_env False 3 ex_name ''secret'',
     Open (\<lambda>_. True) 3 1 ex_name ex_login, Accept 3 2]"


text \<open>\<^verbatim>\<open>reconcileInPlace\<close> is not among those histories: a user it adds has no counter, and every login is refused.\<close>

definition ex_newcomer :: ssh_user where
  "ex_newcomer = ex_ssh_user\<lparr>suUser := 8, suName := ''ufedcba9876543210fedcba9876543210'', suRouteUser := ''ufedcba9876543210fedcba9876543210''\<rparr>"

definition ex_plan2 :: ssh_plan where
  "ex_plan2 = ex_plan\<lparr>plInbounds := [ex_inbound\<lparr>ibUsers := [ex_ssh_user, ex_newcomer]\<rparr>]\<rparr>"

lemma reconciled_newcomer_locked_out:
  "validateSSHInboundPlan ex_plan2 = None \<and>
   fst (PasswordCallback ex_auth_env False 3 (suName ex_newcomer) ''secret'' (reconcileInPlace ex_plan2 ex_manager)) = Inl PolicyMissing"
  by code_simp

subsection \<open>Sessions after a change of credentials\<close>

lemma take_credentials_sessions:
  assumes "manager_ok m" "gm_get (smListeners m) i = Some g"
  shows "\<exists>g'. gm_get (smListeners (take_credentials eps b m)) i = Some g' \<and> mgSessions g' = mgSessions g \<and> mgConns g' = mgConns g"
proof (cases "ibEnabled b \<and> i = ibId b")
  case True
  have "gm_wf (mgSessions g)" using manager_ok_get [OF assms] by (simp add: managed_ok_def)
  from ensure_counters [OF refl this] show ?thesis
    using True assms(2) by (simp add: take_credentials_def Let_def set_managed_def)
next
  case False
  show ?thesis
  proof (cases "gm_get (smListeners m) (ibId b)")
    case (Some h)
    have "gm_wf (mgSessions h)" using manager_ok_get [OF assms(1) Some] by (simp add: managed_ok_def)
    from ensure_counters [OF refl this] show ?thesis
      using False Some assms(2) by (auto simp: take_credentials_def Let_def set_managed_def)
  qed (simp add: take_credentials_def assms(2))
qed

lemma fold_credentials_sessions:
  assumes "manager_ok m" "gm_get (smListeners m) i = Some g"
  shows "\<exists>g'. gm_get (smListeners (fold (take_credentials eps) bs m)) i = Some g' \<and> mgSessions g' = mgSessions g \<and> mgConns g' = mgConns g"
  using assms
proof (induction bs arbitrary: m g)
  case (Cons b bs)
  from take_credentials_sessions [OF Cons.prems] obtain g1 where
    g1: "gm_get (smListeners (take_credentials eps b m)) i = Some g1" "mgSessions g1 = mgSessions g" "mgConns g1 = mgConns g" by blast
  from Cons.IH [OF take_credentials_ok [OF Cons.prems(1)] g1(1)] show ?case using g1(2,3) by simp
qed simp

lemma gm_get_map_snd: "gm_get (map (map_prod id f) m) k = map_option f (gm_get m k)"
  by (induction m) auto

lemma reap_sessions:
  assumes "gm_wf (mgSessions g)"
  shows "mgSessions (reap_managed allows g) = filter (\<lambda>s. sessionAuthorized allows (snd s) (reap_managed allows g)) (mgSessions g)"
    "mgConns (reap_managed allows g) = filter (\<lambda>c. pred_option (\<lambda>u. sessionAuthorized allows u (reap_managed allows g))
       (gm_get (mgSessions g) (fst c))) (mgConns g)"
proof -
  have auth: "sessionAuthorized allows u (reap_managed allows g) = sessionAuthorized allows u g" for u
    by (simp add: sessionAuthorized_def reap_managed_def drop_conns_def)
  have "gm_get (mgSessions g) (fst s) = Some (snd s)" if "s \<in> set (mgSessions g)" for s
    using gm_in_set_get [OF assms] that by simp
  then show "mgSessions (reap_managed allows g) = filter (\<lambda>s. sessionAuthorized allows (snd s) (reap_managed allows g)) (mgSessions g)"
    unfolding auth by (auto simp: reap_managed_def drop_conns_def intro!: filter_cong)
  show "mgConns (reap_managed allows g) = filter (\<lambda>c. pred_option (\<lambda>u. sessionAuthorized allows u (reap_managed allows g))
       (gm_get (mgSessions g) (fst c))) (mgConns g)"
    unfolding auth by (simp add: reap_managed_def drop_conns_def)
qed


definition ex_listener :: managed where
  "ex_listener = the_default (fst (newManagedSSHInbound ex_eps ex_inbound empty_manager)) (gm_get (smListeners (ssh_run ex_ssh_events ex_manager)) 3)"

definition ex_after_deny :: ssh_manager where
  "ex_after_deny = applyCredentialStates ex_eps (\<lambda>_. False) ex_plan (ssh_run ex_ssh_events ex_manager)"


end
