(* ===== verification/AgentLink.thy ===== *)
theory AgentLink
  imports Prelude
begin

text \<open>
  The binary transport between a stealth agent and the controller, \<^verbatim>\<open>internal/agentlink\<close>: frames and
  padding (\<^verbatim>\<open>agentlink.go\<close>), the session (\<^verbatim>\<open>session.go\<close>) and its read loop and authentication
  (\<^verbatim>\<open>client.go\<close>). A byte string is a \<open>string\<close>. A write of the connection either takes the whole
  frame or fails after some of its bytes; a read sees the bytes the peer has sent and then the end
  of the stream. TLS, deadlines and the JSON codec are outside: a step is told what a payload
  decodes to.
\<close>

subsection \<open>Frames\<close>

definition MaxMessageBytes :: nat where
  "MaxMessageBytes = 16777216"

definition maxFramePayload :: nat where
  "maxFramePayload = 1048576"

definition frameHeaderLen :: nat where
  "frameHeaderLen = 6"

definition MinPaddedFrameBytes :: nat where
  "MinPaddedFrameBytes = 128"

definition maxPadLen :: nat where
  "maxPadLen = 65535"

record frame =
  frType :: "8 word"
  frFlags :: "8 word"
  frPayload :: string

definition byte :: "nat \<Rightarrow> char" where
  "byte n = char_of n"

definition be16 :: "nat \<Rightarrow> string" where
  "be16 n = [byte (n div 256), byte n]"

definition be32 :: "nat \<Rightarrow> string" where
  "be32 n = [byte (n div 16777216), byte (n div 65536), byte (n div 256), byte n]"

definition be_value :: "string \<Rightarrow> nat" where
  "be_value s = fold (\<lambda>c n. n * 256 + of_char c) s 0"

text \<open>The bytes \<^verbatim>\<open>writeFrame\<close> writes: header and payload.\<close>

definition frame_bytes :: "frame \<Rightarrow> string" where
  "frame_bytes f = [byte (unat (frType f)), byte (unat (frFlags f))] @ be32 (length (frPayload f)) @ frPayload f"

text \<open>\<^verbatim>\<open>writeFrame\<close> to a connection: \<open>Some k\<close> is a failure after \<open>k\<close> bytes.\<close>

fun writeFrame :: "nat option \<Rightarrow> frame \<Rightarrow> string \<Rightarrow> bool \<times> string" where
  "writeFrame None f out = (True, out @ frame_bytes f)"
| "writeFrame (Some k) f out = (False, out @ take k (frame_bytes f))"

datatype read_error = EndOfStream | UnexpectedEnd | FrameTooLarge

definition read_payload :: "string \<Rightarrow> nat \<Rightarrow> string \<Rightarrow> read_error + frame \<times> string" where
  "read_payload h n rest =
     (if length rest < n then Inl (if rest = [] then EndOfStream else UnexpectedEnd)
      else Inr (\<lparr>frType = of_nat (of_char (h ! 0)), frFlags = of_nat (of_char (h ! 1)), frPayload = take n rest\<rparr>, drop n rest))"

definition readFrame :: "string \<Rightarrow> read_error + frame \<times> string" where
  "readFrame s =
     (let h = take 6 s; n = be_value (drop 2 h) in
      if s = [] then Inl EndOfStream
      else if length s < 6 then Inl UnexpectedEnd
      else if maxFramePayload < n then Inl FrameTooLarge
      else read_payload h n (drop 6 s))"

datatype pad_error = PadTooShort | PadTooLong

definition stripPadding :: "string \<Rightarrow> pad_error + string" where
  "stripPadding p =
     (let n = be_value (take 2 p) in
      if length p < 2 then Inl PadTooShort else if length p < 2 + n then Inl PadTooLong else Inr (drop (2 + n) p))"

definition buildPadding :: "string \<Rightarrow> int \<Rightarrow> string option" where
  "buildPadding p n =
     (if n < 0 \<or> int maxPadLen < n then None
      else if int maxFramePayload < 2 + n + int (length p) then None
      else Some (be16 (nat n) @ replicate (nat n) (CHR 0x00) @ p))"

subsection \<open>Sessions\<close>

text \<open>Frame types and flags.\<close>

definition frameTypeMessage :: "8 word" where "frameTypeMessage = 0x01"
definition frameTypeAuth :: "8 word" where "frameTypeAuth = 0x02"
definition frameTypeAuthOK :: "8 word" where "frameTypeAuthOK = 0x03"
definition frameTypeError :: "8 word" where "frameTypeError = 0x04"
definition frameTypeRequest :: "8 word" where "frameTypeRequest = 0x05"
definition frameTypeResponse :: "8 word" where "frameTypeResponse = 0x06"
definition frameTypeData :: "8 word" where "frameTypeData = 0x07"
definition frameTypePing :: "8 word" where "frameTypePing = 0x08"
definition frameTypeGoAway :: "8 word" where "frameTypeGoAway = 0x09"
definition frameTypePong :: "8 word" where "frameTypePong = 0x0a"
definition flagPayloadJSON :: "8 word" where "flagPayloadJSON = 0x01"
definition flagPad :: "8 word" where "flagPad = 0x02"

datatype link_error = WriteFailed | MessageTooLarge | PaddingTooLarge | EncodeFailed | LinkClosed | GoAway
  | ReadFailed read_error | BadPadding pad_error | BadJSON | HandlerFailed

record response =
  rsId :: int
  rsStatus :: int
  rsBody :: string

text \<open>The channel of a pending request: waiting, answered, or closed by the end of the session.\<close>

datatype reply = Waiting | Answered response | ChanClosed

record session =
  seOut :: string
  seWriteErr :: "link_error option"
  seClosed :: bool
  seNext :: int
  sePending :: "int list"
  seReplies :: "(int, reply) gomap"
  seMessages :: "string list"
  seData :: "(string \<times> string) list"
  seHandler :: bool

definition new_session :: session where
  "new_session = \<lparr>seOut = [], seWriteErr = None, seClosed = False, seNext = 0, sePending = [], seReplies = [],
     seMessages = [], seData = [], seHandler = False\<rparr>"

fun wrote :: "bool \<times> string \<Rightarrow> session \<Rightarrow> link_error option \<times> session" where
  "wrote (True, out) s = (None, s\<lparr>seOut := out\<rparr>)"
| "wrote (False, out) s = (Some WriteFailed, s\<lparr>seOut := out, seWriteErr := Some WriteFailed\<rparr>)"

definition WriteFrame :: "nat option \<Rightarrow> frame \<Rightarrow> session \<Rightarrow> link_error option \<times> session" where
  "WriteFrame o1 f s =
     (if seWriteErr s \<noteq> None then (seWriteErr s, s) else wrote (writeFrame o1 f (seOut s)) s)"

fun send_padded :: "nat option \<Rightarrow> frame \<Rightarrow> string option \<Rightarrow> session \<Rightarrow> link_error option \<times> session" where
  "send_padded o1 f None s = (Some PaddingTooLarge, s)"
| "send_padded o1 f (Some p) s = WriteFrame o1 (f\<lparr>frFlags := or (frFlags f) flagPad, frPayload := p\<rparr>) s"

definition writePadded :: "nat option \<Rightarrow> frame \<Rightarrow> string \<Rightarrow> session \<Rightarrow> link_error option \<times> session" where
  "writePadded o1 f payload s =
     (if MinPaddedFrameBytes \<le> length payload + frameHeaderLen then WriteFrame o1 (f\<lparr>frPayload := payload\<rparr>) s
      else send_padded o1 f (buildPadding payload (int MinPaddedFrameBytes - int frameHeaderLen - int (length payload))) s)"

text \<open>\<^verbatim>\<open>WriteMessage\<close>: \<open>None\<close> is an envelope that does not encode.\<close>

fun WriteMessage :: "nat option \<Rightarrow> string option \<Rightarrow> session \<Rightarrow> link_error option \<times> session" where
  "WriteMessage o1 None s = (Some EncodeFailed, s)"
| "WriteMessage o1 (Some payload) s =
     (if MaxMessageBytes < length payload then (Some MessageTooLarge, s)
      else writePadded o1 \<lparr>frType = frameTypeMessage, frFlags = flagPayloadJSON, frPayload = []\<rparr> payload s)"

definition shutdown :: "link_error \<Rightarrow> session \<Rightarrow> session" where
  "shutdown e s =
     (if seClosed s then s
      else s\<lparr>seWriteErr := Some e, seClosed := True, sePending := [],
             seReplies := fold (\<lambda>i m. gm_put i ChanClosed m) (sePending s) (seReplies s)\<rparr>)"

definition Close :: "session \<Rightarrow> session" where
  "Close s = shutdown LinkClosed s"

definition Ping :: "nat option \<Rightarrow> session \<Rightarrow> link_error option \<times> session" where
  "Ping o1 s = WriteFrame o1 \<lparr>frType = frameTypePing, frFlags = 0, frPayload = []\<rparr> s"

text \<open>\<^verbatim>\<open>RunData\<close>: one handler at a time, until the session ends.\<close>

definition RunData :: "session \<Rightarrow> bool \<times> session" where
  "RunData s = (if seHandler s then (False, s) else (True, s\<lparr>seHandler := True\<rparr>))"

definition RunData_end :: "session \<Rightarrow> session" where
  "RunData_end s = (if seClosed s then s\<lparr>seHandler := False\<rparr> else s)"

text \<open>\<^verbatim>\<open>Request\<close> up to the wait: the request is registered and sent; a failure takes it back.\<close>

fun request_sent :: "int \<Rightarrow> link_error option \<times> session \<Rightarrow> (link_error + int) \<times> session" where
  "request_sent i (None, s) = (Inr i, s)"
| "request_sent i (Some e, s) = (Inl e, s\<lparr>sePending := removeAll i (sePending s)\<rparr>)"

fun request_encoded :: "nat option \<Rightarrow> int \<Rightarrow> string option \<Rightarrow> session \<Rightarrow> (link_error + int) \<times> session" where
  "request_encoded o1 i None s = (Inl EncodeFailed, s\<lparr>sePending := removeAll i (sePending s)\<rparr>)"
| "request_encoded o1 i (Some payload) s =
     request_sent i (writePadded o1 \<lparr>frType = frameTypeRequest, frFlags = flagPayloadJSON, frPayload = []\<rparr> payload s)"

definition Request :: "nat option \<Rightarrow> (int \<Rightarrow> string option) \<Rightarrow> session \<Rightarrow> (link_error + int) \<times> session" where
  "Request o1 encode s =
     (let i = seNext s + 1
      in request_encoded o1 i (encode i) (s\<lparr>seNext := i, sePending := i # sePending s, seReplies := gm_put i Waiting (seReplies s)\<rparr>))"

text \<open>The wait of \<^verbatim>\<open>Request\<close>. The runtime may take any branch of the \<^verbatim>\<open>select\<close> that is ready; a closed
  channel yields a nil response.\<close>

datatype request_result = Response response | NilResponse | Panic | Cancelled | SessionEnded | DecodeFailed response

fun from_channel :: "(string \<Rightarrow> bool) option \<Rightarrow> reply option \<Rightarrow> request_result list" where
  "from_channel out (Some (Answered r)) =
     (case out of None \<Rightarrow> [Response r]
      | Some decodes \<Rightarrow> if rsBody r \<noteq> [] \<and> \<not> decodes (rsBody r) then [DecodeFailed r] else [Response r])"
| "from_channel out (Some ChanClosed) = (if out = None then [NilResponse] else [Panic])"
| "from_channel out _ = []"

definition request_results :: "bool \<Rightarrow> (string \<Rightarrow> bool) option \<Rightarrow> int \<Rightarrow> session \<Rightarrow> request_result list" where
  "request_results cancelled out i s =
     (if cancelled then [Cancelled] else []) @ from_channel out (gm_get (seReplies s) i)
     @ (if seClosed s then [SessionEnded] else [])"

text \<open>A cancelled request is forgotten.\<close>

definition cancel_request :: "int \<Rightarrow> session \<Rightarrow> session" where
  "cancel_request i s = s\<lparr>sePending := removeAll i (sePending s)\<rparr>"

subsection \<open>The read loop\<close>

text \<open>What the JSON codec and the handlers make of payloads, and how the next pong is written.\<close>

record run_env =
  reMessage :: "string \<Rightarrow> bool"
  reResponse :: "string \<Rightarrow> response option"
  reHeader :: "string \<Rightarrow> bool"
  reHandle :: "string \<Rightarrow> string \<Rightarrow> bool"
  rePong :: "nat option"

fun unpadded :: "frame \<Rightarrow> pad_error + string" where
  "unpadded f = (if and (frFlags f) flagPad \<noteq> 0 then stripPadding (frPayload f) else Inr (frPayload f))"

definition stop :: "link_error \<Rightarrow> session \<Rightarrow> link_error option \<times> session" where
  "stop e s = (Some e, shutdown e s)"

fun on_message :: "run_env \<Rightarrow> pad_error + string \<Rightarrow> session \<Rightarrow> link_error option \<times> session" where
  "on_message x (Inl e) s = stop (BadPadding e) s"
| "on_message x (Inr p) s = (if reMessage x p then (None, s\<lparr>seMessages := seMessages s @ [p]\<rparr>) else stop BadJSON s)"

fun deliver :: "response option \<Rightarrow> session \<Rightarrow> session" where
  "deliver None s = s"
| "deliver (Some r) s = s\<lparr>sePending := removeAll (rsId r) (sePending s),
     seReplies := (if rsId r \<in> set (sePending s) then gm_put (rsId r) (Answered r) (seReplies s) else seReplies s)\<rparr>"

fun on_response :: "run_env \<Rightarrow> pad_error + string \<Rightarrow> session \<Rightarrow> link_error option \<times> session" where
  "on_response x (Inl e) s = stop (BadPadding e) s"
| "on_response x (Inr p) s = (None, deliver (reResponse x p) s)"

definition deliverData :: "run_env \<Rightarrow> string \<Rightarrow> session \<Rightarrow> link_error option \<times> session" where
  "deliverData x p s =
     (let n = be_value (take 2 p); header = take n (drop 2 p); body = drop (2 + n) p in
      if \<not> seHandler s \<or> length p < 2 \<or> length p < 2 + n then (None, s)
      else if \<not> reHeader x header then stop BadJSON s
      else let s1 = s\<lparr>seData := seData s @ [(header, body)]\<rparr>
           in if reHandle x header body then (None, s1) else stop HandlerFailed s1)"

fun after_pong :: "link_error option \<times> session \<Rightarrow> link_error option \<times> session" where
  "after_pong (None, s) = (None, s)"
| "after_pong (Some e, s) = stop e s"

text \<open>One round of \<^verbatim>\<open>Session.Run\<close>; an error ends the loop.\<close>

definition run_frame :: "run_env \<Rightarrow> frame \<Rightarrow> session \<Rightarrow> link_error option \<times> session" where
  "run_frame x f s =
     (if frType f = frameTypePing then after_pong (WriteFrame (rePong x) \<lparr>frType = frameTypePong, frFlags = 0, frPayload = []\<rparr> s)
      else if frType f = frameTypePong then (None, s)
      else if frType f = frameTypeGoAway then (Some LinkClosed, shutdown GoAway s)
      else if frType f = frameTypeMessage then on_message x (unpadded f) s
      else if frType f = frameTypeResponse then on_response x (unpadded f) s
      else if frType f = frameTypeData then deliverData x (frPayload f) s
      else (None, s))"

lemma readFrame_shorter: "readFrame s = Inr (f, rest) \<Longrightarrow> length rest < length s"
  by (auto simp: readFrame_def read_payload_def Let_def split: if_splits)

function link_run :: "run_env \<Rightarrow> string \<Rightarrow> session \<Rightarrow> link_error \<times> session" where
  "link_run x stream s =
     (case readFrame stream of
        Inl e \<Rightarrow> (ReadFailed e, shutdown (ReadFailed e) s)
      | Inr (f, rest) \<Rightarrow> (case run_frame x f s of (Some e, s1) \<Rightarrow> (e, s1) | (None, s1) \<Rightarrow> link_run x rest s1))"
  by pat_completeness auto

termination link_run
  by (relation "measure (\<lambda>(x, stream, s). length stream)") (auto dest: readFrame_shorter)

declare link_run.simps [simp del]

subsection \<open>Authentication\<close>

fun accepted :: "read_error + frame \<times> string \<Rightarrow> session \<Rightarrow> link_error + string \<times> session" where
  "accepted (Inl e) s = Inl (ReadFailed e)"
| "accepted (Inr (f, rest)) s =
     (if frType f \<noteq> frameTypeAuthOK then Inl LinkClosed else Inr (frPayload f, s))"

text \<open>The last part of \<^verbatim>\<open>Dial\<close>: the agent speaks first, an error or any frame but the acceptance ends it.\<close>

definition dial_auth :: "nat option \<Rightarrow> string \<Rightarrow> string \<Rightarrow> link_error + string \<times> session" where
  "dial_auth o1 auth stream =
     (let w = writeFrame o1 \<lparr>frType = frameTypeAuth, frFlags = flagPayloadJSON, frPayload = auth\<rparr> [] in
      if \<not> fst w then Inl WriteFailed else accepted (readFrame stream) (new_session\<lparr>seOut := snd w\<rparr>))"

subsection \<open>What is written can be read\<close>

lemma byte_val [simp]: "of_char (byte n) = n mod 256"
  by (simp add: byte_def)

lemma be_value_be16: "n < 65536 \<Longrightarrow> be_value (be16 n) = n"
  by (simp add: be_value_def be16_def div_mult_mod_eq)

lemma be_value_be32: "n < 4294967296 \<Longrightarrow> be_value (be32 n) = n"
proof -
  assume n: "n < 4294967296"
  have a: "n div 65536 = n div 16777216 * 256 + n div 65536 mod 256"
    using div_mult_mod_eq [of "n div 65536" 256] by (simp add: div_mult2_eq [symmetric])
  have b: "n div 256 = n div 65536 * 256 + n div 256 mod 256"
    using div_mult_mod_eq [of "n div 256" 256] by (simp add: div_mult2_eq [symmetric])
  have c: "n = n div 256 * 256 + n mod 256" using div_mult_mod_eq [of n 256] by simp
  have "n div 16777216 mod 256 = n div 16777216" using n by simp
  then have "be_value (be32 n) = ((n div 16777216 * 256 + n div 65536 mod 256) * 256 + n div 256 mod 256) * 256 + n mod 256"
    by (simp add: be_value_def be32_def)
  then show ?thesis using a b c by metis
qed

lemma byte_word: "of_nat (of_char (byte (unat w)) :: nat) = (w :: 8 word)"
proof -
  have "unat w < 256" using unsigned_less [of w] by simp
  then show ?thesis by simp
qed

lemma readFrame_bytes:
  assumes "length (frPayload f) \<le> maxFramePayload"
  shows "readFrame (frame_bytes f @ rest) = Inr (f, rest)"
proof -
  have n: "length (frPayload f) < 4294967296" using assms by (simp add: maxFramePayload_def)
  define h where "h = [byte (unat (frType f)), byte (unat (frFlags f))] @ be32 (length (frPayload f))"
  have h: "length h = 6" by (simp add: h_def be32_def)
  have s: "frame_bytes f @ rest = h @ frPayload f @ rest" by (simp add: frame_bytes_def h_def)
  have v: "be_value (drop 2 h) = length (frPayload f)" using be_value_be32 [OF n] by (simp add: h_def)
  have "of_nat (of_char (h ! 0)) = frType f" "of_nat (of_char (h ! 1)) = frFlags f"
    unfolding h_def using byte_word by (simp_all del: byte_val)
  then show ?thesis using assms v h unfolding s
    by (simp add: readFrame_def Let_def read_payload_def) (use h in force)
qed

lemma stripPadding_build:
  assumes "buildPadding p n = Some q"
  shows "stripPadding q = Inr p"
proof -
  have n: "0 \<le> n" "nat n < 65536" and q: "q = be16 (nat n) @ replicate (nat n) (CHR 0x00) @ p"
    using assms by (auto simp: buildPadding_def maxPadLen_def split: if_splits)
  have "take 2 q = be16 (nat n)" by (simp add: q be16_def)
  moreover have "drop (2 + nat n) q = p" by (simp add: q be16_def)
  ultimately show ?thesis using n be_value_be16 [OF n(2)] by (simp add: stripPadding_def Let_def q be16_def)
qed

subsection \<open>Messages\<close>

lemmas frame_types = frameTypeMessage_def frameTypeResponse_def frameTypeData_def frameTypePing_def frameTypePong_def frameTypeGoAway_def

text \<open>The frame \<^verbatim>\<open>writePadded\<close> makes of a payload.\<close>

definition padding_for :: "string \<Rightarrow> nat" where
  "padding_for p = 122 - length p"

definition padded_frame :: "frame \<Rightarrow> string \<Rightarrow> frame" where
  "padded_frame f p =
     (if 122 \<le> length p then f\<lparr>frPayload := p\<rparr>
      else f\<lparr>frFlags := or (frFlags f) flagPad, frPayload := be16 (padding_for p) @ replicate (padding_for p) (CHR 0x00) @ p\<rparr>)"

lemma writePadded_eq: "writePadded o1 f p s = WriteFrame o1 (padded_frame f p) s"
proof (cases "122 \<le> length p")
  case False
  then have "buildPadding p (122 - int (length p)) = Some (be16 (padding_for p) @ replicate (padding_for p) (CHR 0x00) @ p)"
    by (auto simp: buildPadding_def maxPadLen_def maxFramePayload_def padding_for_def nat_diff_distrib)
  then show ?thesis using False
    by (simp add: writePadded_def padded_frame_def MinPaddedFrameBytes_def frameHeaderLen_def)
qed (simp add: writePadded_def padded_frame_def MinPaddedFrameBytes_def frameHeaderLen_def)

lemma padded_frame_type [simp]: "frType (padded_frame f p) = frType f"
  by (simp add: padded_frame_def)

lemma padded_frame_length: "length (frPayload (padded_frame f p)) = (if 122 \<le> length p then length p else 124)"
  by (simp add: padded_frame_def padding_for_def be16_def)

lemma unpadded_frame:
  assumes "and (frFlags f) flagPad = 0"
  shows "unpadded (padded_frame f p) = Inr p"
proof (cases "122 \<le> length p")
  case False
  have "and (or (frFlags f) flagPad) flagPad = flagPad" by (simp add: bit_eq_iff bit_simps)
  then have "and (or (frFlags f) flagPad) flagPad \<noteq> 0" by (simp add: flagPad_def)
  moreover have "buildPadding p (int (padding_for p)) = Some (be16 (padding_for p) @ replicate (padding_for p) (CHR 0x00) @ p)"
    using False by (auto simp: buildPadding_def maxPadLen_def maxFramePayload_def padding_for_def nat_diff_distrib)
  ultimately show ?thesis using False stripPadding_build by (simp add: padded_frame_def)
qed (simp add: padded_frame_def assms)

definition message_frame :: "string \<Rightarrow> frame" where
  "message_frame p = padded_frame \<lparr>frType = frameTypeMessage, frFlags = flagPayloadJSON, frPayload = []\<rparr> p"

lemma WriteMessage_out:
  assumes "length p \<le> MaxMessageBytes" "seWriteErr s = None"
  shows "WriteMessage None (Some p) s = (None, s\<lparr>seOut := seOut s @ frame_bytes (message_frame p)\<rparr>)"
  using assms by (simp add: writePadded_eq WriteFrame_def message_frame_def)

declare WriteMessage.simps(2) [simp del]

definition send_all :: "string list \<Rightarrow> session \<Rightarrow> session" where
  "send_all ms s = fold (\<lambda>p s. snd (WriteMessage None (Some p) s)) ms s"

lemma send_all_out:
  assumes "list_all (\<lambda>p. length p \<le> MaxMessageBytes) ms" "seWriteErr s = None"
  shows "seOut (send_all ms s) = seOut s @ concat (map (\<lambda>p. frame_bytes (message_frame p)) ms)"
  using assms by (induction ms arbitrary: s) (simp_all add: send_all_def WriteMessage_out)

lemma message_frame_run:
  assumes "reMessage x p"
  shows "run_frame x (message_frame p) s = (None, s\<lparr>seMessages := seMessages s @ [p]\<rparr>)"
proof -
  have "unpadded (message_frame p) = Inr p"
    unfolding message_frame_def by (rule unpadded_frame) (simp add: flagPayloadJSON_def flagPad_def)
  moreover have "frType (message_frame p) = frameTypeMessage" by (simp add: message_frame_def)
  ultimately show ?thesis using assms
    by (simp add: run_frame_def frame_types)
qed

lemma run_message:
  assumes "length p \<le> maxFramePayload" "reMessage x p"
  shows "link_run x (frame_bytes (message_frame p) @ rest) s = link_run x rest (s\<lparr>seMessages := seMessages s @ [p]\<rparr>)"
proof -
  have "length (frPayload (message_frame p)) \<le> maxFramePayload"
    using assms(1) unfolding message_frame_def padded_frame_length by (simp add: maxFramePayload_def)
  from readFrame_bytes [OF this] show ?thesis
    by (subst link_run.simps) (simp add: message_frame_run [OF assms(2)])
qed

lemma run_messages:
  assumes "list_all (\<lambda>p. length p \<le> maxFramePayload \<and> reMessage x p) ms"
  shows "link_run x (concat (map (\<lambda>p. frame_bytes (message_frame p)) ms) @ rest) s
    = link_run x rest (s\<lparr>seMessages := seMessages s @ ms\<rparr>)"
  using assms by (induction ms arbitrary: s) (simp_all add: run_message)

text \<open>C10: What one side writes the other side receives. Messages of at most one frame's payload, sent in any
  number over a fresh session whose writes succeed, arrive at the peer's read loop unchanged, in order and
  without the padding; then the loop ends because the stream does.\<close>

theorem messages_delivered:
  assumes "list_all (\<lambda>p. length p \<le> maxFramePayload \<and> reMessage x p) ms" "seOut s = []" "seWriteErr s = None"
  shows "link_run x (seOut (send_all ms s)) peer =
    (ReadFailed EndOfStream, shutdown (ReadFailed EndOfStream) (peer\<lparr>seMessages := seMessages peer @ ms\<rparr>))"
proof -
  have "list_all (\<lambda>p. length p \<le> MaxMessageBytes) ms"
    using assms(1) by (auto simp: list_all_iff maxFramePayload_def MaxMessageBytes_def)
  from send_all_out [OF this assms(3)] have "link_run x (seOut (send_all ms s)) peer = link_run x [] (peer\<lparr>seMessages := seMessages peer @ ms\<rparr>)"
    using run_messages [OF assms(1), of "[]" peer] assms(2) by simp
  then show ?thesis by (simp add: link_run.simps readFrame_def)
qed

definition ex_run_env :: run_env where
  "ex_run_env = \<lparr>reMessage = (\<lambda>p. p \<noteq> []), reResponse = (\<lambda>_. None), reHeader = (\<lambda>_. True), reHandle = (\<lambda>_ _. True), rePong = None\<rparr>"

theorem messages_delivered_witness:
  "link_run ex_run_env (seOut (send_all [''hello'', ''world''] new_session)) new_session =
    (ReadFailed EndOfStream, shutdown (ReadFailed EndOfStream) (new_session\<lparr>seMessages := [''hello'', ''world'']\<rparr>))"
proof -
  have "list_all (\<lambda>p. length p \<le> maxFramePayload \<and> reMessage ex_run_env p) [''hello'', ''world'']" by code_simp
  from messages_delivered [OF this, of new_session new_session] show ?thesis by (simp add: new_session_def)
qed

text \<open>All messages of less than 122 bytes look alike on the wire.\<close>

lemma short_messages_same_size:
  assumes "length p < 122" "seWriteErr s = None"
  shows "length (seOut (snd (WriteMessage None (Some p) s))) = length (seOut s) + 130"
  using assms WriteMessage_out [of p s] padded_frame_length [of "\<lparr>frType = frameTypeMessage, frFlags = flagPayloadJSON, frPayload = []\<rparr>" p]
  by (simp add: MaxMessageBytes_def frame_bytes_def message_frame_def be32_def)

text \<open>C39: A message between one frame's limit and the message limit is accepted by the sender, which does not
  split it, and ends the receiver's session.\<close>

theorem large_message_ends_session:
  assumes "maxFramePayload < length p" "length p \<le> MaxMessageBytes" "seOut s = []" "seWriteErr s = None"
  shows "fst (WriteMessage None (Some p) s) = None \<and>
    link_run x (seOut (snd (WriteMessage None (Some p) s))) peer = (ReadFailed FrameTooLarge, shutdown (ReadFailed FrameTooLarge) peer)"
proof -
  let ?f = "message_frame p"
  have f: "frPayload ?f = p" using assms(1) by (simp add: message_frame_def padded_frame_def maxFramePayload_def)
  have n: "length p < 4294967296" using assms(2) by (simp add: MaxMessageBytes_def)
  have "take 6 (frame_bytes ?f) = [byte (unat (frType ?f)), byte (unat (frFlags ?f))] @ be32 (length p)"
    by (simp add: frame_bytes_def f be32_def)
  then have "be_value (drop 2 (take 6 (frame_bytes ?f))) = length p" using be_value_be32 [OF n] by simp
  moreover have "6 \<le> length (frame_bytes ?f)" by (simp add: frame_bytes_def be32_def)
  ultimately have "readFrame (frame_bytes ?f) = Inl FrameTooLarge"
    using assms(1) by (auto simp: readFrame_def Let_def)
  then show ?thesis using WriteMessage_out [OF assms(2,4)] assms(3) by (simp add: link_run.simps)
qed

theorem large_message_ends_session_witness:
  "fst (WriteMessage None (Some (replicate 1048577 (CHR ''x''))) new_session) = None \<and>
   link_run ex_run_env (seOut (snd (WriteMessage None (Some (replicate 1048577 (CHR ''x''))) new_session))) new_session
     = (ReadFailed FrameTooLarge, shutdown (ReadFailed FrameTooLarge) new_session)"
proof -
  have l: "maxFramePayload < length (replicate 1048577 (CHR ''x''))" "length (replicate 1048577 (CHR ''x'')) \<le> MaxMessageBytes"
    by (simp_all only: length_replicate maxFramePayload_def MaxMessageBytes_def)
  show ?thesis by (rule large_message_ends_session [OF l]) (simp_all add: new_session_def)
qed

subsection \<open>Requests and their answers\<close>

text \<open>What a session lives through: requests and messages sent, frames read, waits given up, the end.\<close>

datatype link_event =
    Ask "nat option" "int \<Rightarrow> string option"
  | Tell "nat option" "string option"
  | Beat "nat option"
  | Heard run_env frame
  | GiveUp int
  | Handle
  | End link_error

fun link_step :: "link_event \<Rightarrow> session \<Rightarrow> session" where
  "link_step (Ask o1 encode) s = snd (Request o1 encode s)"
| "link_step (Tell o1 payload) s = snd (WriteMessage o1 payload s)"
| "link_step (Beat o1) s = snd (Ping o1 s)"
| "link_step (Heard x f) s = snd (run_frame x f s)"
| "link_step (GiveUp i) s = cancel_request i s"
| "link_step Handle s = snd (RunData s)"
| "link_step (End e) s = shutdown e s"

definition link_history :: "link_event list \<Rightarrow> session \<Rightarrow> session" where
  "link_history es s = fold link_step es s"

definition link_ok :: "session \<Rightarrow> bool" where
  "link_ok s \<longleftrightarrow> (\<forall>i \<in> set (sePending s). gm_get (seReplies s) i = Some Waiting) \<and>
     (\<forall>i r. gm_get (seReplies s) i = Some r \<longrightarrow> 1 \<le> i \<and> i \<le> seNext s) \<and>
     (\<forall>i r. gm_get (seReplies s) i = Some (Answered r) \<longrightarrow> rsId r = i) \<and> 0 \<le> seNext s"

text \<open>Settled requests stay settled.\<close>

definition keeps_settled :: "session \<Rightarrow> session \<Rightarrow> bool" where
  "keeps_settled s s' \<longleftrightarrow> (\<forall>i r. gm_get (seReplies s) i = Some r \<and> r \<noteq> Waiting \<longrightarrow> gm_get (seReplies s') i = Some r)"

definition same_requests :: "session \<Rightarrow> session \<Rightarrow> bool" where
  "same_requests s s' \<longleftrightarrow> set (sePending s') \<subseteq> set (sePending s) \<and> seReplies s' = seReplies s \<and> seNext s' = seNext s"

lemma same_requests_ok: "same_requests s s' \<Longrightarrow> link_ok s \<Longrightarrow> link_ok s' \<and> keeps_settled s s'"
  by (auto simp: same_requests_def link_ok_def keeps_settled_def)

lemma same_requests_refl [simp]: "same_requests s s"
  by (simp add: same_requests_def)

lemma wrote_same: "same_requests s (snd (wrote w s))"
  by (cases w; cases "fst w") (auto simp: same_requests_def)

lemma WriteFrame_same: "same_requests s (snd (WriteFrame o1 f s))"
  by (simp add: WriteFrame_def wrote_same)

lemma WriteMessage_same: "same_requests s (snd (WriteMessage o1 p s))"
  by (cases p) (simp_all add: WriteMessage.simps writePadded_eq WriteFrame_same)

lemma gm_get_close: "gm_get (fold (\<lambda>i m. gm_put i ChanClosed m) is m) i = (if i \<in> set is then Some ChanClosed else gm_get m i)"
  by (induction "is" arbitrary: m) auto

lemma shutdown_ok: "link_ok s \<Longrightarrow> link_ok (shutdown e s) \<and> keeps_settled s (shutdown e s)"
  by (auto simp: shutdown_def link_ok_def keeps_settled_def gm_get_close)

lemma keeps_settled_trans: "keeps_settled s s' \<Longrightarrow> keeps_settled s' s'' \<Longrightarrow> keeps_settled s s''"
  by (auto simp: keeps_settled_def)

definition good_step :: "session \<Rightarrow> session \<Rightarrow> bool" where
  "good_step s s' \<longleftrightarrow> (link_ok s \<longrightarrow> link_ok s' \<and> keeps_settled s s')"

lemma good_same: "same_requests s s' \<Longrightarrow> good_step s s'"
  by (simp add: good_step_def same_requests_ok)

lemma good_trans: "good_step s s' \<Longrightarrow> good_step s' s'' \<Longrightarrow> good_step s s''"
  unfolding good_step_def by (blast intro: keeps_settled_trans)

lemma good_stop: "good_step s s1 \<Longrightarrow> good_step s (snd (stop e s1))"
  by (erule good_trans) (simp add: good_step_def stop_def shutdown_ok)

lemma good_request: "good_step s (snd (Request o1 encode s))"
proof -
  let ?i = "seNext s + 1"
  define s1 where "s1 = s\<lparr>seNext := ?i, sePending := ?i # sePending s, seReplies := gm_put ?i Waiting (seReplies s)\<rparr>"
  have s1: "good_step s s1"
    by (auto simp: good_step_def link_ok_def keeps_settled_def s1_def split: if_splits)
  have undone: "same_requests s1 (w\<lparr>sePending := removeAll ?i (sePending w)\<rparr>)" if "same_requests s1 w" for w
    using that by (auto simp: same_requests_def)
  have "same_requests s1 (snd (request_sent ?i (r, w)))" if "same_requests s1 w" for r w
    using that undone [OF that] by (cases r) simp_all
  then have "same_requests s1 (snd (request_sent ?i w))" if "same_requests s1 (snd w)" for w
    using that by (cases w) simp
  then have "same_requests s1 (snd (request_encoded o1 ?i p s1))" for p
    using undone [OF same_requests_refl] by (cases p) (simp_all add: writePadded_eq WriteFrame_same)
  then show ?thesis using good_trans [OF s1 good_same] by (simp add: Request_def Let_def s1_def)
qed

lemma good_deliver: "good_step s (deliver r s)"
  by (cases r) (auto simp: good_step_def link_ok_def keeps_settled_def)

lemma good_refl [simp]: "good_step s s"
  by (rule good_same) simp

lemma good_frame: "good_step s (snd (run_frame x f s))"
proof -
  have data: "good_step s (s\<lparr>seData := d\<rparr>)" "good_step s (s\<lparr>seMessages := ms\<rparr>)" for d ms
    by (rule good_same, simp add: same_requests_def)+
  have "good_step s (snd (on_message x p s))" for p by (cases p) (simp_all add: good_stop data)
  moreover have "good_step s (snd (on_response x p s))" for p by (cases p) (simp_all add: good_stop good_deliver)
  moreover have "good_step s (snd (deliverData x p s))" for p by (simp add: deliverData_def Let_def good_stop data)
  moreover have "good_step s (snd (after_pong (r, w)))" if "good_step s w" for r w using that by (cases r) (simp_all add: good_stop)
  then have "good_step s (snd (after_pong (WriteFrame o1 g s)))" for o1 g
    using good_same [OF WriteFrame_same] by (metis prod.collapse)
  moreover have "good_step s (shutdown GoAway s)" using good_stop [of s s GoAway] by (simp add: stop_def)
  ultimately show ?thesis by (simp add: run_frame_def)
qed

lemma good_link_step: "good_step s (link_step e s)"
proof (cases e)
  case (Ask o1 encode)
  then show ?thesis by (simp add: good_request)
next
  case (Tell o1 payload)
  then show ?thesis by (simp add: good_same WriteMessage_same)
next
  case (Beat o1)
  then show ?thesis by (simp add: good_same Ping_def WriteFrame_same)
next
  case (Heard x f)
  then show ?thesis by (simp add: good_frame)
next
  case (GiveUp i)
  then show ?thesis by (auto simp: cancel_request_def same_requests_def intro!: good_same)
next
  case Handle
  then show ?thesis by (auto simp: RunData_def same_requests_def intro!: good_same)
next
  case (End err)
  then show ?thesis using good_stop [of s s err] by (simp add: stop_def)
qed

lemma good_history: "good_step s (link_history es s)"
proof (induction es arbitrary: s)
  case (Cons e es)
  from good_trans [OF good_link_step Cons.IH] show ?case by (simp add: link_history_def)
qed (simp add: link_history_def)

text \<open>C38: A request gets its own answer, once. Over every history of a session, the response a request's channel
  holds carries the request's id, the request is no longer pending, and nothing that happens later (later
  requests, more responses with the same id, the end of the session) replaces that response.\<close>

theorem response_matches_request:
  assumes "gm_get (seReplies (link_history es new_session)) i = Some (Answered r)"
  shows "rsId r = i \<and> i \<notin> set (sePending (link_history es new_session)) \<and>
    gm_get (seReplies (link_history (es @ es') new_session)) i = Some (Answered r)"
proof -
  let ?s = "link_history es new_session"
  have "link_ok new_session" by (simp add: link_ok_def new_session_def)
  then have ok: "link_ok ?s" using good_history [of new_session es] by (simp add: good_step_def)
  then have "keeps_settled ?s (link_history es' ?s)" using good_history [of ?s es'] by (simp add: good_step_def)
  moreover have "link_history (es @ es') new_session = link_history es' ?s" by (simp add: link_history_def)
  ultimately show ?thesis using assms ok by (auto simp: link_ok_def keeps_settled_def)
qed

definition ex_link_env :: run_env where
  "ex_link_env = ex_run_env\<lparr>reResponse := (\<lambda>p. Some \<lparr>rsId = int (length p), rsStatus = 200, rsBody = p\<rparr>)\<rparr>"

definition ex_link_events :: "link_event list" where
  "ex_link_events = [Ask None (\<lambda>i. Some ''ask''), Ask None (\<lambda>i. Some ''again''),
     Heard ex_link_env \<lparr>frType = frameTypeResponse, frFlags = flagPayloadJSON, frPayload = ''ab''\<rparr>]"

theorem response_matches_request_witness:
  "rsId \<lparr>rsId = 2, rsStatus = 200, rsBody = ''ab''\<rparr> = 2 \<and> 2 \<notin> set (sePending (link_history ex_link_events new_session)) \<and>
   gm_get (seReplies (link_history (ex_link_events @ [End LinkClosed]) new_session)) 2 = Some (Answered \<lparr>rsId = 2, rsStatus = 200, rsBody = ''ab''\<rparr>)"
proof -
  have "gm_get (seReplies (link_history ex_link_events new_session)) 2 = Some (Answered \<lparr>rsId = 2, rsStatus = 200, rsBody = ''ab''\<rparr>)"
    by code_simp
  from response_matches_request [OF this] show ?thesis .
qed

text \<open>The end of the session closes the channel of a request that still waits. Its \<^verbatim>\<open>select\<close> may then take the closed
  channel instead of the session's end: the nil response is returned without an error, or dereferenced.\<close>

lemma pending_request_after_shutdown:
  assumes "i \<in> set (sePending s)" "\<not> seClosed s"
  shows "Panic \<in> set (request_results False (Some decodes) i (shutdown e s))"
    "NilResponse \<in> set (request_results False None i (shutdown e s))"
  using assms by (simp_all add: request_results_def shutdown_def gm_get_close)

end
