(* ===== verification/OpenVpn.thy ===== *)
theory OpenVpn
  imports SshTarget Sha256 GoTime "HOL-Library.Multiset"
begin

text \<open>
  The description of an OpenVPN server, \<^verbatim>\<open>internal/protocol/openvpn/spec.go\<close> of the kernel, and its
  normalization. The text of an IPv4 address parses back to the address, so a normalized
  description is a fixed point. The X.509 checks are parameters.
\<close>

subsection \<open>OpenVPN servers\<close>

record ovpn_spec =
  ovServer :: string
  ovPort :: nat
  ovNetwork :: string
  ovCipher :: string
  ovAuth :: string
  ovCA :: string
  ovCert :: string
  ovKey :: string
  ovUsername :: string
  ovPassword :: string
  ovMTU :: int
  ovResolvers :: "string list"

text \<open>\<^verbatim>\<open>strings.ToUpper\<close>: two letters outside ASCII have an ASCII capital.\<close>

definition upper_ascii :: "char \<Rightarrow> char" where
  "upper_ascii c = (let n = of_char c :: nat in if 97 \<le> n \<and> n \<le> 122 then char_of (n - 32) else c)"

fun to_upper :: "string \<Rightarrow> string" where
  "to_upper [] = []"
| "to_upper (c # s) =
     (if has_prefix (bytes [0xC4, 0xB1]) (c # s) then CHR ''I'' # to_upper (drop 1 s)
      else if has_prefix (bytes [0xC5, 0xBF]) (c # s) then CHR ''S'' # to_upper (drop 1 s)
      else upper_ascii c # to_upper s)"

definition supportedCiphers :: "string list" where
  "supportedCiphers = [''AES-128-CBC'', ''AES-256-CBC'', ''AES-128-GCM'', ''AES-256-GCM'']"

definition supportedAuth :: "string list" where
  "supportedAuth = [''SHA1'', ''SHA256'', ''SHA512'']"

definition defaultResolvers :: "string list" where
  "defaultResolvers = [''1.1.1.1'', ''8.8.8.8'']"

definition publicAddr :: "addr \<Rightarrow> bool" where
  "publicAddr a \<longleftrightarrow> is_global_unicast a \<and> \<not> is_private a \<and> \<not> is_loopback a \<and> \<not> is_link_local_unicast a"

datatype spec_error = NotAnAddress | NotIPv4 | NotPublic | NoServerPort | BadNetwork | BadCipher | BadAuth | PemTooLarge | BadCA
  | BadKeyPair | CredentialsTooLong | CredentialsControl | BadMTU | TooManyResolvers | BadResolver

fun parsed_server :: "addr option \<Rightarrow> spec_error + string" where
  "parsed_server None = Inl NotAnAddress"
| "parsed_server (Some a) =
     (if \<not> is4 (unmap a) then Inl NotIPv4 else if \<not> publicAddr (unmap a) then Inl NotPublic else Inr (addr_string (unmap a)))"

fun resolver_text :: "addr option \<Rightarrow> string option" where
  "resolver_text None = None"
| "resolver_text (Some a) =
     (if \<not> is4 (unmap a) \<or> is_unspecified a \<or> is_multicast a then None else Some (addr_string (unmap a)))"

fun and_text :: "string option \<Rightarrow> string list option \<Rightarrow> string list option" where
  "and_text (Some t) (Some ts) = Some (t # ts)"
| "and_text _ _ = None"

fun normal_resolvers :: "string list \<Rightarrow> string list option" where
  "normal_resolvers [] = Some []"
| "normal_resolvers (r # rs) = and_text (resolver_text (parse_addr (trim_space r))) (normal_resolvers rs)"

definition control_byte :: "char \<Rightarrow> bool" where
  "control_byte c \<longleftrightarrow> of_char c \<in> {0 :: nat, 10, 13}"

fun finish_spec :: "ovpn_spec \<Rightarrow> string list option \<Rightarrow> spec_error + ovpn_spec" where
  "finish_spec s None = Inl BadResolver"
| "finish_spec s (Some rs) = Inr (s\<lparr>ovResolvers := rs\<rparr>)"

text \<open>\<^verbatim>\<open>Normalize\<close> after the server address: \<open>ca_ok\<close> and \<open>pair_ok\<close> are the X.509 checks.\<close>

definition normalize_rest :: "(string \<Rightarrow> bool) \<Rightarrow> (string \<Rightarrow> string \<Rightarrow> bool) \<Rightarrow> ovpn_spec \<Rightarrow> spec_error + ovpn_spec" where
  "normalize_rest ca_ok pair_ok s =
     (let s1 = s\<lparr>ovNetwork := to_lower (trim_space (ovNetwork s)), ovCipher := to_upper (trim_space (ovCipher s)),
                 ovAuth := to_upper (trim_space (ovAuth s)), ovMTU := (if ovMTU s = 0 then 1280 else ovMTU s),
                 ovResolvers := (if ovResolvers s = [] then defaultResolvers else ovResolvers s)\<rparr> in
      if ovPort s1 = 0 then Inl NoServerPort
      else if ovNetwork s1 \<noteq> ''tcp'' \<and> ovNetwork s1 \<noteq> ''udp'' then Inl BadNetwork
      else if ovCipher s1 \<notin> set supportedCiphers then Inl BadCipher
      else if ovAuth s1 \<notin> set supportedAuth then Inl BadAuth
      else if 16384 < length (ovCA s1) \<or> 16384 < length (ovCert s1) \<or> 16384 < length (ovKey s1) then Inl PemTooLarge
      else if \<not> ca_ok (ovCA s1) then Inl BadCA
      else if \<not> pair_ok (ovCert s1) (ovKey s1) then Inl BadKeyPair
      else if 128 < length (ovUsername s1) \<or> 128 < length (ovPassword s1) then Inl CredentialsTooLong
      else if list_ex control_byte (ovUsername s1 @ ovPassword s1) then Inl CredentialsControl
      else if ovMTU s1 < 576 \<or> 1500 < ovMTU s1 then Inl BadMTU
      else if 4 < length (ovResolvers s1) then Inl TooManyResolvers
      else finish_spec s1 (normal_resolvers (ovResolvers s1)))"

fun with_server :: "(string \<Rightarrow> bool) \<Rightarrow> (string \<Rightarrow> string \<Rightarrow> bool) \<Rightarrow> ovpn_spec \<Rightarrow> spec_error + string \<Rightarrow> spec_error + ovpn_spec" where
  "with_server ca_ok pair_ok s (Inl e) = Inl e"
| "with_server ca_ok pair_ok s (Inr server) = normalize_rest ca_ok pair_ok (s\<lparr>ovServer := server\<rparr>)"

definition Normalize :: "(string \<Rightarrow> bool) \<Rightarrow> (string \<Rightarrow> string \<Rightarrow> bool) \<Rightarrow> ovpn_spec \<Rightarrow> spec_error + ovpn_spec" where
  "Normalize ca_ok pair_ok s = with_server ca_ok pair_ok s (parsed_server (parse_addr (trim_space (ovServer s))))"

subsection \<open>The text of an IPv4 address\<close>

lemma digit_char_facts:
  assumes "d < 10"
  shows "is_digit (digit_char d)" "digit_val (digit_char d) = int d" "digit_char d = CHR ''0'' \<longleftrightarrow> d = 0"
proof -
  have v: "of_char (digit_char d) = 48 + d" using assms by (simp add: digit_char_def)
  then show "is_digit (digit_char d)" using assms by (simp add: is_digit_def)
  have "int (of_char (digit_char d)) = of_char (digit_char d)" by (rule of_nat_of_char)
  then show "digit_val (digit_char d) = int d" unfolding digit_val_def v by linarith
  have "digit_char 0 = CHR ''0''" by code_simp
  moreover have "digit_char d = CHR ''0'' \<Longrightarrow> d = 0" using v by simp
  ultimately show "digit_char d = CHR ''0'' \<longleftrightarrow> d = 0" by blast
qed

lemma to_base_octet:
  assumes "n < 256"
  shows "to_base 20 10 n = (if n < 10 then [n] else if n < 100 then [n div 10, n mod 10] else [n div 10 div 10, n div 10 mod 10, n mod 10])"
proof -
  have "to_base (Suc (Suc (Suc k))) 10 n = (if n < 10 then [n] else if n < 100 then [n div 10, n mod 10] else [n div 10 div 10, n div 10 mod 10, n mod 10])" for k
    using assms by auto
  moreover have "(20 :: nat) = Suc (Suc (Suc 17))" by simp
  ultimately show ?thesis by metis
qed

lemma v4_field_digits:
  assumes "ds \<noteq> []" "length ds \<le> 3" "\<forall>d \<in> set ds. d < 10" "length ds = 1 \<or> hd ds \<noteq> 0" "fold (\<lambda>d n. n * 10 + d) ds 0 \<le> 255"
  shows "v4_field (map digit_char ds) = Some (fold (\<lambda>d n. n * 10 + d) ds 0)"
proof -
  have "fold (\<lambda>c n. n * 10 + nat (digit_val c)) (map digit_char ds) k = fold (\<lambda>d n. n * 10 + d) ds k" for k
    using assms(3) by (induction ds arbitrary: k) (simp_all add: digit_char_facts)
  moreover have "list_all is_digit (map digit_char ds)" using assms(3) by (simp add: list_all_iff digit_char_facts)
  moreover have "hd (map digit_char ds) = CHR ''0'' \<longrightarrow> length ds \<le> 1"
    using assms(1,3,4) by (auto simp: hd_map digit_char_facts)
  ultimately show ?thesis using assms(1,2,5) by (auto simp: v4_field_def Let_def)
qed

lemma decimal_octet:
  assumes "n < 256"
  shows "v4_field (decimal n) = Some n" "list_all is_digit (decimal n)"
proof -
  let ?ds = "to_base 20 10 n"
  have "n div 10 div 10 * 10 + n div 10 mod 10 = n div 10" "n div 10 * 10 + n mod 10 = n" by (rule div_mult_mod_eq)+
  then have v: "fold (\<lambda>d k. k * 10 + d) ?ds 0 = n" by (simp add: to_base_octet [OF assms])
  have d: "\<forall>d \<in> set ?ds. d < 10" using assms by (auto simp: to_base_octet [OF assms])
  moreover have "?ds \<noteq> []" "length ?ds \<le> 3" by (simp_all add: to_base_octet [OF assms])
  moreover have "length ?ds = 1 \<or> hd ?ds \<noteq> 0" by (auto simp: to_base_octet [OF assms])
  ultimately show "v4_field (decimal n) = Some n" using v4_field_digits [of ?ds] v assms by (simp add: decimal_def)
  show "list_all is_digit (decimal n)" using d by (simp add: decimal_def list_all_iff digit_char_facts)
qed

lemma octet_small: "v4_octet i w < 256"
  by (simp add: v4_octet_div)

lemma octets_value:
  "((v4_octet 0 w * 256 + v4_octet 1 w) * 256 + v4_octet 2 w) * 256 + v4_octet 3 w = unat w"
proof -
  let ?n = "unat w"
  have a: "?n div 65536 = ?n div 16777216 * 256 + ?n div 65536 mod 256"
    using div_mult_mod_eq [of "?n div 65536" 256] by (simp add: div_mult2_eq [symmetric])
  have b: "?n div 256 = ?n div 65536 * 256 + ?n div 256 mod 256"
    using div_mult_mod_eq [of "?n div 256" 256] by (simp add: div_mult2_eq [symmetric])
  have c: "?n = ?n div 256 * 256 + ?n mod 256" using div_mult_mod_eq [of ?n 256] by simp
  have "v4_octet 0 w = ?n div 16777216" "v4_octet 1 w = ?n div 65536 mod 256" "v4_octet 2 w = ?n div 256 mod 256" "v4_octet 3 w = ?n mod 256"
    using octet0 [of w] by (simp_all add: v4_octet_div)
  then show ?thesis using a b c by metis
qed

lemma v4_string_join: "v4_string w = join [CHR ''.''] (map (\<lambda>i. decimal (v4_octet i w)) [0, 1, 2, 3])"
  by (simp add: v4_string_def)

lemma parse_v4_string: "parse_v4 (v4_string w) = Some w"
proof -
  have "CHR ''.'' \<notin> set (decimal (v4_octet i w))" for i
    using decimal_octet(2) [OF octet_small [of i w]] by (auto simp: list_all_iff is_digit_def)
  then have "split_on CHR ''.'' (v4_string w) = map (\<lambda>i. decimal (v4_octet i w)) [0, 1, 2, 3]"
    unfolding v4_string_join by (intro split_join) auto
  then have "parse_v4 (v4_string w) = Some (of_nat (((v4_octet 0 w * 256 + v4_octet 1 w) * 256 + v4_octet 2 w) * 256 + v4_octet 3 w))"
    by (simp add: parse_v4_def decimal_octet(1) octet_small)
  then show ?thesis unfolding octets_value by simp
qed

lemma digits_no_marks: "list_all is_digit s \<Longrightarrow> filter (\<lambda>c. c = CHR ''.'' \<or> c = CHR '':'' \<or> c = CHR ''%'') s = []"
  by (auto simp: list_all_iff is_digit_def filter_empty_conv)

lemma parse_addr_string: "parse_addr (v4_string w) = Some (V4 w)"
proof -
  have "filter (\<lambda>c. c = CHR ''.'' \<or> c = CHR '':'' \<or> c = CHR ''%'') (v4_string w) = ''...''"
    using digits_no_marks [OF decimal_octet(2) [OF octet_small]] by (simp add: v4_string_def)
  then show ?thesis by (simp add: parse_addr_def Let_def parse_v4_string)
qed

lemma v4_string_word: "list_all word_byte (v4_string w)"
proof -
  have "list_all word_byte (decimal (v4_octet i w))" for i
    using decimal_octet(2) [OF octet_small [of i w]] by (auto simp: list_all_iff is_digit_def word_byte_def)
  then show ?thesis by (simp add: v4_string_def word_byte_def)
qed

lemma is4_unmap: "is4 (unmap a) \<Longrightarrow> \<exists>w. unmap a = V4 w"
  by (cases "unmap a") auto

lemma server_again: "parsed_server r = Inr t \<Longrightarrow> parsed_server (parse_addr (trim_space t)) = Inr t"
proof -
  assume h: "parsed_server r = Inr t"
  then obtain a where a: "r = Some a" "is4 (unmap a)" "publicAddr (unmap a)" "t = addr_string (unmap a)"
    by (cases r) (auto split: if_splits)
  then obtain w where w: "unmap a = V4 w" using is4_unmap by blast
  then show ?thesis using a trim_word [OF v4_string_word [of w]] by (simp add: parse_addr_string)
qed

lemma resolver_again: "resolver_text r = Some t \<Longrightarrow> t \<noteq> ''0.0.0.0'' \<Longrightarrow> resolver_text (parse_addr (trim_space t)) = Some t"
proof -
  assume h: "resolver_text r = Some t" "t \<noteq> ''0.0.0.0''"
  then obtain a where a: "r = Some a" "is4 (unmap a)" "\<not> is_multicast a" "t = addr_string (unmap a)"
    by (cases r) (auto split: if_splits)
  then obtain w where w: "unmap a = V4 w" using is4_unmap by blast
  have "v4_string 0 = ''0.0.0.0''" by code_simp
  then have "\<not> is_unspecified (V4 w)" using h(2) a(4) w by (auto simp: is_unspecified_def)
  moreover have "\<not> is_multicast (V4 w)" using a(3) w by (simp add: is_multicast_def)
  ultimately show ?thesis using a w trim_word [OF v4_string_word [of w]] by (simp add: parse_addr_string)
qed

lemma resolvers_again:
  "normal_resolvers rs = Some ts \<Longrightarrow> ''0.0.0.0'' \<notin> set ts \<Longrightarrow> normal_resolvers ts = Some ts \<and> length ts = length rs"
proof (induction rs arbitrary: ts)
  case (Cons r rs)
  then obtain t us where "resolver_text (parse_addr (trim_space r)) = Some t" "normal_resolvers rs = Some us" "ts = t # us"
    by (cases "resolver_text (parse_addr (trim_space r))"; cases "normal_resolvers rs") auto
  then show ?case using Cons resolver_again by auto
qed simp

lemma words_again:
  "n = ''tcp'' \<or> n = ''udp'' \<Longrightarrow> to_lower (trim_space n) = n"
  "c \<in> set supportedCiphers \<Longrightarrow> to_upper (trim_space c) = c"
  "a \<in> set supportedAuth \<Longrightarrow> to_upper (trim_space a) = a"
proof -
  have "list_all (\<lambda>n. to_lower (trim_space n) = n) [''tcp'', ''udp'']" "list_all (\<lambda>c. to_upper (trim_space c) = c) supportedCiphers"
    "list_all (\<lambda>a. to_upper (trim_space a) = a) supportedAuth" by code_simp+
  then show "n = ''tcp'' \<or> n = ''udp'' \<Longrightarrow> to_lower (trim_space n) = n" "c \<in> set supportedCiphers \<Longrightarrow> to_upper (trim_space c) = c"
    "a \<in> set supportedAuth \<Longrightarrow> to_upper (trim_space a) = a" by (auto simp: list_all_iff)
qed

lemma rest_again:
  assumes "normalize_rest ca_ok pair_ok s = Inr s'" "''0.0.0.0'' \<notin> set (ovResolvers s')"
  shows "normalize_rest ca_ok pair_ok s' = Inr s' \<and> ovServer s' = ovServer s"
proof -
  define s1 where "s1 = s\<lparr>ovNetwork := to_lower (trim_space (ovNetwork s)), ovCipher := to_upper (trim_space (ovCipher s)),
    ovAuth := to_upper (trim_space (ovAuth s)), ovMTU := (if ovMTU s = 0 then 1280 else ovMTU s),
    ovResolvers := (if ovResolvers s = [] then defaultResolvers else ovResolvers s)\<rparr>"
  have c: "ovPort s1 \<noteq> 0" "ovNetwork s1 = ''tcp'' \<or> ovNetwork s1 = ''udp''" "ovCipher s1 \<in> set supportedCiphers" "ovAuth s1 \<in> set supportedAuth"
    "\<not> (16384 < length (ovCA s1) \<or> 16384 < length (ovCert s1) \<or> 16384 < length (ovKey s1))" "ca_ok (ovCA s1)" "pair_ok (ovCert s1) (ovKey s1)"
    "\<not> (128 < length (ovUsername s1) \<or> 128 < length (ovPassword s1))" "\<not> list_ex control_byte (ovUsername s1 @ ovPassword s1)"
    "\<not> (ovMTU s1 < 576 \<or> 1500 < ovMTU s1)" "\<not> 4 < length (ovResolvers s1)" and f: "finish_spec s1 (normal_resolvers (ovResolvers s1)) = Inr s'"
    using assms(1) unfolding normalize_rest_def s1_def [symmetric] Let_def by (auto split: if_splits)
  obtain ts where ts: "normal_resolvers (ovResolvers s1) = Some ts" "s' = s1\<lparr>ovResolvers := ts\<rparr>"
    using f by (cases "normal_resolvers (ovResolvers s1)") auto
  have again: "normal_resolvers ts = Some ts" "length ts = length (ovResolvers s1)"
    using resolvers_again [OF ts(1)] assms(2) ts(2) by auto
  have ne: "ts \<noteq> []" using again(2) by (auto simp: s1_def defaultResolvers_def split: if_splits)
  have "normalize_rest ca_ok pair_ok s' = finish_spec s' (normal_resolvers ts)"
    unfolding normalize_rest_def Let_def using c words_again ne again(2) unfolding ts(2) by auto
  then show ?thesis using again(1) ts(2) by (simp add: s1_def)
qed

text \<open>C40: Normalizing a server description twice is normalizing it once. The description \<^verbatim>\<open>Normalize\<close> returns
  is accepted unchanged the next time, so the digest a pool compares members by does not move when a
  controller sends back what an agent reported. The text of an IPv4 address parses back to it. The one
  exception is a resolver that came out as 0.0.0.0.\<close>

theorem normalize_idempotent:
  assumes "Normalize ca_ok pair_ok s = Inr s'" "''0.0.0.0'' \<notin> set (ovResolvers s')"
  shows "Normalize ca_ok pair_ok s' = Inr s'"
proof -
  obtain t where t: "parsed_server (parse_addr (trim_space (ovServer s))) = Inr t" "normalize_rest ca_ok pair_ok (s\<lparr>ovServer := t\<rparr>) = Inr s'"
    using assms(1) by (cases "parsed_server (parse_addr (trim_space (ovServer s)))") (auto simp: Normalize_def)
  from rest_again [OF t(2) assms(2)] have r: "normalize_rest ca_ok pair_ok s' = Inr s'" "ovServer s' = t" by simp_all
  then show ?thesis using server_again [OF t(1)] by (simp add: Normalize_def flip: r(2))
qed

definition ex_spec :: ovpn_spec where
  "ex_spec = \<lparr>ovServer = '' ::ffff:1.2.3.4 '', ovPort = 443, ovNetwork = ''TCP'', ovCipher = ''aes-128-cbc'', ovAuth = ''sha1'',
     ovCA = ''ca'', ovCert = ''cert'', ovKey = ''key'', ovUsername = ''vpn'', ovPassword = ''vpn'', ovMTU = 0, ovResolvers = []\<rparr>"

definition ex_normal :: ovpn_spec where
  "ex_normal = ex_spec\<lparr>ovServer := ''1.2.3.4'', ovNetwork := ''tcp'', ovCipher := ''AES-128-CBC'', ovAuth := ''SHA1'', ovMTU := 1280,
     ovResolvers := defaultResolvers\<rparr>"

lemma ex_public: "publicAddr (V4 0x01020304)"
  by (simp add: publicAddr_def target_defs)

lemma ex_normalized: "Normalize (\<lambda>_. True) (\<lambda>_ _. True) ex_spec = Inr ex_normal"
proof -
  have "parse_addr (trim_space (ovServer ex_spec)) = Some (V6 0xFFFF01020304 [])" "unmap (V6 0xFFFF01020304 []) = V4 0x01020304"
    "addr_string (V4 0x01020304) = ''1.2.3.4''" by code_simp+
  then have "parsed_server (parse_addr (trim_space (ovServer ex_spec))) = Inr ''1.2.3.4''" using ex_public by (simp del: unmap.simps addr_string.simps)
  moreover have "normalize_rest (\<lambda>_. True) (\<lambda>_ _. True) (ex_spec\<lparr>ovServer := ''1.2.3.4''\<rparr>) = Inr ex_normal" by code_simp
  ultimately show ?thesis by (simp add: Normalize_def)
qed

theorem normalize_idempotent_witness: "Normalize (\<lambda>_. True) (\<lambda>_ _. True) ex_normal = Inr ex_normal"
proof -
  have "''0.0.0.0'' \<notin> set (ovResolvers ex_normal)" by code_simp
  from normalize_idempotent [OF ex_normalized this] show ?thesis .
qed

text \<open>\<^verbatim>\<open>IsUnspecified\<close> does not look through an IPv4-mapped address: such a resolver is accepted, written back as
  0.0.0.0, and refused the next time.\<close>

lemma mapped_zero_resolver:
  "normal_resolvers [''::ffff:0.0.0.0''] = Some [''0.0.0.0''] \<and> normal_resolvers [''0.0.0.0''] = None"
  by code_simp

end
