(* ===== verification/VpnPool.thy ===== *)
theory VpnPool
  imports OpenVpn
begin

text \<open>
  The VPN Gate exit of the kernel, \<^verbatim>\<open>internal/protocol/vpngatepool/pool.go\<close>: a pool that keeps sessions to an
  ordered list of OpenVPN servers. Sessions are numbers, and \<open>poOpen\<close> lists those that have not
  been closed. What a step observes of them, and the clock, are its arguments: \<open>alive\<close> tells which
  sessions still forward traffic. Goroutines that hold the result of a connection attempt, a health
  probe or a dial are events. The JSON encoder under the digests is a parameter. The invariant is
  that every open session has exactly one owner.
\<close>

subsection \<open>The pool\<close>

record vpn_member =
  vmId :: string
  vmSpec :: ovpn_spec

datatype member_phase = Idle | Connecting | Up | Cooldown

text \<open>\<^verbatim>\<open>memberState\<close>; \<^verbatim>\<open>nextAttempt\<close> is only read in the cooldown, which sets it.\<close>

record pool_member =
  pbMember :: vpn_member
  pbDigest :: string
  pbState :: member_phase
  pbSession :: "nat option"
  pbFailures :: int
  pbHealth :: int
  pbPassive :: "instant list"
  pbNext :: instant
  pbError :: string
  pbHandshake :: duration
  pbRtt :: duration
  pbChange :: instant

type_synonym dial_job = "string \<times> string \<times> ovpn_spec"

record pool =
  poHot :: int
  poRevision :: int
  poDigest :: string
  poMembers :: "pool_member list"
  poActive :: string
  poDraining :: "(nat \<times> instant) list"
  poChanged :: nat
  poWake :: bool
  poCancelled :: bool
  poOpen :: "nat list"
  poFresh :: nat
  poDials :: "dial_job list"

abbreviation pb_id :: "pool_member \<Rightarrow> string" where
  "pb_id m \<equiv> vmId (pbMember m)"

definition new_pool :: "int \<Rightarrow> pool" where
  "new_pool hot = \<lparr>poHot = hot, poRevision = 0, poDigest = [], poMembers = [], poActive = [], poDraining = [], poChanged = 0,
     poWake = False, poCancelled = False, poOpen = [], poFresh = 0, poDials = []\<rparr>"

text \<open>Closing a session again does nothing.\<close>

definition close_session :: "nat \<Rightarrow> pool \<Rightarrow> pool" where
  "close_session s p = p\<lparr>poOpen := removeAll s (poOpen p)\<rparr>"

fun close_optional :: "nat option \<Rightarrow> pool \<Rightarrow> pool" where
  "close_optional None p = p"
| "close_optional (Some s) p = close_session s p"

fun memberLocked :: "string \<Rightarrow> pool_member list \<Rightarrow> pool_member option" where
  "memberLocked i [] = None"
| "memberLocked i (m # ms) = (if pb_id m = i then Some m else memberLocked i ms)"

fun put_member :: "pool_member \<Rightarrow> pool_member list \<Rightarrow> pool_member list" where
  "put_member n [] = []"
| "put_member n (m # ms) = (if pb_id m = pb_id n then n # ms else m # put_member n ms)"

definition set_member :: "pool_member \<Rightarrow> pool \<Rightarrow> pool" where
  "set_member n p = p\<lparr>poMembers := put_member n (poMembers p)\<rparr>"

definition broadcastLocked :: "pool \<Rightarrow> pool" where
  "broadcastLocked p = p\<lparr>poChanged := Suc (poChanged p)\<rparr>"

definition kick :: "pool \<Rightarrow> pool" where
  "kick p = p\<lparr>poWake := True\<rparr>"

definition minBackoff :: duration where
  "minBackoff = secs 15"

definition maxBackoff :: duration where
  "maxBackoff = secs 600"

text \<open>The loop of \<^verbatim>\<open>backoff\<close>: \<open>n\<close> doublings are left.\<close>

fun double_delay :: "nat \<Rightarrow> duration \<Rightarrow> duration" where
  "double_delay 0 delay = delay"
| "double_delay (Suc n) delay = (if delay < maxBackoff then double_delay n (delay * 2) else delay)"

definition backoff :: "int \<Rightarrow> duration" where
  "backoff failures =
     (if failures \<le> 0 then minBackoff
      else let delay = double_delay (nat (failures - 1)) minBackoff in if maxBackoff < delay then maxBackoff else delay)"

definition boundError :: "string \<Rightarrow> string" where
  "boundError msg = take 256 msg"

definition down_member :: "instant \<Rightarrow> string \<Rightarrow> pool_member \<Rightarrow> pool_member" where
  "down_member now reason m = m\<lparr>pbSession := None, pbFailures := pbFailures m + 1, pbHealth := 0, pbPassive := [], pbState := Cooldown,
     pbError := boundError reason, pbNext := now + backoff (pbFailures m + 1), pbChange := now\<rparr>"

definition markDownLocked :: "instant \<Rightarrow> string \<Rightarrow> pool_member \<Rightarrow> pool \<Rightarrow> pool" where
  "markDownLocked now reason m p =
     (let p1 = set_member (down_member now reason m) (close_optional (pbSession m) p);
          p2 = (if poActive p1 = pb_id m then p1\<lparr>poActive := []\<rparr> else p1)
      in kick (broadcastLocked p2))"

subsection \<open>Choosing a session\<close>

fun session_alive :: "(nat \<Rightarrow> bool) \<Rightarrow> nat option \<Rightarrow> bool" where
  "session_alive alive None = False"
| "session_alive alive (Some s) = alive s"

definition usable :: "(nat \<Rightarrow> bool) \<Rightarrow> pool_member \<Rightarrow> bool" where
  "usable alive m \<longleftrightarrow> pbState m = Up \<and> session_alive alive (pbSession m)"

fun first_usable :: "(nat \<Rightarrow> bool) \<Rightarrow> pool_member list \<Rightarrow> pool_member option" where
  "first_usable alive [] = None"
| "first_usable alive (m # ms) = (if usable alive m then Some m else first_usable alive ms)"

fun named_usable :: "(nat \<Rightarrow> bool) \<Rightarrow> string \<Rightarrow> pool_member list \<Rightarrow> pool_member option" where
  "named_usable alive i [] = None"
| "named_usable alive i (m # ms) = (if pb_id m = i \<and> usable alive m then Some m else named_usable alive i ms)"

fun chosen :: "pool_member option \<Rightarrow> pool \<Rightarrow> (string \<times> nat) option \<times> pool" where
  "chosen None p = (None, p\<lparr>poActive := []\<rparr>)"
| "chosen (Some m) p = (map_option (\<lambda>s. (pb_id m, s)) (pbSession m), p\<lparr>poActive := pb_id m\<rparr>)"

definition selectActiveLocked :: "(nat \<Rightarrow> bool) \<Rightarrow> pool \<Rightarrow> (string \<times> nat) option \<times> pool" where
  "selectActiveLocked alive p =
     (if poActive p \<noteq> [] \<and> named_usable alive (poActive p) (poMembers p) \<noteq> None
      then chosen (named_usable alive (poActive p) (poMembers p)) p
      else chosen (first_usable alive (poMembers p)) p)"

definition anyConnectingLocked :: "pool \<Rightarrow> bool" where
  "anyConnectingLocked p = list_ex (\<lambda>m. pbState m = Connecting) (poMembers p)"

datatype dial_error = IPv6Unsupported | TunnelClosed | DialTimeout | OtherError

definition recent :: "instant \<Rightarrow> instant list \<Rightarrow> instant list" where
  "recent now ts = filter (\<lambda>t. now - t \<le> secs 10) ts @ [now]"

text \<open>\<^verbatim>\<open>recordDialFailure\<close>: whether to try again, on another member.\<close>

fun dial_failed_on :: "instant \<Rightarrow> (nat \<Rightarrow> bool) \<Rightarrow> nat \<Rightarrow> pool_member option \<Rightarrow> pool \<Rightarrow> bool \<times> pool" where
  "dial_failed_on now alive s None p = (True, p)"
| "dial_failed_on now alive s (Some m) p =
     (if pbSession m \<noteq> Some s then (True, p)
      else if \<not> alive s then (True, markDownLocked now ''tunnel closed'' m p)
      else let m1 = m\<lparr>pbPassive := recent now (pbPassive m)\<rparr> in
        if 3 \<le> length (pbPassive m1) then (True, markDownLocked now ''repeated dial timeouts'' m1 p)
        else (False, set_member m1 p))"

definition recordDialFailure :: "instant \<Rightarrow> (nat \<Rightarrow> bool) \<Rightarrow> string \<Rightarrow> nat \<Rightarrow> dial_error \<Rightarrow> pool \<Rightarrow> bool \<times> pool" where
  "recordDialFailure now alive i s err p =
     (if err = IPv6Unsupported \<or> alive s \<and> err \<noteq> TunnelClosed \<and> err \<noteq> DialTimeout then (False, p)
      else dial_failed_on now alive s (memberLocked i (poMembers p)) p)"

subsection \<open>Reconciling\<close>

definition drain_over :: "instant \<Rightarrow> (nat \<Rightarrow> bool) \<Rightarrow> nat \<times> instant \<Rightarrow> bool" where
  "drain_over now alive d \<longleftrightarrow> snd d < now \<or> \<not> alive (fst d)"

definition sweep_draining :: "instant \<Rightarrow> (nat \<Rightarrow> bool) \<Rightarrow> pool \<Rightarrow> pool" where
  "sweep_draining now alive p =
     (fold (\<lambda>d. if drain_over now alive d then close_session (fst d) else id) (poDraining p) p)
       \<lparr>poDraining := filter (\<lambda>d. \<not> drain_over now alive d) (poDraining p)\<rparr>"

fun live_phase :: "member_phase \<Rightarrow> bool" where
  "live_phase Up = True"
| "live_phase Connecting = True"
| "live_phase _ = False"

text \<open>The first loop marks dead tunnels and counts; the members of a pool are found by their ids.\<close>

fun sweep_dead :: "instant \<Rightarrow> (nat \<Rightarrow> bool) \<Rightarrow> pool_member \<Rightarrow> pool \<Rightarrow> pool" where
  "sweep_dead now alive m p =
     (if pbState m = Up \<and> pbSession m \<noteq> None \<and> \<not> session_alive alive (pbSession m)
      then markDownLocked now ''tunnel closed'' m p else p)"

fun count_phase :: "pool_member option \<Rightarrow> int" where
  "count_phase None = 0"
| "count_phase (Some m) = (if live_phase (pbState m) then 1 else 0)"

definition scan_member :: "instant \<Rightarrow> (nat \<Rightarrow> bool) \<Rightarrow> pool_member \<Rightarrow> pool \<times> int \<Rightarrow> pool \<times> int" where
  "scan_member now alive m w =
     (let p1 = sweep_dead now alive m (fst w) in (p1, snd w + count_phase (memberLocked (pb_id m) (poMembers p1))))"

definition start_member :: "instant \<Rightarrow> pool_member \<Rightarrow> pool \<Rightarrow> pool" where
  "start_member now m p = (set_member (m\<lparr>pbState := Connecting, pbChange := now\<rparr>) p)
     \<lparr>poDials := poDials p @ [(pb_id m, pbDigest m, vmSpec (pbMember m))]\<rparr>"

fun start_loop :: "instant \<Rightarrow> int \<Rightarrow> pool_member list \<Rightarrow> pool \<times> int \<Rightarrow> pool \<times> int" where
  "start_loop now desired [] w = w"
| "start_loop now desired (m # ms) w =
     (if desired \<le> snd w then w
      else if live_phase (pbState m) \<or> pbState m = Cooldown \<and> now < pbNext m then start_loop now desired ms w
      else start_loop now desired ms (start_member now m (fst w), snd w + 1))"

text \<open>The last loop closes surplus sessions from the bottom; \<open>None\<close> is the call of \<^verbatim>\<open>Close\<close> on a nil session.\<close>

fun trim_loop :: "instant \<Rightarrow> int \<Rightarrow> pool_member list \<Rightarrow> pool \<times> int \<Rightarrow> pool option" where
  "trim_loop now desired [] w = Some (fst w)"
| "trim_loop now desired (m # ms) w =
     (if snd w \<le> desired then Some (fst w)
      else if pbState m \<noteq> Up \<or> pb_id m = poActive (fst w) then trim_loop now desired ms w
      else case pbSession m of None \<Rightarrow> None
        | Some s \<Rightarrow> trim_loop now desired ms
            (set_member (m\<lparr>pbSession := None, pbState := Idle, pbChange := now\<rparr>) (close_session s (fst w)), snd w - 1))"

definition reconcile_live :: "instant \<Rightarrow> (nat \<Rightarrow> bool) \<Rightarrow> pool \<Rightarrow> pool option" where
  "reconcile_live now alive p =
     (let p1 = sweep_draining now alive p;
          desired = min (1 + poHot p1) (int (length (poMembers p1)));
          w = fold (scan_member now alive) (poMembers p1) (p1, 0);
          w1 = start_loop now desired (poMembers (fst w)) w
      in trim_loop now desired (rev (poMembers (fst w1))) w1)"

definition reconcile :: "instant \<Rightarrow> (nat \<Rightarrow> bool) \<Rightarrow> pool \<Rightarrow> pool option" where
  "reconcile now alive p = (if poCancelled p then Some p else reconcile_live now alive p)"

subsection \<open>Connection attempts\<close>

text \<open>
  What \<^verbatim>\<open>connect\<close> hands back. The closure in \<^verbatim>\<open>NewOutbound\<close> returns the \<^verbatim>\<open>*Tunnel\<close> of \<^verbatim>\<open>openvpn.Connect\<close> as
  an interface value. After a failure that is an interface holding a nil pointer: it differs from
  nil, and its \<^verbatim>\<open>Close\<close> dereferences the pointer.
\<close>

datatype connect_result = ConnectFailed string | ConnectOk duration

fun opened :: "connect_result \<Rightarrow> pool \<Rightarrow> pool" where
  "opened (ConnectFailed e) p = p"
| "opened (ConnectOk d) p = p\<lparr>poOpen := poFresh p # poOpen p, poFresh := Suc (poFresh p)\<rparr>"

text \<open>The attempt is not wanted any more: \<^verbatim>\<open>sess.Close()\<close> on whatever \<^verbatim>\<open>connect\<close> returned.\<close>

fun discard_session :: "connect_result \<Rightarrow> nat \<Rightarrow> pool \<Rightarrow> pool option" where
  "discard_session (ConnectFailed e) s p = None"
| "discard_session (ConnectOk d) s p = Some (close_session s p)"

fun store_result :: "instant \<Rightarrow> connect_result \<Rightarrow> nat \<Rightarrow> pool_member \<Rightarrow> pool \<Rightarrow> pool" where
  "store_result now (ConnectFailed e) s m p =
     kick (broadcastLocked (set_member (m\<lparr>pbFailures := pbFailures m + 1, pbState := Cooldown, pbError := boundError e,
       pbNext := now + backoff (pbFailures m + 1), pbChange := now\<rparr>) p))"
| "store_result now (ConnectOk d) s m p =
     broadcastLocked (set_member (m\<lparr>pbSession := Some s, pbState := Up, pbHandshake := d, pbHealth := 0, pbPassive := [],
       pbError := [], pbChange := now\<rparr>) p)"

fun wanted :: "string \<Rightarrow> pool_member option \<Rightarrow> bool" where
  "wanted digest None = False"
| "wanted digest (Some m) = (pbDigest m = digest \<and> pbState m = Connecting)"

definition attempt_wanted :: "dial_job \<Rightarrow> pool \<Rightarrow> bool" where
  "attempt_wanted j p \<longleftrightarrow> wanted (fst (snd j)) (memberLocked (fst j) (poMembers p)) \<and> \<not> poCancelled p"

fun finish_attempt :: "instant \<Rightarrow> connect_result \<Rightarrow> nat \<Rightarrow> pool_member option \<Rightarrow> pool \<Rightarrow> pool option" where
  "finish_attempt now r s None p = discard_session r s p"
| "finish_attempt now r s (Some m) p = Some (store_result now r s m p)"

definition connectMember :: "instant \<Rightarrow> dial_job \<Rightarrow> connect_result \<Rightarrow> pool \<Rightarrow> pool option" where
  "connectMember now j r p =
     (let p1 = opened r (p\<lparr>poDials := remove1 j (poDials p)\<rparr>); s = poFresh p in
      if \<not> attempt_wanted j p1 then discard_session r s p1
      else finish_attempt now r s (memberLocked (fst j) (poMembers p1)) p1)"

text \<open>The goroutine that waits for the end of a session, and one health probe.\<close>

fun down_if :: "instant \<Rightarrow> string \<Rightarrow> nat \<Rightarrow> pool_member option \<Rightarrow> pool \<Rightarrow> pool" where
  "down_if now reason s None p = p"
| "down_if now reason s (Some m) p = (if pbSession m = Some s then markDownLocked now reason m p else p)"

definition session_done :: "instant \<Rightarrow> string \<Rightarrow> nat \<Rightarrow> pool \<Rightarrow> pool" where
  "session_done now i s p = down_if now ''tunnel closed'' s (memberLocked i (poMembers p)) p"

fun probed_member :: "instant \<Rightarrow> nat \<Rightarrow> string + duration \<Rightarrow> pool_member option \<Rightarrow> pool \<Rightarrow> pool" where
  "probed_member now s r None p = p"
| "probed_member now s r (Some m) p =
     (if pbSession m \<noteq> Some s then p
      else case r of Inr rtt \<Rightarrow> set_member (m\<lparr>pbHealth := 0, pbRtt := rtt\<rparr>) p
        | Inl e \<Rightarrow>
          (let m1 = m\<lparr>pbHealth := pbHealth m + 1, pbError := boundError e\<rparr> in
           if 2 \<le> pbHealth m1 then markDownLocked now ''health check failed'' m1 p else set_member m1 p))"

definition health_result :: "instant \<Rightarrow> string \<Rightarrow> nat \<Rightarrow> string + duration \<Rightarrow> pool \<Rightarrow> pool" where
  "health_result now i s r p = probed_member now s r (memberLocked i (poMembers p)) p"

definition health_probes :: "pool \<Rightarrow> (string \<times> nat) list" where
  "health_probes p = concat (map (\<lambda>m. case pbSession m of Some s \<Rightarrow> if pbState m = Up then [(pb_id m, s)] else [] | None \<Rightarrow> []) (poMembers p))"

text \<open>\<^verbatim>\<open>checkSession\<close>: the first of the fixed targets that answers.\<close>

fun checkSession :: "(string + duration) list \<Rightarrow> string \<Rightarrow> string + duration" where
  "checkSession [] err = Inl err"
| "checkSession (Inr rtt # ts) err = Inr rtt"
| "checkSession (Inl e # ts) err = checkSession ts e"

subsection \<open>Membership\<close>

record members_update =
  upRevision :: int
  upDigest :: string
  upHot :: "int option"
  upMembers :: "vpn_member list"

datatype members_error = BadRevision | TooManyMembers | BadHotStandby | BadMemberId | DuplicateMember | BadSpec spec_error | DigestTooLong
  | StaleRevision | RevisionConflict

definition id_byte :: "char \<Rightarrow> bool" where
  "id_byte c = (let n = of_char c :: nat in 65 \<le> n \<and> n \<le> 90 \<or> 97 \<le> n \<and> n \<le> 122 \<or> 48 \<le> n \<and> n \<le> 58 \<or> n = 46 \<or> n = 95 \<or> n = 45)"

definition memberIDPattern :: "string \<Rightarrow> bool" where
  "memberIDPattern s = (s \<noteq> [] \<and> length s \<le> 64 \<and> list_all id_byte s)"

record pool_lib =
  liCa :: "string \<Rightarrow> bool"
  liPair :: "string \<Rightarrow> string \<Rightarrow> bool"
  liMarshal :: "vpn_member list \<Rightarrow> string"

definition MembersDigest :: "pool_lib \<Rightarrow> vpn_member list \<Rightarrow> string" where
  "MembersDigest l ms = concat (map (\<lambda>c. [hex_char (of_char c div 16), hex_char (of_char c mod 16)]) (sum256 (liMarshal l ms)))"

fun with_member :: "vpn_member \<Rightarrow> spec_error + ovpn_spec \<Rightarrow> members_error + vpn_member list \<Rightarrow> members_error + vpn_member list" where
  "with_member m (Inl e) r = Inl (BadSpec e)"
| "with_member m (Inr sp) (Inl e) = Inl e"
| "with_member m (Inr sp) (Inr ms) = Inr (m\<lparr>vmSpec := sp\<rparr> # ms)"

fun check_members :: "pool_lib \<Rightarrow> string list \<Rightarrow> vpn_member list \<Rightarrow> members_error + vpn_member list" where
  "check_members l seen [] = Inr []"
| "check_members l seen (m # ms) =
     (if \<not> memberIDPattern (vmId m) then Inl BadMemberId
      else if vmId m \<in> set seen then Inl DuplicateMember
      else with_member m (Normalize (liCa l) (liPair l) (vmSpec m)) (check_members l (vmId m # seen) ms))"

definition fresh_member :: "instant \<Rightarrow> vpn_member \<Rightarrow> string \<Rightarrow> pool_member" where
  "fresh_member now m d = \<lparr>pbMember = m, pbDigest = d, pbState = Idle, pbSession = None, pbFailures = 0, pbHealth = 0, pbPassive = [],
     pbNext = 0, pbError = [], pbHandshake = 0, pbRtt = 0, pbChange = now\<rparr>"

fun keep_or_new :: "instant \<Rightarrow> vpn_member \<Rightarrow> string \<Rightarrow> pool_member option \<Rightarrow> pool_member" where
  "keep_or_new now m d None = fresh_member now m d"
| "keep_or_new now m d (Some c) = (if pbDigest c = d then c else fresh_member now m d)"

fun kept_digest :: "string \<Rightarrow> pool_member option \<Rightarrow> bool" where
  "kept_digest d None = False"
| "kept_digest d (Some c) = (pbDigest c = d)"

text \<open>The loop that builds the next members and leaves the removed ones in \<^verbatim>\<open>existing\<close>.\<close>

fun next_members :: "pool_lib \<Rightarrow> instant \<Rightarrow> vpn_member list \<Rightarrow> (string, pool_member) gomap \<Rightarrow> pool_member list \<times> (string, pool_member) gomap" where
  "next_members l now [] ex = ([], ex)"
| "next_members l now (m # ms) ex =
     (let d = MembersDigest l [m]; c = gm_get ex (vmId m);
          r = next_members l now ms (if kept_digest d c then gm_del (vmId m) ex else ex)
      in (keep_or_new now m d c # fst r, snd r))"

fun drain_session :: "instant \<Rightarrow> nat option \<Rightarrow> pool \<Rightarrow> pool" where
  "drain_session now None p = p"
| "drain_session now (Some s) p = p\<lparr>poDraining := poDraining p @ [(s, now + secs 300)]\<rparr>"

definition remove_member :: "instant \<Rightarrow> string \<times> pool_member \<Rightarrow> pool \<Rightarrow> pool" where
  "remove_member now c p =
     (let p1 = drain_session now (pbSession (snd c)) p in if poActive p1 = pb_id (snd c) then p1\<lparr>poActive := []\<rparr> else p1)"

definition apply_members :: "pool_lib \<Rightarrow> instant \<Rightarrow> members_update \<Rightarrow> vpn_member list \<Rightarrow> string \<Rightarrow> pool \<Rightarrow> pool" where
  "apply_members l now u ms digest p =
     (let existing = fold (\<lambda>m. gm_put (pb_id m) m) (poMembers p) [];
          r = next_members l now ms existing;
          p1 = fold (remove_member now) (snd r) p
      in kick (broadcastLocked (p1\<lparr>poMembers := fst r, poHot := the_default (poHot p1) (upHot u), poRevision := upRevision u,
           poDigest := digest\<rparr>)))"

definition digest_or :: "string \<Rightarrow> string \<Rightarrow> string" where
  "digest_or given own = (let d = trim_space given in if d = [] then own else d)"

fun checked_members :: "pool_lib \<Rightarrow> instant \<Rightarrow> members_update \<Rightarrow> members_error + vpn_member list \<Rightarrow> pool \<Rightarrow> members_error option \<times> pool" where
  "checked_members l now u (Inl e) p = (Some e, p)"
| "checked_members l now u (Inr ms) p =
     (let digest = digest_or (upDigest u) (MembersDigest l ms) in
      if 128 < length digest then (Some DigestTooLong, p)
      else if upRevision u < poRevision p then (Some StaleRevision, p)
      else if upRevision u = poRevision p then (if digest = poDigest p then None else Some RevisionConflict, p)
      else (None, apply_members l now u ms digest p))"

definition SetMembers :: "pool_lib \<Rightarrow> instant \<Rightarrow> members_update \<Rightarrow> pool \<Rightarrow> members_error option \<times> pool" where
  "SetMembers l now u p =
     (if upRevision u \<le> 0 then (Some BadRevision, p)
      else if 8 < length (upMembers u) then (Some TooManyMembers, p)
      else if \<not> pred_option (\<lambda>h. 0 \<le> h \<and> h \<le> 2) (upHot u) then (Some BadHotStandby, p)
      else checked_members l now u (check_members l [] (upMembers u)) p)"

text \<open>\<^verbatim>\<open>Close\<close>, which runs once; the states of the members stay.\<close>

definition close_pool :: "pool \<Rightarrow> pool" where
  "close_pool p =
     (if poCancelled p then p
      else let p1 = fold (\<lambda>m. close_optional (pbSession m)) (poMembers p) p;
               p2 = fold (\<lambda>d. close_session (fst d)) (poDraining p1) p1
           in p2\<lparr>poMembers := map (\<lambda>m. m\<lparr>pbSession := None\<rparr>) (poMembers p2), poDraining := [], poCancelled := True\<rparr>)"

subsection \<open>Histories of a pool\<close>

text \<open>The steps that take the pool's lock; \<open>None\<close> is a panic, which ends the process.\<close>

datatype pool_event =
    Tick instant "nat \<Rightarrow> bool"
  | Attempt instant dial_job connect_result
  | SessionDone instant string nat
  | Probed instant string nat "string + duration"
  | DialFailed instant "nat \<Rightarrow> bool" string nat dial_error
  | Choose "nat \<Rightarrow> bool"
  | Update pool_lib instant members_update
  | Shut

fun pool_step :: "pool_event \<Rightarrow> pool \<Rightarrow> pool option" where
  "pool_step (Tick now alive) p = reconcile now alive p"
| "pool_step (Attempt now j r) p = (if j \<in> set (poDials p) then connectMember now j r p else Some p)"
| "pool_step (SessionDone now i s) p = Some (session_done now i s p)"
| "pool_step (Probed now i s r) p = Some (health_result now i s r p)"
| "pool_step (DialFailed now alive i s err) p = Some (snd (recordDialFailure now alive i s err p))"
| "pool_step (Choose alive) p = Some (snd (selectActiveLocked alive p))"
| "pool_step (Update l now u) p = Some (snd (SetMembers l now u p))"
| "pool_step Shut p = Some (close_pool p)"

fun pool_run :: "pool_event list \<Rightarrow> pool \<Rightarrow> pool option" where
  "pool_run [] p = Some p"
| "pool_run (e # es) p = (case pool_step e p of None \<Rightarrow> None | Some p1 \<Rightarrow> pool_run es p1)"

text \<open>\<^verbatim>\<open>activeSession\<close> while nothing is usable: each wait ends with what others do to the pool, with its
  deadline or with the caller's; the deadline ends a list of waits as well.\<close>

datatype dial_failure = NoHealthyMember | CallerDone | DialError | Crashed

datatype pool_wait = Woken "pool_event list" "nat \<Rightarrow> bool" | TimedOut | CallerLeft

fun settle_choice :: "(string \<times> nat) option \<times> pool \<Rightarrow> (dial_failure + string \<times> nat) \<times> pool" where
  "settle_choice (Some x, q) = (Inr x, q)"
| "settle_choice (None, q) = (Inl NoHealthyMember, kick q)"

definition settled :: "(string \<times> nat) option \<times> pool \<Rightarrow> bool" where
  "settled r \<longleftrightarrow> fst r \<noteq> None \<or> \<not> anyConnectingLocked (snd r)"

fun activeSession :: "pool_wait list \<Rightarrow> (nat \<Rightarrow> bool) \<Rightarrow> pool \<Rightarrow> (dial_failure + string \<times> nat) \<times> pool" where
  "activeSession [] alive p = settle_choice (selectActiveLocked alive p)"
| "activeSession (TimedOut # ws) alive p = settle_choice (selectActiveLocked alive p)"
| "activeSession (CallerLeft # ws) alive p =
     (let r = selectActiveLocked alive p in if settled r then settle_choice r else (Inl CallerDone, kick (snd r)))"
| "activeSession (Woken es alive' # ws) alive p =
     (let r = selectActiveLocked alive p in
      if settled r then settle_choice r
      else case pool_run es (kick (snd r)) of None \<Rightarrow> (Inl Crashed, kick (snd r)) | Some p3 \<Rightarrow> activeSession ws alive' p3)"

text \<open>\<^verbatim>\<open>DialContext\<close>: two attempts. Each is told the waits, the clock, what is alive before and after and what the
  session's own dial returns.\<close>

record dial_attempt =
  daWaits :: "pool_wait list"
  daBefore :: "nat \<Rightarrow> bool"
  daAfter :: "nat \<Rightarrow> bool"
  daNow :: instant
  daDial :: "string \<times> nat \<Rightarrow> dial_error option"

fun dial_attempts :: "dial_attempt list \<Rightarrow> pool \<Rightarrow> (dial_failure + string \<times> nat) \<times> pool" where
  "dial_attempts [] p = (Inl DialError, p)"
| "dial_attempts (a # as) p =
     (case activeSession (daWaits a) (daBefore a) p of
        (Inl e, p1) \<Rightarrow> (Inl e, p1)
      | (Inr (i, s), p1) \<Rightarrow>
        (case daDial a (i, s) of None \<Rightarrow> (Inr (i, s), p1)
         | Some err \<Rightarrow>
           (case recordDialFailure (daNow a) (daAfter a) i s err p1 of
              (True, p2) \<Rightarrow> dial_attempts as p2
            | (False, p2) \<Rightarrow> (Inl DialError, p2))))"

definition DialContext :: "dial_attempt \<Rightarrow> dial_attempt \<Rightarrow> pool \<Rightarrow> (dial_failure + string \<times> nat) \<times> pool" where
  "DialContext a1 a2 p = dial_attempts [a1, a2] p"


subsection \<open>Who owns a session\<close>

fun sess_list :: "nat option \<Rightarrow> nat list" where
  "sess_list None = []"
| "sess_list (Some s) = [s]"

definition held :: "pool_member list \<Rightarrow> nat list" where
  "held ms = concat (map (\<lambda>m. sess_list (pbSession m)) ms)"

definition owned :: "pool \<Rightarrow> nat list" where
  "owned p = held (poMembers p) @ map fst (poDraining p)"

definition phases_ok :: "pool_member list \<Rightarrow> bool" where
  "phases_ok ms = list_all (\<lambda>m. pbState m = Up \<longleftrightarrow> pbSession m \<noteq> None) ms"

definition pool_ok :: "pool \<Rightarrow> bool" where
  "pool_ok p \<longleftrightarrow> distinct (map pb_id (poMembers p)) \<and> distinct (poOpen p) \<and> mset (poOpen p) = mset (owned p) \<and>
     (\<forall>s \<in> set (poOpen p). s < poFresh p) \<and> (if poCancelled p then poOpen p = [] else phases_ok (poMembers p))"

definition same_pool :: "pool \<Rightarrow> pool \<Rightarrow> bool" where
  "same_pool p q \<longleftrightarrow> poMembers q = poMembers p \<and> poDraining q = poDraining p \<and> poOpen q = poOpen p \<and> poFresh q = poFresh p \<and>
     poCancelled q = poCancelled p"

lemma same_pool_ok: "same_pool p q \<Longrightarrow> pool_ok q = pool_ok p"
  by (simp add: same_pool_def pool_ok_def owned_def)

lemma same_pools [simp]:
  "same_pool p p" "same_pool p (kick q) = same_pool p q" "same_pool p (broadcastLocked q) = same_pool p q"
  "same_pool p (q\<lparr>poActive := a\<rparr>) = same_pool p q" "same_pool p (q\<lparr>poDials := d\<rparr>) = same_pool p q"
  by (simp_all add: same_pool_def kick_def broadcastLocked_def)

lemma pool_ok_simps [simp]:
  "pool_ok (kick p) = pool_ok p" "pool_ok (broadcastLocked p) = pool_ok p" "pool_ok (p\<lparr>poActive := a\<rparr>) = pool_ok p"
  "pool_ok (p\<lparr>poDials := d\<rparr>) = pool_ok p"
  by (rule same_pool_ok, simp)+

lemma memberLocked_put:
  "memberLocked i (put_member n ms) = (if pb_id n = i \<and> memberLocked i ms \<noteq> None then Some n else memberLocked i ms)"
  by (induction ms) auto

lemma put_member_ids [simp]: "map pb_id (put_member n ms) = map pb_id ms"
  by (induction ms) auto

lemma memberLocked_mem: "memberLocked i ms = Some m \<Longrightarrow> m \<in> set ms \<and> pb_id m = i"
  by (induction ms) (auto split: if_splits)

lemma memberLocked_distinct: "distinct (map pb_id ms) \<Longrightarrow> m \<in> set ms \<Longrightarrow> memberLocked (pb_id m) ms = Some m"
  by (induction ms) (auto simp: image_iff)

lemma held_put:
  "memberLocked (pb_id n) ms = Some m \<Longrightarrow>
     mset (held (put_member n ms)) + mset (sess_list (pbSession m)) = mset (held ms) + mset (sess_list (pbSession n))"
  by (induction ms) (auto simp: held_def split: if_splits)

lemma phases_put: "phases_ok ms \<Longrightarrow> (pbState n = Up \<longleftrightarrow> pbSession n \<noteq> None) \<Longrightarrow> phases_ok (put_member n ms)"
  by (induction ms) (auto simp: phases_ok_def)

text \<open>A member changes without touching its session.\<close>

lemma set_member_ok:
  assumes "pool_ok p" "memberLocked (pb_id n) (poMembers p) = Some m" "pbSession n = pbSession m"
    "poCancelled p \<or> (pbState n = Up \<longleftrightarrow> pbSession n \<noteq> None)"
  shows "pool_ok (set_member n p)"
  using assms held_put [OF assms(2)] phases_put [of "poMembers p" n]
  by (auto simp: pool_ok_def set_member_def owned_def)

text \<open>A member gives up its session, which is closed.\<close>

lemma mset_close: "distinct xs \<Longrightarrow> mset (removeAll s xs) = mset xs - {#s#}"
  by (simp add: distinct_remove1_removeAll [symmetric])

lemma release_ok:
  assumes "pool_ok p" "memberLocked (pb_id n) (poMembers p) = Some m" "pbSession n = None" "pbState n \<noteq> Up"
  shows "pool_ok (set_member n (close_optional (pbSession m) p))"
proof (cases "pbSession m")
  case None
  then show ?thesis using set_member_ok [OF assms(1,2)] assms(3,4) by simp
next
  case (Some s)
  have "mset (owned p) = mset (held (put_member n (poMembers p))) + {#s#} + mset (map fst (poDraining p))"
    using held_put [OF assms(2)] assms(3) Some by (simp add: owned_def)
  then show ?thesis using assms phases_put [of "poMembers p" n] Some
    by (auto simp: pool_ok_def set_member_def close_session_def owned_def mset_close distinct_removeAll)
qed

lemma mark_down_ok:
  assumes "pool_ok p" "memberLocked (pb_id m) (poMembers p) = Some m0" "pbSession m0 = pbSession m"
  shows "pool_ok (markDownLocked now reason m p)"
proof -
  have "pool_ok (set_member (down_member now reason m) (close_optional (pbSession m0) p))"
    by (rule release_ok [OF assms(1)]) (simp_all add: down_member_def assms(2))
  then show ?thesis using assms(3) by (simp add: markDownLocked_def Let_def)
qed

lemma down_simps [simp]:
  "poMembers (markDownLocked now reason m p) = put_member (down_member now reason m) (poMembers p)"
  "poCancelled (markDownLocked now reason m p) = poCancelled p"
  by (cases "pbSession m"; simp add: markDownLocked_def Let_def set_member_def kick_def broadcastLocked_def close_session_def)+

lemma down_id [simp]: "pb_id (down_member now reason m) = pb_id m"
  by (simp add: down_member_def)

subsection \<open>Every step keeps the books\<close>

lemma session_done_ok: "pool_ok p \<Longrightarrow> pool_ok (session_done now i s p)"
proof (cases "memberLocked i (poMembers p)")
  case (Some m)
  assume "pool_ok p"
  then show ?thesis using Some memberLocked_mem [OF Some] by (auto simp: session_done_def intro!: mark_down_ok)
qed (simp add: session_done_def)

lemma same_session_ok:
  assumes "pool_ok p" "memberLocked i (poMembers p) = Some m" "pb_id n = pb_id m" "pbSession n = pbSession m" "pbState n = pbState m"
  shows "pool_ok (set_member n p)"
proof -
  have m: "m \<in> set (poMembers p)" "pb_id m = i" using memberLocked_mem [OF assms(2)] by auto
  show ?thesis
  proof (rule set_member_ok [OF assms(1)])
    show "memberLocked (pb_id n) (poMembers p) = Some m" using assms(2,3) m by simp
    show "poCancelled p \<or> (pbState n = Up \<longleftrightarrow> pbSession n \<noteq> None)"
      using assms(1,4,5) m(1) by (auto simp: pool_ok_def phases_ok_def list_all_iff)
  qed (rule assms(4))
qed

lemma probed_ok: "pool_ok p \<Longrightarrow> pool_ok (health_result now i s r p)"
proof (cases "memberLocked i (poMembers p)")
  case (Some m)
  assume p: "pool_ok p"
  have "pb_id m = i" using memberLocked_mem [OF Some] by simp
  then show ?thesis using p Some
    by (cases r) (auto simp: health_result_def Let_def intro!: mark_down_ok same_session_ok [OF p Some])
qed (simp add: health_result_def)

lemma dial_failed_ok: "pool_ok p \<Longrightarrow> pool_ok (snd (recordDialFailure now alive i s err p))"
proof (cases "memberLocked i (poMembers p)")
  case (Some m)
  assume p: "pool_ok p"
  have "pb_id m = i" using memberLocked_mem [OF Some] by simp
  then show ?thesis using p Some
    by (auto simp: recordDialFailure_def Let_def intro!: mark_down_ok same_session_ok [OF p Some])
qed (simp add: recordDialFailure_def)

lemma chosen_ok: "pool_ok (snd (chosen r p)) = pool_ok p"
  by (cases r) simp_all

lemma select_ok: "pool_ok (snd (selectActiveLocked alive p)) = pool_ok p"
  by (simp add: selectActiveLocked_def chosen_ok)

subsection \<open>Reconciling keeps the books\<close>

lemma filter_drained:
  "distinct (poOpen p) \<Longrightarrow>
     poOpen (fold (\<lambda>d. if f d then close_session (fst d) else id) ds p) = filter (\<lambda>s. s \<notin> fst ` set (filter f ds)) (poOpen p)"
proof (induction ds arbitrary: p)
  case (Cons d ds)
  then show ?case by (auto simp: close_session_def removeAll_filter_not_eq distinct_removeAll intro!: filter_cong)
qed simp

lemma fold_close_fields:
  "poMembers (fold (\<lambda>d. if f d then close_session (fst d) else id) ds p) = poMembers p"
  "poFresh (fold (\<lambda>d. if f d then close_session (fst d) else id) ds p) = poFresh p"
  "poCancelled (fold (\<lambda>d. if f d then close_session (fst d) else id) ds p) = poCancelled p"
  by (induction ds arbitrary: p) (simp_all add: close_session_def)

lemma filter_mset_out: "distinct (xs @ ys) \<Longrightarrow> filter (\<lambda>s. s \<notin> set ys) xs = xs"
  by (auto simp: filter_id_conv)

lemma owned_distinct: "pool_ok p \<Longrightarrow> distinct (owned p)"
  by (metis pool_ok_def mset_eq_imp_distinct_iff)

lemma sweep_draining_ok:
  assumes "pool_ok p"
  shows "pool_ok (sweep_draining now alive p)" "poMembers (sweep_draining now alive p) = poMembers p"
    "poCancelled (sweep_draining now alive p) = poCancelled p"
proof -
  let ?f = "drain_over now alive" and ?d = "poDraining p"
  let ?gone = "fst ` set (filter ?f ?d)"
  have open_set: "distinct (poOpen p)" "mset (poOpen p) = mset (owned p)" using assms by (auto simp: pool_ok_def)
  have "distinct (held (poMembers p) @ map fst ?d)" using owned_distinct [OF assms] by (simp add: owned_def)
  then have d: "set (held (poMembers p)) \<inter> fst ` set ?d = {}" "distinct (map fst ?d)" by auto
  have "filter (\<lambda>s. s \<notin> ?gone) (held (poMembers p)) = held (poMembers p)" using d(1) by (auto simp: filter_id_conv)
  moreover have "filter (\<lambda>s. s \<notin> ?gone) (map fst ?d) = map fst (filter (\<lambda>x. \<not> ?f x) ?d)"
    using d(2) by (auto simp: filter_map comp_def distinct_map inj_on_def intro!: arg_cong [where f = "map fst"] filter_cong)
  ultimately have "filter (\<lambda>s. s \<notin> ?gone) (owned p) = held (poMembers p) @ map fst (filter (\<lambda>x. \<not> ?f x) ?d)"
    by (simp add: owned_def)
  then have "mset (filter (\<lambda>s. s \<notin> ?gone) (poOpen p)) = mset (held (poMembers p) @ map fst (filter (\<lambda>x. \<not> ?f x) ?d))"
    using arg_cong [OF open_set(2), of "filter_mset (\<lambda>s. s \<notin> ?gone)"] by (simp flip: mset_filter)
  then show "pool_ok (sweep_draining now alive p)"
    using assms by (auto simp: pool_ok_def sweep_draining_def filter_drained [OF open_set(1)] fold_close_fields owned_def)
  show "poMembers (sweep_draining now alive p) = poMembers p" "poCancelled (sweep_draining now alive p) = poCancelled p"
    by (simp_all add: sweep_draining_def fold_close_fields)
qed

text \<open>The members a loop has yet to visit are still as they were when it started.\<close>

definition unvisited :: "pool_member list \<Rightarrow> pool \<Rightarrow> bool" where
  "unvisited ms p \<longleftrightarrow> distinct (map pb_id ms) \<and> (\<forall>m \<in> set ms. memberLocked (pb_id m) (poMembers p) = Some m)"

lemma unvisited_all: "pool_ok p \<Longrightarrow> unvisited (poMembers p) p" "pool_ok p \<Longrightarrow> unvisited (rev (poMembers p)) p"
  by (auto simp: unvisited_def pool_ok_def rev_map [symmetric] memberLocked_distinct)

lemma unvisited_put:
  "unvisited (m # ms) p \<Longrightarrow> pb_id n = pb_id m \<Longrightarrow> poMembers q = put_member n (poMembers p) \<Longrightarrow> unvisited ms q"
  by (auto simp: unvisited_def memberLocked_put)

lemma unvisited_tl: "unvisited (m # ms) p \<Longrightarrow> poMembers q = poMembers p \<Longrightarrow> unvisited ms q"
  by (auto simp: unvisited_def)

definition sound :: "pool \<Rightarrow> bool" where
  "sound p \<longleftrightarrow> pool_ok p \<and> \<not> poCancelled p"

lemma scan_ok: "sound (fst w) \<Longrightarrow> unvisited ms (fst w) \<Longrightarrow> sound (fst (fold (scan_member now alive) ms w))"
proof (induction ms arbitrary: w)
  case (Cons m ms)
  let ?w = "scan_member now alive m w"
  have m: "memberLocked (pb_id m) (poMembers (fst w)) = Some m" using Cons.prems by (simp add: unvisited_def)
  have "sound (fst ?w)"
    using Cons.prems(1) mark_down_ok [OF _ m refl] by (auto simp: scan_member_def Let_def sound_def)
  moreover have "unvisited ms (fst ?w)"
    using unvisited_put [OF Cons.prems(2) down_id] unvisited_tl [OF Cons.prems(2)] by (auto simp: scan_member_def Let_def)
  ultimately show ?case using Cons.IH by simp
qed simp

lemma idle_no_session: "sound p \<Longrightarrow> memberLocked i (poMembers p) = Some m \<Longrightarrow> pbState m = Up \<longleftrightarrow> pbSession m \<noteq> None"
  using memberLocked_mem [of i "poMembers p" m] by (auto simp: sound_def pool_ok_def phases_ok_def list_all_iff)

lemma start_ok_pool: "sound (fst w) \<Longrightarrow> unvisited ms (fst w) \<Longrightarrow> sound (fst (start_loop now desired ms w))"
proof (induction ms arbitrary: w)
  case (Cons m ms)
  have m: "memberLocked (pb_id m) (poMembers (fst w)) = Some m" using Cons.prems by (simp add: unvisited_def)
  let ?p = "start_member now m (fst w)"
  have "sound ?p" if "\<not> live_phase (pbState m)"
  proof -
    have "pbState m \<noteq> Up" using that by auto
    then have "pbSession m = None" using idle_no_session [OF Cons.prems(1) m] by auto
    then have "pool_ok (set_member (m\<lparr>pbState := Connecting, pbChange := now\<rparr>) (fst w))"
      using Cons.prems(1) m by (intro set_member_ok) (auto simp: sound_def)
    then show ?thesis using Cons.prems(1) by (simp add: sound_def start_member_def set_member_def)
  qed
  moreover have "unvisited ms ?p"
    using unvisited_put [OF Cons.prems(2), of "m\<lparr>pbState := Connecting, pbChange := now\<rparr>"] by (simp add: start_member_def set_member_def)
  moreover have "unvisited ms (fst w)" using unvisited_tl [OF Cons.prems(2)] by simp
  ultimately show ?case using Cons by simp
qed simp

lemma trim_ok: "sound (fst w) \<Longrightarrow> unvisited ms (fst w) \<Longrightarrow> \<exists>q. trim_loop now desired ms w = Some q \<and> sound q"
proof (induction ms arbitrary: w)
  case (Cons m ms)
  have m: "memberLocked (pb_id m) (poMembers (fst w)) = Some m" using Cons.prems by (simp add: unvisited_def)
  let ?n = "m\<lparr>pbSession := None, pbState := Idle, pbChange := now\<rparr>"
  have skip: "unvisited ms (fst w)" using unvisited_tl [OF Cons.prems(2)] by simp
  show ?case
  proof (cases "pbState m = Up")
    case True
    then obtain s where s: "pbSession m = Some s" using idle_no_session [OF Cons.prems(1) m] by auto
    let ?p = "set_member ?n (close_session s (fst w))"
    have "sound ?p" using Cons.prems(1) release_ok [of "fst w" ?n m] m s by (simp add: sound_def set_member_def close_session_def)
    moreover have "unvisited ms ?p"
      using unvisited_put [OF Cons.prems(2), of ?n] by (simp add: set_member_def close_session_def)
    ultimately show ?thesis using Cons skip s by simp
  qed (use Cons skip in simp)
qed simp

lemma reconcile_ok: "pool_ok p \<Longrightarrow> \<exists>q. reconcile now alive p = Some q \<and> pool_ok q"
proof (cases "poCancelled p")
  case False
  assume p: "pool_ok p"
  define p1 where "p1 = sweep_draining now alive p"
  have p1: "sound p1" using sweep_draining_ok [OF p] False by (simp add: p1_def sound_def)
  define w where "w = fold (scan_member now alive) (poMembers p1) (p1, 0)"
  have w: "sound (fst w)" using scan_ok [of "(p1, 0)" "poMembers p1"] p1 unvisited_all(1) by (simp add: w_def sound_def)
  define desired where "desired = min (1 + poHot p1) (int (length (poMembers p1)))"
  define w1 where "w1 = start_loop now desired (poMembers (fst w)) w"
  have w1: "sound (fst w1)" using start_ok_pool [OF w] unvisited_all(1) w by (simp add: w1_def sound_def)
  from trim_ok [OF w1, of "rev (poMembers (fst w1))" now desired] unvisited_all(2) w1
  obtain q where "trim_loop now desired (rev (poMembers (fst w1))) w1 = Some q" "pool_ok q" by (auto simp: sound_def)
  then show ?thesis using False
    by (simp add: reconcile_def reconcile_live_def Let_def p1_def w_def desired_def w1_def)
qed (simp add: reconcile_def)

subsection \<open>Attempts, updates and the end keep the books\<close>

lemma adopt_ok:
  assumes "sound p" "memberLocked (pb_id n) (poMembers p) = Some m" "pbSession m = None" "pbSession n = Some (poFresh p)" "pbState n = Up"
  shows "pool_ok (set_member n (p\<lparr>poOpen := poFresh p # poOpen p, poFresh := Suc (poFresh p)\<rparr>))"
  using assms held_put [OF assms(2)] phases_put [of "poMembers p" n]
  by (auto simp: sound_def pool_ok_def set_member_def owned_def less_Suc_eq)

lemma discard_ok:
  assumes "pool_ok p"
  shows "pool_ok (close_session (poFresh p) (p\<lparr>poOpen := poFresh p # poOpen p, poFresh := Suc (poFresh p)\<rparr>))"
proof -
  have "poFresh p \<notin> set (poOpen p)" using assms by (auto simp: pool_ok_def)
  then show ?thesis using assms by (auto simp: pool_ok_def close_session_def owned_def less_Suc_eq)
qed

lemma attempt_wanted_same: "same_pool p q \<Longrightarrow> attempt_wanted j q = attempt_wanted j p"
  by (simp add: attempt_wanted_def same_pool_def)

lemma attempt_ok:
  assumes "pool_ok p"
  shows "case connectMember now j r p of None \<Rightarrow> (\<exists>e. r = ConnectFailed e) \<and> \<not> attempt_wanted j p
    | Some q \<Rightarrow> pool_ok q \<and> (attempt_wanted j p \<or> (\<exists>d. r = ConnectOk d))"
proof -
  define p0 where "p0 = p\<lparr>poDials := remove1 j (poDials p)\<rparr>"
  have p0: "pool_ok p0" "poFresh p0 = poFresh p" using assms by (simp_all add: p0_def)
  have w: "attempt_wanted j (opened r p0) = attempt_wanted j p" by (cases r) (simp_all add: attempt_wanted_def p0_def)
  show ?thesis
  proof (cases "attempt_wanted j p")
    case False
    then show ?thesis using w discard_ok [OF p0(1)] p0(2)
      by (cases r) (simp_all add: connectMember_def Let_def p0_def [symmetric])
  next
    case True
    then obtain m where m: "memberLocked (fst j) (poMembers p) = Some m" "pbState m = Connecting" "\<not> poCancelled p"
      by (cases "memberLocked (fst j) (poMembers p)") (auto simp: attempt_wanted_def)
    have i: "pb_id m = fst j" using memberLocked_mem [OF m(1)] by simp
    have s: "sound p0" using p0(1) m(3) by (simp add: sound_def p0_def)
    have m0: "memberLocked (pb_id m) (poMembers p0) = Some m" using m(1) i by (simp add: p0_def)
    have none: "pbSession m = None" using idle_no_session [OF s m0] m(2) by simp
    have ms: "poMembers (opened r p0) = poMembers p" by (cases r) (simp_all add: p0_def)
    have r: "connectMember now j r p = Some (store_result now r (poFresh p) m (opened r p0))"
      using True w m(1) ms by (simp add: connectMember_def Let_def p0_def [symmetric])
    have "pool_ok (store_result now r (poFresh p) m (opened r p0))"
    proof (cases r)
      case (ConnectFailed e)
      then show ?thesis using p0(1) m0 none by (simp add: set_member_ok)
    next
      case (ConnectOk d)
      let ?n = "m\<lparr>pbSession := Some (poFresh p), pbState := Up, pbHandshake := d, pbHealth := 0, pbPassive := [], pbError := [], pbChange := now\<rparr>"
      have "pool_ok (set_member ?n (p0\<lparr>poOpen := poFresh p0 # poOpen p0, poFresh := Suc (poFresh p0)\<rparr>))"
        by (rule adopt_ok [OF s _ none]) (simp_all add: m0 p0(2))
      then show ?thesis using ConnectOk by simp
    qed
    then show ?thesis using r True by simp
  qed
qed

lemma existing_list:
  "distinct (map pb_id ms) \<Longrightarrow> pb_id ` set ms \<inter> fst ` set ex = {} \<Longrightarrow>
     fold (\<lambda>m. gm_put (pb_id m) m) ms ex = ex @ map (\<lambda>m. (pb_id m, m)) ms"
proof (induction ms arbitrary: ex)
  case (Cons m ms)
  have "pb_id m \<notin> fst ` set ex" using Cons.prems(2) by auto
  then have "gm_put (pb_id m) m ex = ex @ [(pb_id m, m)]" by (induction ex) auto
  then show ?case using Cons.IH [of "ex @ [(pb_id m, m)]"] Cons.prems by auto
qed simp

lemma held_del:
  "gm_wf ex \<Longrightarrow> gm_get ex i = Some c \<Longrightarrow> mset (held (map snd ex)) = mset (sess_list (pbSession c)) + mset (held (map snd (gm_del i ex)))"
proof (induction ex)
  case (Cons x ex)
  obtain k v where x: "x = (k, v)" by force
  show ?case
  proof (cases "k = i")
    case True
    then have "gm_del i ex = ex" using Cons.prems(1) x by (force simp: gm_del_def gm_wf_def filter_id_conv)
    then show ?thesis using True Cons.prems x by (simp add: held_def)
  next
    case False
    then show ?thesis using Cons x by (simp add: held_def gm_wf_def)
  qed
qed simp

definition named :: "(string, pool_member) gomap \<Rightarrow> bool" where
  "named ex \<longleftrightarrow> gm_wf ex \<and> (\<forall>x \<in> set ex. pb_id (snd x) = fst x)"

lemma named_del: "named ex \<Longrightarrow> named (gm_del i ex)"
  using gm_wf_del [of ex i] by (auto simp: named_def gm_del_def)

lemma next_members_ok:
  assumes "named ex"
  shows "map pb_id (fst (next_members l now ms ex)) = map vmId ms \<and>
    mset (held (fst (next_members l now ms ex))) + mset (held (map snd (snd (next_members l now ms ex)))) = mset (held (map snd ex)) \<and>
    (phases_ok (map snd ex) \<longrightarrow> phases_ok (fst (next_members l now ms ex)))"
  using assms
proof (induction ms arbitrary: ex)
  case Nil
  show ?case by (simp add: held_def phases_ok_def)
next
  case (Cons m ms)
  let ?c = "gm_get ex (vmId m)" and ?d = "MembersDigest l [m]"
  have new: "pb_id (fresh_member now m d) = vmId m" "pbSession (fresh_member now m d) = None" "pbState (fresh_member now m d) = Idle" for d
    by (simp_all add: fresh_member_def)
  show ?case
  proof (cases "kept_digest ?d ?c")
    case True
    then obtain c where c: "?c = Some c" "pbDigest c = ?d" by (cases ?c) auto
    have mem: "(vmId m, c) \<in> set ex" by (rule gm_get_in_set [OF c(1)])
    then have id: "pb_id c = vmId m" using Cons.prems by (force simp: named_def)
    have ph: "phases_ok (map snd ex) \<Longrightarrow> (pbState c = Up \<longleftrightarrow> pbSession c \<noteq> None) \<and> phases_ok (map snd (gm_del (vmId m) ex))"
      using mem by (force simp: phases_ok_def gm_del_def list_all_iff)
    have wf: "gm_wf ex" using Cons.prems by (simp add: named_def)
    from Cons.IH [OF named_del [OF Cons.prems]] held_del [OF wf c(1)] show ?thesis
      using True c id ph by (auto simp: Let_def held_def phases_ok_def)
  next
    case False
    then have "keep_or_new now m ?d ?c = fresh_member now m ?d" by (cases ?c) auto
    then show ?thesis using Cons False new by (simp add: Let_def held_def phases_ok_def)
  qed
qed

lemma remove_members:
  "poMembers (fold (remove_member now) cs p) = poMembers p" "poOpen (fold (remove_member now) cs p) = poOpen p"
  "poFresh (fold (remove_member now) cs p) = poFresh p" "poCancelled (fold (remove_member now) cs p) = poCancelled p"
  "mset (map fst (poDraining (fold (remove_member now) cs p))) = mset (map fst (poDraining p)) + mset (held (map snd cs))"
proof -
  have one: "poMembers (remove_member now c p) = poMembers p" "poOpen (remove_member now c p) = poOpen p"
    "poFresh (remove_member now c p) = poFresh p" "poCancelled (remove_member now c p) = poCancelled p"
    "mset (map fst (poDraining (remove_member now c p))) = mset (map fst (poDraining p)) + mset (sess_list (pbSession (snd c)))" for c p
    by (cases "pbSession (snd c)"; simp add: remove_member_def Let_def)+
  show "poMembers (fold (remove_member now) cs p) = poMembers p" "poOpen (fold (remove_member now) cs p) = poOpen p"
    "poFresh (fold (remove_member now) cs p) = poFresh p" "poCancelled (fold (remove_member now) cs p) = poCancelled p"
    by (induction cs arbitrary: p) (simp_all add: one)
  show "mset (map fst (poDraining (fold (remove_member now) cs p))) = mset (map fst (poDraining p)) + mset (held (map snd cs))"
    by (induction cs arbitrary: p) (simp_all add: one held_def del: mset_map)
qed

lemma apply_members_ok:
  assumes "pool_ok p" "distinct (map vmId ms)"
  shows "pool_ok (apply_members l now u ms digest p)"
proof -
  let ?ex = "map (\<lambda>m. (pb_id m, m)) (poMembers p)"
  have d: "distinct (map pb_id (poMembers p))" using assms(1) by (simp add: pool_ok_def)
  have ex: "fold (\<lambda>m. gm_put (pb_id m) m) (poMembers p) [] = ?ex" using existing_list [OF d, of "[]"] by simp
  have "named ?ex" using d by (auto simp: named_def gm_wf_def comp_def)
  define r where "r = next_members l now ms ?ex"
  have r: "map pb_id (fst r) = map vmId ms" "mset (held (fst r)) + mset (held (map snd (snd r))) = mset (held (poMembers p))"
    "phases_ok (poMembers p) \<longrightarrow> phases_ok (fst r)"
    using next_members_ok [OF \<open>named ?ex\<close>, of l now ms] by (simp_all add: r_def comp_def)
  define q where "q = fold (remove_member now) (snd r) p"
  have q: "poOpen q = poOpen p" "poFresh q = poFresh p" "poCancelled q = poCancelled p"
    "mset (map fst (poDraining q)) = mset (map fst (poDraining p)) + mset (held (map snd (snd r)))"
    unfolding q_def by (rule remove_members)+
  have "mset (held (fst r) @ map fst (poDraining q)) = mset (owned p)"
    unfolding owned_def mset_append q(4) r(2) [symmetric] by (simp only: ac_simps)
  then have "pool_ok (q\<lparr>poMembers := fst r, poHot := h, poRevision := v, poDigest := digest\<rparr>)" for h v
    using assms r(1,3) q(1,2,3) by (simp add: pool_ok_def owned_def del: mset_append mset_map)
  then show ?thesis by (simp add: apply_members_def Let_def ex r_def [symmetric] q_def [symmetric])
qed

lemma check_members_ids: "check_members l seen ms = Inr ms' \<Longrightarrow> map vmId ms' = map vmId ms \<and> distinct (map vmId ms) \<and> vmId ` set ms \<inter> set seen = {}"
proof (induction ms arbitrary: seen ms')
  case (Cons m ms)
  then obtain sp ns where "Normalize (liCa l) (liPair l) (vmSpec m) = Inr sp" "check_members l (vmId m # seen) ms = Inr ns"
    "ms' = m\<lparr>vmSpec := sp\<rparr> # ns" "vmId m \<notin> set seen"
    by (cases "Normalize (liCa l) (liPair l) (vmSpec m)"; cases "check_members l (vmId m # seen) ms") (auto split: if_splits)
  then show ?case using Cons.IH [of "vmId m # seen" ns] by auto
qed simp

lemma members_update_ok: "pool_ok p \<Longrightarrow> pool_ok (snd (SetMembers l now u p))"
proof (cases "check_members l [] (upMembers u)")
  case (Inr ms)
  assume p: "pool_ok p"
  have "distinct (map vmId ms)" using check_members_ids [OF Inr] by simp
  from apply_members_ok [OF p this] show ?thesis using Inr p by (simp add: SetMembers_def Let_def)
qed (simp add: SetMembers_def)

lemma close_members:
  "poOpen (fold (\<lambda>m. close_optional (pbSession m)) ms p) = filter (\<lambda>s. s \<notin> set (held ms)) (poOpen p)"
  "poMembers (fold (\<lambda>m. close_optional (pbSession m)) ms p) = poMembers p"
  "poDraining (fold (\<lambda>m. close_optional (pbSession m)) ms p) = poDraining p"
proof -
  have one: "poOpen (close_optional o1 p) = filter (\<lambda>s. s \<notin> set (sess_list o1)) (poOpen p)"
    "poMembers (close_optional o1 p) = poMembers p" "poDraining (close_optional o1 p) = poDraining p" for o1 p
    by (cases o1; simp add: close_session_def removeAll_filter_not_eq neq_commute)+
  show "poOpen (fold (\<lambda>m. close_optional (pbSession m)) ms p) = filter (\<lambda>s. s \<notin> set (held ms)) (poOpen p)"
    by (induction ms arbitrary: p) (auto simp: one held_def intro!: filter_cong)
  show "poMembers (fold (\<lambda>m. close_optional (pbSession m)) ms p) = poMembers p"
    "poDraining (fold (\<lambda>m. close_optional (pbSession m)) ms p) = poDraining p"
    by (induction ms arbitrary: p) (simp_all add: one)
qed

lemma close_drained:
  "poOpen (fold (\<lambda>d. close_session (fst d)) ds p) = filter (\<lambda>s. s \<notin> fst ` set ds) (poOpen p)"
  "poMembers (fold (\<lambda>d. close_session (fst d)) ds p) = poMembers p"
  by (induction ds arbitrary: p) (auto simp: close_session_def removeAll_filter_not_eq intro!: filter_cong)

lemma close_ok_pool: "pool_ok p \<Longrightarrow> pool_ok (close_pool p) \<and> poOpen (close_pool p) = []"
proof (cases "poCancelled p")
  case False
  assume p: "pool_ok p"
  have "set (poOpen p) = set (held (poMembers p)) \<union> fst ` set (poDraining p)"
    using p mset_eq_setD [of "poOpen p" "owned p"] by (simp add: pool_ok_def owned_def)
  then have none: "poOpen (close_pool p) = []"
    using False by (auto simp: close_pool_def Let_def close_members close_drained filter_empty_conv)
  have "held (map (\<lambda>m. m\<lparr>pbSession := None\<rparr>) ms) = []" for ms by (simp add: held_def)
  then show ?thesis using none p False
    by (simp add: pool_ok_def owned_def) (simp add: close_pool_def Let_def close_members close_drained comp_def)
qed (auto simp: close_pool_def pool_ok_def)

subsection \<open>The promises of a pool\<close>

lemma pool_step_ok: "pool_ok p \<Longrightarrow> pool_step e p = Some q \<Longrightarrow> pool_ok q"
proof (cases e)
  case (Tick now alive)
  assume "pool_ok p" "pool_step e p = Some q"
  then show ?thesis using Tick reconcile_ok [of p now alive] by auto
next
  case (Attempt now j r)
  assume "pool_ok p" "pool_step e p = Some q"
  then show ?thesis using Attempt attempt_ok [where p = p and now = now and j = j and r = r] by (auto split: if_splits option.splits)
qed (auto simp: session_done_ok probed_ok dial_failed_ok select_ok members_update_ok close_ok_pool)

lemma pool_run_ok: "pool_ok p \<Longrightarrow> pool_run es p = Some q \<Longrightarrow> pool_ok q"
proof (induction es arbitrary: p)
  case (Cons e es)
  then show ?case using pool_step_ok [of p e] by (auto split: option.splits)
qed simp

lemma new_pool_ok: "pool_ok (new_pool hot)"
  by (simp add: pool_ok_def new_pool_def owned_def held_def phases_ok_def)

lemma reachable_ok: "pool_run es (new_pool hot) = Some p \<Longrightarrow> pool_ok p"
  by (rule pool_run_ok [OF new_pool_ok])

text \<open>C5: No session is lost or shared. After any history, every open session belongs to exactly one member or
  one drain, and nothing else is owned; a closed pool has no open session, also when attempts that
  were under way succeed later.\<close>

theorem sessions_owned_once:
  assumes "pool_run es (new_pool hot) = Some p"
  shows "distinct (poOpen p) \<and> mset (poOpen p) = mset (owned p) \<and> (poCancelled p \<longrightarrow> poOpen p = [])"
  using reachable_ok [OF assms] by (simp add: pool_ok_def)

text \<open>C6: When the pool crashes. After any history exactly one kind of step panics: a connection attempt that
  failed and is no longer wanted, because the pool was closed or the member was replaced meanwhile. In
  particular reconciling never closes a nil session.\<close>

theorem pool_crashes_exactly:
  assumes "pool_run es (new_pool hot) = Some p"
  shows "pool_step e p = None \<longleftrightarrow>
    (\<exists>now j err. e = Attempt now j (ConnectFailed err) \<and> j \<in> set (poDials p) \<and> \<not> attempt_wanted j p)"
proof (cases e)
  case (Tick now alive)
  then show ?thesis using reconcile_ok [OF reachable_ok [OF assms], of now alive] by auto
next
  case (Attempt now j r)
  have "connectMember now j r p = None \<longleftrightarrow> (\<exists>err. r = ConnectFailed err) \<and> \<not> attempt_wanted j p"
    using attempt_ok [OF reachable_ok [OF assms], where now = now and j = j and r = r] by (cases "connectMember now j r p") auto
  then show ?thesis using Attempt by auto
qed simp_all

subsection \<open>Choosing and dialing\<close>

lemma first_usable_mem: "first_usable alive ms = Some m \<Longrightarrow> m \<in> set ms \<and> usable alive m"
  by (induction ms) (auto split: if_splits)

lemma first_usable_None: "first_usable alive ms = None \<longleftrightarrow> (\<forall>m \<in> set ms. \<not> usable alive m)"
  by (induction ms) auto

lemma named_usable_mem: "named_usable alive i ms = Some m \<Longrightarrow> m \<in> set ms \<and> usable alive m \<and> pb_id m = i"
  by (induction ms) (auto split: if_splits)

lemma named_usable_None: "named_usable alive i ms = None \<longleftrightarrow> (\<forall>m \<in> set ms. pb_id m = i \<longrightarrow> \<not> usable alive m)"
  by (induction ms) auto

definition serves_on :: "string \<Rightarrow> nat \<Rightarrow> pool \<Rightarrow> bool" where
  "serves_on i s p \<longleftrightarrow> s \<in> set (poOpen p) \<and> poActive p = i \<and>
     list_ex (\<lambda>m. pb_id m = i \<and> pbState m = Up \<and> pbSession m = Some s) (poMembers p)"

lemma usable_session: "usable alive m \<Longrightarrow> \<exists>s. pbSession m = Some s \<and> alive s \<and> pbState m = Up"
  by (cases "pbSession m") (auto simp: usable_def)

lemma held_mem: "m \<in> set ms \<Longrightarrow> pbSession m = Some s \<Longrightarrow> s \<in> set (held ms)"
  by (force simp: held_def)

lemma open_mem: "pool_ok p \<Longrightarrow> m \<in> set (poMembers p) \<Longrightarrow> pbSession m = Some s \<Longrightarrow> s \<in> set (poOpen p)"
  using held_mem [of m "poMembers p" s] mset_eq_setD [of "poOpen p" "owned p"] by (auto simp: pool_ok_def owned_def)

lemma chosen_serves:
  assumes "pool_ok p" "m \<in> set (poMembers p)" "usable alive m"
  shows "\<exists>s. fst (chosen (Some m) p) = Some (pb_id m, s) \<and> serves_on (pb_id m) s (snd (chosen (Some m) p))"
proof -
  obtain s where s: "pbSession m = Some s" "alive s" "pbState m = Up" using usable_session [OF assms(3)] by blast
  then show ?thesis using open_mem [OF assms(1,2) s(1)] assms(2) by (auto simp: serves_on_def list_ex_iff)
qed

lemma select_chosen: "\<exists>r. selectActiveLocked alive p = chosen r p \<and> (\<forall>m. r = Some m \<longrightarrow> m \<in> set (poMembers p) \<and> usable alive m)"
proof (cases "poActive p \<noteq> [] \<and> named_usable alive (poActive p) (poMembers p) \<noteq> None")
  case True
  then have "selectActiveLocked alive p = chosen (named_usable alive (poActive p) (poMembers p)) p" by (simp add: selectActiveLocked_def)
  then show ?thesis using named_usable_mem [of alive "poActive p" "poMembers p"] by blast
next
  case False
  then have "selectActiveLocked alive p = chosen (first_usable alive (poMembers p)) p" by (auto simp: selectActiveLocked_def)
  then show ?thesis using first_usable_mem [of alive "poMembers p"] by blast
qed

lemma select_serves:
  assumes "pool_ok p" "selectActiveLocked alive p = (Some (i, s), q)"
  shows "serves_on i s q"
proof -
  obtain r where r: "chosen r p = (Some (i, s), q)" "\<And>m. r = Some m \<Longrightarrow> m \<in> set (poMembers p) \<and> usable alive m"
    using select_chosen [of alive p] assms(2) by auto
  then obtain m where m: "r = Some m" by (cases r) simp_all
  from chosen_serves [OF assms(1), of m alive] r(2) [OF m] obtain s' where
    "fst (chosen r p) = Some (pb_id m, s')" "serves_on (pb_id m) s' (snd (chosen r p))" unfolding m by blast
  then show ?thesis unfolding r(1) by simp
qed

lemma select_None:
  "fst (selectActiveLocked alive p) = None \<longleftrightarrow> (\<forall>m \<in> set (poMembers p). \<not> usable alive m)"
proof -
  have c: "fst (chosen (Some m) p) = None \<longleftrightarrow> False" if "usable alive m" for m using usable_session [OF that] by auto
  show ?thesis
  proof (cases "poActive p \<noteq> [] \<and> named_usable alive (poActive p) (poMembers p) \<noteq> None")
    case True
    then obtain m where m: "named_usable alive (poActive p) (poMembers p) = Some m" by auto
    from named_usable_mem [OF m] show ?thesis using True m c [of m] by (auto simp: selectActiveLocked_def)
  next
    case False
    then have "selectActiveLocked alive p = chosen (first_usable alive (poMembers p)) p" by (auto simp: selectActiveLocked_def)
    moreover have "first_usable alive (poMembers p) = None \<longleftrightarrow> fst (chosen (first_usable alive (poMembers p)) p) = None"
      using first_usable_mem [of alive "poMembers p"] c by (cases "first_usable alive (poMembers p)") (simp_all del: chosen.simps(2))
    ultimately show ?thesis using first_usable_None [of alive "poMembers p"] by simp
  qed
qed

definition good_choice :: "(dial_failure + string \<times> nat) \<times> pool \<Rightarrow> bool" where
  "good_choice r \<longleftrightarrow> pool_ok (snd r) \<and> (case fst r of Inl _ \<Rightarrow> True | Inr (i, s) \<Rightarrow> serves_on i s (snd r))"

lemma settle_ok: "pool_ok p \<Longrightarrow> good_choice (settle_choice (selectActiveLocked alive p))"
proof -
  assume p: "pool_ok p"
  obtain r q where rq: "selectActiveLocked alive p = (r, q)" by force
  have "pool_ok q" using p select_ok [of alive p] rq by simp
  then show ?thesis using rq select_serves [OF p] by (cases r) (auto simp: good_choice_def)
qed

lemma active_session_ok: "pool_ok p \<Longrightarrow> good_choice (activeSession ws alive p)"
proof (induction ws alive p rule: activeSession.induct)
  case (3 ws alive p)
  then show ?case using settle_ok [of p alive] select_ok [of alive p] by (simp add: Let_def good_choice_def)
next
  case (4 es alive' ws alive p)
  let ?q = "kick (snd (selectActiveLocked alive p))"
  have q: "pool_ok ?q" using 4(2) by (simp add: select_ok)
  show ?case
  proof (cases "settled (selectActiveLocked alive p)")
    case True
    then show ?thesis using settle_ok [OF 4(2)] by simp
  next
    case False
    show ?thesis
    proof (cases "pool_run es ?q")
      case None
      then show ?thesis using False q by (simp add: good_choice_def)
    next
      case (Some p3)
      from 4(1) [OF refl False Some pool_run_ok [OF q Some]] show ?thesis using False Some by simp
    qed
  qed
qed (simp_all add: settle_ok)

lemma dial_attempts_ok: "pool_ok p \<Longrightarrow> good_choice (dial_attempts as p)"
proof (induction as arbitrary: p)
  case (Cons a as)
  obtain r q where rq: "activeSession (daWaits a) (daBefore a) p = (r, q)" by force
  have g: "good_choice (r, q)" using active_session_ok [OF Cons.prems, of "daWaits a" "daBefore a"] rq by simp
  then have q: "pool_ok q" by (simp add: good_choice_def)
  show ?case
  proof (cases r)
    case (Inl e)
    then show ?thesis using g rq by simp
  next
    case (Inr x)
    obtain i s where x: "x = (i, s)" by force
    show ?thesis
    proof (cases "daDial a (i, s)")
      case None
      then show ?thesis using g rq Inr x by simp
    next
      case (Some err)
      obtain b q2 where b: "recordDialFailure (daNow a) (daAfter a) i s err q = (b, q2)" by force
      have "pool_ok q2" using dial_failed_ok [OF q, of "daNow a" "daAfter a" i s err] b by simp
      then show ?thesis using Cons.IH rq Inr x Some b by (cases b) (simp_all add: good_choice_def)
    qed
  qed
qed (simp add: good_choice_def)

text \<open>C15: Traffic leaves only through the pool. A dial that succeeds went through an open session that the pool
  owns, held by the active member while it is up; and when no member is usable and none is connecting,
  every dial fails.\<close>

theorem dial_stays_in_pool:
  assumes "pool_run es (new_pool hot) = Some p"
  shows "(DialContext a1 a2 p = (Inr (i, s), q) \<longrightarrow> serves_on i s q) \<and>
    (\<not> list_ex (usable (daBefore a1)) (poMembers p) \<and> \<not> anyConnectingLocked p \<longrightarrow> fst (DialContext a1 a2 p) = Inl NoHealthyMember)"
proof (intro conjI impI)
  assume "DialContext a1 a2 p = (Inr (i, s), q)"
  then show "serves_on i s q"
    using dial_attempts_ok [OF reachable_ok [OF assms], of "[a1, a2]"] by (simp add: DialContext_def good_choice_def)
next
  assume h: "\<not> list_ex (usable (daBefore a1)) (poMembers p) \<and> \<not> anyConnectingLocked p"
  obtain r q where rq: "selectActiveLocked (daBefore a1) p = (r, q)" by force
  have r: "r = None" using select_None [of "daBefore a1" p] h rq by (auto simp: list_ex_iff)
  have "poMembers (snd (chosen c p)) = poMembers p" for c by (cases c) simp_all
  then have "poMembers (snd (selectActiveLocked (daBefore a1) p)) = poMembers p" by (simp add: selectActiveLocked_def)
  then have "poMembers q = poMembers p" using rq by simp
  then have n: "\<not> anyConnectingLocked q" using h by (simp add: anyConnectingLocked_def)
  have "activeSession ws (daBefore a1) p = (Inl NoHealthyMember, kick q)" for ws
    using rq r n by (induction ws "daBefore a1" p rule: activeSession.induct) (simp_all add: settled_def)
  then show "fst (DialContext a1 a2 p) = Inl NoHealthyMember" by (simp add: DialContext_def)
qed

subsection \<open>Backoff\<close>

lemma double_delay_power: "0 < d \<Longrightarrow> min maxBackoff (double_delay n d) = min maxBackoff (d * 2 ^ n)"
proof (induction n arbitrary: d)
  case (Suc n)
  show ?case
  proof (cases "d < maxBackoff")
    case False
    have "(1 :: duration) \<le> 2 ^ Suc n" by (rule one_le_power) simp
    then have "d * 1 \<le> d * 2 ^ Suc n" using Suc.prems by (intro mult_left_mono) simp_all
    then have "d \<le> d * 2 ^ Suc n" by simp
    then show ?thesis using False by (simp only: double_delay.simps if_False min_def) auto
  qed (use Suc in \<open>simp add: mult.assoc\<close>)
qed simp

text \<open>The pause after a failure is 15 seconds, doubled with each further failure up to ten minutes.\<close>

lemma backoff_closed: "backoff failures = (if failures \<le> 0 then minBackoff else min maxBackoff (minBackoff * 2 ^ nat (failures - 1)))"
  using double_delay_power [of minBackoff "nat (failures - 1)"] by (auto simp: backoff_def Let_def min_def minBackoff_def maxBackoff_def)

subsection \<open>Examples\<close>

definition ex_lib :: pool_lib where
  "ex_lib = \<lparr>liCa = (\<lambda>_. True), liPair = (\<lambda>_ _. True), liMarshal = (\<lambda>ms. concat (map vmId ms))\<rparr>"

definition ex_update :: members_update where
  "ex_update = \<lparr>upRevision = 1, upDigest = ''d1'', upHot = None, upMembers = [\<lparr>vmId = ''a'', vmSpec = ex_spec\<rparr>]\<rparr>"

definition ex_job :: dial_job where
  "ex_job = (''a'', MembersDigest ex_lib [\<lparr>vmId = ''a'', vmSpec = ex_normal\<rparr>], ex_normal)"

definition ex_starting :: pool where
  "ex_starting = (new_pool 1)\<lparr>poRevision := 1, poDigest := ''d1'', poChanged := 1, poWake := True, poDials := [ex_job],
     poMembers := [(fresh_member 0 \<lparr>vmId = ''a'', vmSpec = ex_normal\<rparr> (fst (snd ex_job)))\<lparr>pbState := Connecting\<rparr>]\<rparr>"

lemma ex_starts: "pool_run [Update ex_lib 0 ex_update, Tick 0 (\<lambda>_. True)] (new_pool 1) = Some ex_starting"
proof -
  have t: "memberIDPattern ''a''" "trim_space ''d1'' = ''d1''" by code_simp+
  have "check_members ex_lib [] (upMembers ex_update) = Inr [\<lparr>vmId = ''a'', vmSpec = ex_normal\<rparr>]"
    using t ex_normalized by (simp add: ex_update_def ex_lib_def)
  then have u: "snd (SetMembers ex_lib 0 ex_update (new_pool 1)) = (new_pool 1)\<lparr>poRevision := 1, poDigest := ''d1'', poChanged := 1,
      poWake := True, poMembers := [fresh_member 0 \<lparr>vmId = ''a'', vmSpec = ex_normal\<rparr> (fst (snd ex_job))]\<rparr>"
    using t by (simp add: SetMembers_def ex_update_def digest_or_def Let_def apply_members_def new_pool_def kick_def broadcastLocked_def ex_job_def)
  show ?thesis
    unfolding pool_run.simps pool_step.simps option.case u
    by (simp add: reconcile_def reconcile_live_def Let_def sweep_draining_def new_pool_def scan_member_def fresh_member_def
      start_member_def set_member_def ex_starting_def ex_job_def)
qed

lemma ex_connected: "pool_run ([Update ex_lib 0 ex_update, Tick 0 (\<lambda>_. True)] @ es) (new_pool 1) = pool_run es ex_starting"
  using ex_starts by (auto split: option.splits)

definition ex_up :: pool where
  "ex_up = ex_starting\<lparr>poDials := [], poOpen := [0], poFresh := 1, poChanged := 2,
     poMembers := [(fresh_member 0 \<lparr>vmId = ''a'', vmSpec = ex_normal\<rparr> (fst (snd ex_job)))
       \<lparr>pbState := Up, pbSession := Some 0, pbHandshake := 5, pbChange := 7\<rparr>]\<rparr>"

lemma ex_goes_up: "pool_run [Attempt 7 ex_job (ConnectOk 5)] ex_starting = Some ex_up"
  by (simp add: ex_starting_def ex_up_def new_pool_def connectMember_def attempt_wanted_def Let_def ex_job_def fresh_member_def
    set_member_def broadcastLocked_def)

theorem sessions_owned_once_witness:
  "poOpen ex_up = [0] \<and> distinct (poOpen ex_up) \<and> mset (poOpen ex_up) = mset (owned ex_up)"
proof -
  have "pool_run ([Update ex_lib 0 ex_update, Tick 0 (\<lambda>_. True)] @ [Attempt 7 ex_job (ConnectOk 5)]) (new_pool 1) = Some ex_up"
    unfolding ex_connected by (rule ex_goes_up)
  from sessions_owned_once [OF this] show ?thesis by (simp add: ex_up_def)
qed

text \<open>A pool that is closed while its only member is connecting, and the attempt then fails.\<close>

theorem pool_crashes_exactly_witness:
  "pool_step (Attempt 7 ex_job (ConnectFailed ''context canceled'')) (close_pool ex_starting) = None"
proof -
  have "pool_run ([Update ex_lib 0 ex_update, Tick 0 (\<lambda>_. True)] @ [Shut]) (new_pool 1) = Some (close_pool ex_starting)"
    unfolding ex_connected by simp
  moreover have "ex_job \<in> set (poDials (close_pool ex_starting)) \<and> \<not> attempt_wanted ex_job (close_pool ex_starting)"
    by (simp add: close_pool_def ex_starting_def new_pool_def fresh_member_def Let_def attempt_wanted_def)
  ultimately show ?thesis using pool_crashes_exactly by blast
qed

definition ex_attempt :: dial_attempt where
  "ex_attempt = \<lparr>daWaits = [], daBefore = (\<lambda>_. True), daAfter = (\<lambda>_. True), daNow = 9, daDial = (\<lambda>_. None)\<rparr>"

theorem dial_stays_in_pool_witness:
  "DialContext ex_attempt ex_attempt ex_up = (Inr (''a'', 0), ex_up\<lparr>poActive := ''a''\<rparr>) \<and> serves_on ''a'' 0 (ex_up\<lparr>poActive := ''a''\<rparr>)"
proof
  have r: "pool_run ([Update ex_lib 0 ex_update, Tick 0 (\<lambda>_. True)] @ [Attempt 7 ex_job (ConnectOk 5)]) (new_pool 1) = Some ex_up"
    unfolding ex_connected by (rule ex_goes_up)
  show d: "DialContext ex_attempt ex_attempt ex_up = (Inr (''a'', 0), ex_up\<lparr>poActive := ''a''\<rparr>)"
    by (simp add: DialContext_def ex_attempt_def selectActiveLocked_def ex_up_def ex_starting_def new_pool_def fresh_member_def usable_def)
  from dial_stays_in_pool [OF r, of ex_attempt ex_attempt "''a''" 0 "ex_up\<lparr>poActive := ''a''\<rparr>"] d
  show "serves_on ''a'' 0 (ex_up\<lparr>poActive := ''a''\<rparr>)" by blast
qed

end
