(* ===== verification/Spec2Isabelle.thy ===== *)
theory Spec2Isabelle
  imports TrackerSafety SshHistory AgentLink VpnPool
begin

text \<open>
  Verification of the oboard agent and of its proxy kernel.
\<close>

end
